(* ===== verification/Prelude.thy ===== *)
theory Prelude
  imports "HOL-Library.Word" "HOL-Library.Monad_Syntax"
begin

text \<open>
  Shared vocabulary of the development: the machine integers of the C code
  (\<open>uint8_t\<close> .. \<open>uint64_t\<close> as words of that width; a C \<open>int\<close> as a 32-bit word read
  with \<open>sint\<close>), byte memory, the page macros of \<open>kernel/vma.h\<close>, counted loops
  \<open>for (i = a; i < n; i++)\<close>, and the generic facts about words, option results and
  loops that the component theories use.
\<close>

unbundle bit_operations_syntax

type_synonym u8 = "8 word"
type_synonym u16 = "16 word"
type_synonym u32 = "32 word"
type_synonym u64 = "64 word"
type_synonym c_int = "32 word"
type_synonym bytemem = "u64 \<Rightarrow> u8"

named_theorems unat_laws "values of machine words as natural numbers"

subsection \<open>Counters\<close>

lemma unat_Suc_less: "(i::'a::len word) < n \<Longrightarrow> unat (i + 1) = Suc (unat i)"
proof -
  assume "i < n"
  then have "unat i + 1 < 2 ^ LENGTH('a)"
    using unsigned_less [of n] by (metis Suc_eq_plus1 Suc_leI order_le_less_trans word_less_nat_alt)
  then show ?thesis by (simp add: unat_word_ariths)
qed

lemma unat_eqI: "unat a = unat b \<Longrightarrow> a = b"
  by (rule unsigned_word_eqI)

lemma unat_less_2p64: "unat (x::u64) < 18446744073709551616"
  using unsigned_less [of x] by simp

lemma unat_plus_u64: "unat (x + y :: u64) = (unat x + unat y) mod 18446744073709551616"
  by (simp add: unat_word_ariths)

lemma unat_add_nowrap [unat_laws]:
  "unat (x::u64) + unat y < 18446744073709551616 \<Longrightarrow> unat (x + y) = unat x + unat y"
  by (simp add: unat_word_ariths)

lemma unat_mult_nowrap [unat_laws]:
  "unat (x::u64) * unat y < 18446744073709551616 \<Longrightarrow> unat (x * y) = unat x * unat y"
  by (simp add: unat_word_ariths)

lemma unat_sub_le [unat_laws]: "(y::u64) \<le> x \<Longrightarrow> unat (x - y) = unat x - unat y"
  by (simp add: unat_sub)

lemma unat_of_nat_u64 [unat_laws]: "k < 18446744073709551616 \<Longrightarrow> unat (of_nat k :: u64) = k"
  by (simp add: unat_of_nat take_bit_nat_eq_self)

lemma of_nat_eq_u64_iff:
  "j < 18446744073709551616 \<Longrightarrow> k < 18446744073709551616 \<Longrightarrow>
   (of_nat j :: u64) = of_nat k \<longleftrightarrow> j = k"
  by (metis unat_of_nat_u64)

lemma unat_m1_u64 [simp]: "unat (-1 :: u64) = 18446744073709551615"
  by (simp add: unsigned_minus_1_eq_mask mask_eq_exp_minus_1)

lemma unat_dec: "(x::u64) \<noteq> 0 \<Longrightarrow> Suc (unat (x - 1)) = unat x"
  using unat_sub_le [of 1 x] by (simp add: word_le_nat_alt unat_gt_0 Suc_le_eq)

lemma unat_dec_less: "(x::u64) \<noteq> 0 \<Longrightarrow> unat (x - 1) < unat x"
  using unat_dec [of x] by simp

lemma unat_minus_of_nat_u64:
  assumes "0 < k" "k < 18446744073709551616"
  shows "unat (- of_nat k :: u64) = 18446744073709551616 - k"
proof -
  have "(of_nat (18446744073709551616 - k) :: u64) = of_nat 18446744073709551616 - of_nat k"
    using assms by (intro of_nat_diff) simp
  then have "(- of_nat k :: u64) = of_nat (18446744073709551616 - k)" by simp
  then show ?thesis using assms by (metis unat_of_nat_u64 diff_less zero_less_numeral)
qed

subsection \<open>Signed readings\<close>

lemma sint_u64:
  "sint (n::u64) = (if unat n < 0x8000000000000000 then int (unat n) else int (unat n) - 0x10000000000000000)"
proof -
  have "sint n = (uint n + 2 ^ 63) mod 2 ^ 64 - 2 ^ 63"
    using int_word_sint [of "uint n", where 'a = 64] by simp
  moreover have "0 \<le> uint n" "uint n < 2 ^ 64" using uint_bounded [of n] by simp_all
  moreover have "(uint n + 2 ^ 63) mod 2 ^ 64 =
      (if uint n < 2 ^ 63 then uint n + 2 ^ 63 else uint n + 2 ^ 63 - 2 ^ 64)"
    using \<open>0 \<le> uint n\<close> \<open>uint n < 2 ^ 64\<close>
    by (auto simp: mod_pos_pos_trivial) (simp add: mod_pos_geq mod_pos_pos_trivial)
  ultimately show ?thesis unfolding uint_nat by (simp del: of_nat_unat)
qed

lemma sint_c_int:
  "sint (n::c_int) = (if unat n < 0x80000000 then int (unat n) else int (unat n) - 0x100000000)"
proof -
  have "sint n = (uint n + 2 ^ 31) mod 2 ^ 32 - 2 ^ 31"
    using int_word_sint [of "uint n", where 'a = 32] by simp
  moreover have "0 \<le> uint n" "uint n < 2 ^ 32" using uint_bounded [of n] by simp_all
  moreover have "(uint n + 2 ^ 31) mod 2 ^ 32 =
      (if uint n < 2 ^ 31 then uint n + 2 ^ 31 else uint n + 2 ^ 31 - 2 ^ 32)"
    using \<open>0 \<le> uint n\<close> \<open>uint n < 2 ^ 32\<close>
    by (auto simp: mod_pos_pos_trivial) (simp add: mod_pos_geq mod_pos_pos_trivial)
  ultimately show ?thesis unfolding uint_nat by (simp del: of_nat_unat)
qed

lemma neg_u64_iff: "(n::u64) <s 0 \<longleftrightarrow> 0x8000000000000000 \<le> unat n"
  using unat_less_2p64 [of n] by (simp add: word_sless_alt sint_u64 del: of_nat_unat)

lemma pos_u64_iff: "0 <s (n::u64) \<longleftrightarrow> 0 < unat n \<and> unat n < 0x8000000000000000"
  using unat_less_2p64 [of n] by (simp add: word_sless_alt sint_u64 del: of_nat_unat)

lemma unat_neg_u64: "unat (- n :: u64) = (if n = 0 then 0 else 0x10000000000000000 - unat n)"
  using unat_minus_of_nat_u64 [of "unat n"] unat_less_2p64 [of n] by (simp add: unat_gt_0)

lemma unat_u8_c_int: "unat (ucast (a::u8) :: c_int) = unat a"
proof -
  have "unat a < 2 ^ 8" using unsigned_less [of a, where ?'a = nat] by simp
  then have "unat a < 2 ^ 32" by simp
  then show ?thesis by (simp add: unsigned_ucast_eq take_bit_nat_eq_self)
qed

lemma u8_c_int_eq_iff: "(ucast (a::u8) :: c_int) = ucast b \<longleftrightarrow> a = b"
  by (metis unat_u8_c_int unat_eqI)

text \<open>
  \<open>for (i = a; i < n; i++) s = f(i, s)\<close> over 64-bit counters; the closed form folds over
  the natural numbers in between.
\<close>

function for_loop :: "u64 \<Rightarrow> u64 \<Rightarrow> (u64 \<Rightarrow> 's \<Rightarrow> 's) \<Rightarrow> 's \<Rightarrow> 's" where
  "for_loop i n f s = (if i < n then for_loop (i + 1) n f (f i s) else s)"
  by pat_completeness auto
termination
  by (relation "measure (\<lambda>(i, n, f, s). unat n - unat i)")
    (auto simp: unat_Suc_less word_less_nat_alt)

declare for_loop.simps [simp del]

lemma for_loop_fold:
  "for_loop i n f s = fold (\<lambda>k. f (of_nat k)) [unat i..<unat n] s"
proof (induction i n f s rule: for_loop.induct)
  case (1 i n f s)
  show ?case
  proof (cases "i < n")
    case True
    then have "[unat i..<unat n] = unat i # [unat (i + 1)..<unat n]"
      by (simp add: unat_Suc_less upt_conv_Cons word_less_nat_alt)
    with True 1 show ?thesis
      by (simp add: for_loop.simps [of i])
  next
    case False
    then show ?thesis by (simp add: for_loop.simps [of i] word_less_nat_alt)
  qed
qed

lemma for_loop_0_fold:
  "for_loop 0 n f s = fold (\<lambda>k. f (of_nat k)) [0..<unat n] s"
  by (simp add: for_loop_fold)

text \<open>Storing one value at the \<open>n\<close> addresses from \<open>a\<close> on.\<close>

lemma fold_store_const:
  "n \<le> 18446744073709551616 \<Longrightarrow>
   fold (\<lambda>k m. m(a + of_nat k := v)) [0..<n] m =
   (\<lambda>x::u64. if unat (x - a) < n then v else m x)"
proof (induction n)
  case 0
  then show ?case by simp
next
  case (Suc n)
  have "(unat (x - a) < Suc n) = (unat (x - a) < n \<or> x = a + of_nat n)" for x :: u64
  proof -
    have "x = a + of_nat n \<longleftrightarrow> unat (x - a) = n"
    proof
      assume "x = a + of_nat n"
      with Suc.prems show "unat (x - a) = n" by (simp add: unat_of_nat_u64)
    next
      assume "unat (x - a) = n"
      then have "x - a = of_nat n" by (metis word_of_nat_eq_iff word_unat_eq_iff unat_of_nat_u64 Suc.prems Suc_le_lessD)
      then show "x = a + of_nat n" by (metis add.commute diff_add_cancel)
    qed
    then show ?thesis by auto
  qed
  with Suc show ?case by (auto simp: fun_eq_iff)
qed

subsection \<open>Page rounding (kernel/vma.h)\<close>

definition PAGE_UP :: "u64 \<Rightarrow> u64" where
  "PAGE_UP x = (x + 0xFFF) AND NOT 0xFFF"

definition PAGE_DOWN :: "u64 \<Rightarrow> u64" where
  "PAGE_DOWN x = x AND NOT 0xFFF"

definition PAGE_SIZE_4KB :: u64 where
  "PAGE_SIZE_4KB = 0x1000"

lemma and_not_mask_drop: "(x::'a::len word) AND NOT (mask n) = push_bit n (drop_bit n x)"
  by (rule bit_word_eqI) (auto simp: bit_simps)

lemma unat_and_not_mask:
  "unat ((x::'a::len word) AND NOT (mask n)) = unat x div 2 ^ n * 2 ^ n"
proof -
  have "unat (x AND NOT (mask n)) = take_bit LENGTH('a) (unat x div 2 ^ n * 2 ^ n)"
    by (simp add: and_not_mask_drop unsigned_push_bit_eq unsigned_drop_bit_eq)
      (simp add: push_bit_eq_mult drop_bit_eq_div take_bit_nat_eq_self)
  moreover have "unat x div 2 ^ n * 2 ^ n < 2 ^ LENGTH('a)"
    using unsigned_less [of x] by (metis div_times_less_eq_dividend order_le_less_trans)
  ultimately show ?thesis by (simp add: take_bit_nat_eq_self)
qed

lemma unat_PAGE_DOWN [unat_laws]: "unat (PAGE_DOWN x) = unat x div 4096 * 4096"
  using unat_and_not_mask [of x 12] by (simp add: PAGE_DOWN_def mask_eq_exp_minus_1)

lemma unat_PAGE_UP [unat_laws]:
  "unat x + 4095 < 18446744073709551616 \<Longrightarrow> unat (PAGE_UP x) = (unat x + 4095) div 4096 * 4096"
  using unat_and_not_mask [of "x + 0xFFF" 12]
  by (simp add: PAGE_UP_def mask_eq_exp_minus_1 unat_word_ariths)

end
