(* ===== verification/Interfaces.thy ===== *)
theory Interfaces
  imports Prelude
begin

text \<open>
  The contracts between the components, as locales: what a provider of physical frames
  promises to the code that maps memory, what a program break promises to the heap, and how a
  chain of C structures linked by their \<open>next\<close> pointers is read as a list. Each is interpreted
  on the model of the code that provides it.
\<close>

subsection \<open>A source of physical frames\<close>

text \<open>
  \<open>alloc\<close> is one call of the allocator for a single frame, \<open>release\<close> gives a frame back,
  \<open>avail\<close> is the set of addresses that may still be handed out.
\<close>

fun alloc_many :: "('s \<Rightarrow> u64 \<times> 's) \<Rightarrow> nat \<Rightarrow> 's \<Rightarrow> u64 list \<times> 's" where
  "alloc_many alloc 0 s = ([], s)"
| "alloc_many alloc (Suc n) s =
     (let (r, s) = alloc s; (rs, s) = alloc_many alloc n s in (r # rs, s))"

locale frame_source =
  fixes alloc :: "'s \<Rightarrow> u64 \<times> 's"
    and release :: "u64 \<Rightarrow> 's \<Rightarrow> 's"
    and inv :: "'s \<Rightarrow> bool"
    and avail :: "'s \<Rightarrow> u64 set"
    and managed :: "'s \<Rightarrow> u64 set"
  assumes finite_avail: "inv s \<Longrightarrow> finite (avail s)"
    and avail_managed: "inv s \<Longrightarrow> avail s \<subseteq> managed s"
    and failed_not_managed: "inv s \<Longrightarrow> -1 \<notin> managed s"
    and alloc_some: "inv s \<Longrightarrow> avail s \<noteq> {} \<Longrightarrow> alloc s = (r, s') \<Longrightarrow>
          r \<in> avail s \<and> inv s' \<and> avail s' = avail s - {r} \<and> managed s' = managed s"
    and alloc_none: "inv s \<Longrightarrow> avail s = {} \<Longrightarrow> alloc s = (-1, s)"
    and release_some: "inv s \<Longrightarrow> r \<in> managed s - avail s \<Longrightarrow>
          inv (release r s) \<and> avail (release r s) = insert r (avail s) \<and>
          managed (release r s) = managed s"
begin

lemma alloc_fails_iff:
  assumes "inv s" "alloc s = (r, s')"
  shows "r = -1 \<longleftrightarrow> avail s = {}"
  using assms alloc_some [OF assms(1) _ assms(2)] alloc_none [OF assms(1)]
    avail_managed [OF assms(1)] failed_not_managed [OF assms(1)] by auto

lemma alloc_fresh:
  assumes "inv s" "alloc s = (r, s')" "r \<noteq> -1"
  shows "r \<in> avail s" "r \<notin> avail s'" "inv s'" "managed s' = managed s"
  using assms alloc_some [OF assms(1) _ assms(2)] alloc_fails_iff [OF assms(1,2)] by auto

lemma alloc_release:
  assumes "inv s" "alloc s = (r, s')" "r \<noteq> -1"
  shows "inv (release r s')" "avail (release r s') = avail s"
proof -
  have "r \<in> avail s" "inv s'" "avail s' = avail s - {r}" "managed s' = managed s"
    using assms alloc_some [OF assms(1) _ assms(2)] alloc_fails_iff [OF assms(1,2)] by auto
  moreover from this have "r \<in> managed s' - avail s'"
    using avail_managed [OF assms(1)] by auto
  ultimately show "inv (release r s')" "avail (release r s') = avail s"
    using release_some [of s' r] by auto
qed

text \<open>
  A client that asks for \<open>n\<close> frames one after the other gets \<open>n\<close> different ones, all of them
  available before, as long as there are that many.
\<close>

lemma alloc_many_distinct:
  assumes "inv s" "n \<le> card (avail s)" "alloc_many alloc n s = (rs, s')"
  shows "distinct rs \<and> length rs = n \<and> set rs \<subseteq> avail s \<and> inv s' \<and>
         avail s' = avail s - set rs \<and> managed s' = managed s"
  using assms
proof (induction n arbitrary: s rs)
  case 0
  then show ?case by simp
next
  case (Suc n)
  obtain r s1 where a: "alloc s = (r, s1)" by force
  obtain rs1 where m: "alloc_many alloc n s1 = (rs1, s')" and rs: "rs = r # rs1"
    using Suc.prems(3) a by (auto simp: Let_def split: prod.splits)
  have "avail s \<noteq> {}" using Suc.prems(2) by auto
  from alloc_some [OF Suc.prems(1) this a] have
    r: "r \<in> avail s" "inv s1" "avail s1 = avail s - {r}" "managed s1 = managed s" by auto
  moreover have "n \<le> card (avail s1)"
    using Suc.prems(1,2) r finite_avail by (simp add: card_Diff_singleton)
  ultimately show ?case using Suc.IH [OF r(2) _ m] rs by auto
qed

end

end
