(* ===== verification/Frames.thy ===== *)
theory Frames
  imports Interfaces
begin

text \<open>
  The physical frame allocator of \<open>kernel/vma.c\<close> (\<open>kframe_*\<close>): one byte of the bitmap per
  4 KB frame, a count of available frames, and the allocation of one frame, of a fixed range
  and of the first run of free frames. The bitmap lives in byte memory at \<open>bitmap_frame\<close>;
  every operation takes the memory and the allocator record and returns both. The pointer
  \<open>fa\<close> is always the address of a field of \<open>kernel_struct\<close>, so the tests \<open>!fa\<close> of the code
  never succeed and have no branch here.
\<close>

subsection \<open>State and operations\<close>

definition KFRAME_USED :: u8 where "KFRAME_USED = 0xFF"
definition KFRAME_FREE :: u8 where "KFRAME_FREE = 0x00"
definition KFRAME_SIZE :: u64 where "KFRAME_SIZE = 0x1000"

record kframe_alloc =
  frame_count :: u64
  frame_start :: u64
  bitmap_frame :: u64
  bitmap_count :: u64
  frame_lock :: u64
  available_frame_count :: u64

text \<open>The new memory and allocator, with the returned value in front.\<close>

definition kframe_allocator_init ::
  "bytemem \<Rightarrow> kframe_alloc \<Rightarrow> u64 \<Rightarrow> u64 \<Rightarrow> u64 \<Rightarrow> u64 \<Rightarrow> c_int \<times> bytemem \<times> kframe_alloc" where
  "kframe_allocator_init m fa bitmap bitmap_size start sz =
     (if sz = 0 then (0, m, fa)
      else
        let fa' = fa\<lparr>frame_start := start,
                     frame_count := sz div KFRAME_SIZE,
                     bitmap_frame := bitmap,
                     available_frame_count := sz div PAGE_SIZE_4KB,
                     bitmap_count := bitmap_size\<rparr>;
            m' = for_loop 0 (bitmap_count fa')
                   (\<lambda>i m. m(bitmap_frame fa' + i := KFRAME_FREE)) m
        in (1, m', fa'))"

text \<open>The search loop of \<open>kframe_allocate_single_frame\<close>: the first free index, if any.\<close>

function kf_single_loop :: "bytemem \<Rightarrow> kframe_alloc \<Rightarrow> u64 \<Rightarrow> u64 option" where
  "kf_single_loop m fa start =
     (if start < frame_count fa then
        (if m (bitmap_frame fa + start) = KFRAME_FREE then Some start
         else kf_single_loop m fa (start + 1))
      else None)"
  by pat_completeness auto
termination
  by (relation "measure (\<lambda>(m, fa, i). unat (frame_count fa) - unat i)")
    (auto simp: unat_Suc_less word_less_nat_alt)

declare kf_single_loop.simps [simp del]

definition kframe_allocate_single_frame ::
  "bytemem \<Rightarrow> kframe_alloc \<Rightarrow> u64 \<times> bytemem \<times> kframe_alloc" where
  "kframe_allocate_single_frame m fa =
     (if available_frame_count fa = 0 then (0, m, fa)
      else case kf_single_loop m fa 0 of
        Some start \<Rightarrow>
          (frame_start fa + start * KFRAME_SIZE,
           m(bitmap_frame fa + start := KFRAME_USED),
           fa\<lparr>available_frame_count := available_frame_count fa - 1\<rparr>)
      | None \<Rightarrow> (-1, m, fa))"

definition kframe_free :: "bytemem \<Rightarrow> kframe_alloc \<Rightarrow> u64 \<Rightarrow> bytemem \<times> kframe_alloc" where
  "kframe_free m fa address =
     (let index = (address - frame_start fa) div KFRAME_SIZE in
      if address < frame_start fa \<or>
         address > frame_start fa + frame_count fa * KFRAME_SIZE
      then (m, fa)
      else (m(bitmap_frame fa + index := KFRAME_FREE),
            fa\<lparr>available_frame_count := available_frame_count fa + 1\<rparr>))"

text \<open>
  The two loops over a range of the bitmap that \<open>kframe_allocate_fixed\<close> and
  \<open>kframe_allocate_range\<close> share in shape: is any frame of it used, and mark it used.
\<close>

function kf_any_used :: "bytemem \<Rightarrow> kframe_alloc \<Rightarrow> u64 \<Rightarrow> u64 \<Rightarrow> u64 \<Rightarrow> bool" where
  "kf_any_used m fa index count i =
     (if i < count then
        m (bitmap_frame fa + (index + i)) = KFRAME_USED \<or> kf_any_used m fa index count (i + 1)
      else False)"
  by pat_completeness auto
termination
  by (relation "measure (\<lambda>(m, fa, index, n, i). unat n - unat i)")
    (auto simp: unat_Suc_less word_less_nat_alt)

declare kf_any_used.simps [simp del]

definition kf_mark :: "bytemem \<Rightarrow> kframe_alloc \<Rightarrow> u64 \<Rightarrow> u64 \<Rightarrow> bytemem \<times> kframe_alloc" where
  "kf_mark m fa index count =
     for_loop 0 count
       (\<lambda>i (m, fa). (m(bitmap_frame fa + (index + i) := KFRAME_USED),
                     fa\<lparr>available_frame_count := available_frame_count fa - 1\<rparr>))
       (m, fa)"

definition kframe_allocate_fixed ::
  "bytemem \<Rightarrow> kframe_alloc \<Rightarrow> u64 \<Rightarrow> u64 \<Rightarrow> u64 \<times> bytemem \<times> kframe_alloc" where
  "kframe_allocate_fixed m fa start count =
     (let fend = frame_start fa + frame_count fa * KFRAME_SIZE in
      if start < frame_start fa \<or> fend < start + count * KFRAME_SIZE then (-1, m, fa)
      else
        let index = (start - frame_start fa) div KFRAME_SIZE in
        if kf_any_used m fa index count 0 then (-1, m, fa)
        else let (m', fa') = kf_mark m fa index count in (start, m', fa'))"

text \<open>
  The search loop of \<open>kframe_allocate_range\<close> with its two variables: \<open>target\<close>, the address
  of the first frame of the current run (or -1), and \<open>l_count\<close>, the length of the run.
\<close>

function kf_range_loop ::
  "bytemem \<Rightarrow> kframe_alloc \<Rightarrow> u64 \<Rightarrow> u64 \<Rightarrow> u64 \<Rightarrow> u64 \<Rightarrow> u64 \<times> u64" where
  "kf_range_loop m fa count i target l_count =
     (if i < frame_count fa then
        (let (target, l_count) =
           (if m (bitmap_frame fa + i) = KFRAME_FREE
            then (if target = -1 then i * KFRAME_SIZE + frame_start fa else target, l_count + 1)
            else (-1, 0))
         in if l_count = count then (target, l_count)
            else kf_range_loop m fa count (i + 1) target l_count)
      else (target, l_count))"
  by pat_completeness auto
termination
  by (relation "measure (\<lambda>(m, fa, count, i, t, l). unat (frame_count fa) - unat i)")
    (auto simp: unat_Suc_less word_less_nat_alt)

declare kf_range_loop.simps [simp del]

definition kframe_allocate_range ::
  "bytemem \<Rightarrow> kframe_alloc \<Rightarrow> u64 \<Rightarrow> u64 \<times> bytemem \<times> kframe_alloc" where
  "kframe_allocate_range m fa count =
     (if count > available_frame_count fa then (-1, m, fa)
      else
        let (target, l_count) = kf_range_loop m fa count 0 (-1) 0 in
        if l_count = count then
          let (m', fa') = kf_mark m fa ((target - frame_start fa) div KFRAME_SIZE) count
          in (target, m', fa')
        else (target, m, fa))"

subsection \<open>The abstract view: the set of free frames\<close>

text \<open>
  The bitmap read as a set of frame numbers. \<open>kf_inv\<close> is the allocator's representation
  invariant: the managed range does not wrap, every bitmap byte is one of the two marks, and
  the counter is the number of free frames.
\<close>

definition kf_free_at :: "bytemem \<Rightarrow> kframe_alloc \<Rightarrow> nat \<Rightarrow> bool" where
  "kf_free_at m fa k \<longleftrightarrow> m (bitmap_frame fa + of_nat k) = KFRAME_FREE"

definition kf_free_set :: "bytemem \<Rightarrow> kframe_alloc \<Rightarrow> nat set" where
  "kf_free_set m fa = {k. k < unat (frame_count fa) \<and> kf_free_at m fa k}"

definition kf_wf :: "kframe_alloc \<Rightarrow> bool" where
  "kf_wf fa \<longleftrightarrow> unat (frame_start fa) + unat (frame_count fa) * 4096 < 18446744073709551616"

definition kf_inv :: "bytemem \<Rightarrow> kframe_alloc \<Rightarrow> bool" where
  "kf_inv m fa \<longleftrightarrow>
     kf_wf fa \<and>
     (\<forall>k < unat (frame_count fa).
        m (bitmap_frame fa + of_nat k) = KFRAME_FREE \<or> m (bitmap_frame fa + of_nat k) = KFRAME_USED) \<and>
     unat (available_frame_count fa) = card (kf_free_set m fa)"

definition kf_addr :: "kframe_alloc \<Rightarrow> nat \<Rightarrow> u64" where
  "kf_addr fa k = frame_start fa + of_nat k * KFRAME_SIZE"

definition kf_run :: "bytemem \<Rightarrow> kframe_alloc \<Rightarrow> nat \<Rightarrow> nat \<Rightarrow> bool" where
  "kf_run m fa n k \<longleftrightarrow> k + n \<le> unat (frame_count fa) \<and> (\<forall>j < n. kf_free_at m fa (k + j))"

lemmas kf_abs_defs = kf_free_set_def kf_free_at_def kf_inv_def kf_wf_def kf_addr_def kf_run_def

lemma KFRAME_FREE_USED [simp]: "KFRAME_FREE \<noteq> KFRAME_USED" "KFRAME_USED \<noteq> KFRAME_FREE"
  by (simp_all add: KFRAME_FREE_def KFRAME_USED_def)

lemma finite_kf_free_set [simp]: "finite (kf_free_set m fa)"
  by (simp add: kf_free_set_def)

lemma frame_count_bound: "kf_wf fa \<Longrightarrow> unat (frame_count fa) < 4503599627370496"
  by (simp add: kf_wf_def)

lemma unat_KFRAME_SIZE [simp]: "unat KFRAME_SIZE = 4096"
  by (simp add: KFRAME_SIZE_def)

text \<open>Frame addresses: exact, below the end of the range, and injective.\<close>

lemma unat_kf_addr:
  assumes "kf_wf fa" "k \<le> unat (frame_count fa)"
  shows "unat (kf_addr fa k) = unat (frame_start fa) + k * 4096"
proof -
  have k: "k < 4503599627370496"
    using assms frame_count_bound by (meson order_le_less_trans)
  have le: "unat (frame_start fa) + k * 4096 < 18446744073709551616"
    using assms by (auto simp: kf_wf_def)
  have "unat (of_nat k * KFRAME_SIZE :: u64) = k * 4096"
    using k by (simp add: unat_mult_nowrap unat_of_nat_u64)
  with le show ?thesis
    by (simp add: kf_addr_def unat_add_nowrap)
qed

lemma kf_addr_neq_m1: "kf_wf fa \<Longrightarrow> k < unat (frame_count fa) \<Longrightarrow> kf_addr fa k \<noteq> -1"
proof
  assume a: "kf_wf fa" "k < unat (frame_count fa)" and "kf_addr fa k = -1"
  then have "unat (kf_addr fa k) = 18446744073709551615"
    by simp
  with unat_kf_addr [of fa k] a show False
    by (simp add: kf_wf_def)
qed

lemma kf_addr_index:
  assumes "kf_wf fa" "k \<le> unat (frame_count fa)"
  shows "(kf_addr fa k - frame_start fa) div KFRAME_SIZE = of_nat k"
proof -
  have "k < 4503599627370496"
    using assms frame_count_bound by (meson order_le_less_trans)
  then have "unat (of_nat k * KFRAME_SIZE :: u64) = k * 4096"
    by (simp add: unat_mult_nowrap unat_of_nat_u64)
  then have "unat ((kf_addr fa k - frame_start fa) div KFRAME_SIZE) = k"
    by (simp add: kf_addr_def unat_div)
  then show ?thesis by (metis word_unat_eq_iff unat_of_nat_u64 unat_less_2p64)
qed

text \<open>Marking one bitmap byte, seen by the set of free frames.\<close>

lemma kf_free_at_upd:
  assumes "kf_wf fa" "k < unat (frame_count fa)" "j < unat (frame_count fa)"
  shows "kf_free_at (m(bitmap_frame fa + of_nat k := b)) fa j =
         (if j = k then b = KFRAME_FREE else kf_free_at m fa j)"
proof -
  have "j < 18446744073709551616" "k < 18446744073709551616"
    using assms frame_count_bound [OF assms(1)] by simp_all
  then show ?thesis by (auto simp: kf_free_at_def of_nat_eq_u64_iff)
qed

lemma kf_free_set_upd:
  assumes "kf_wf fa" "k < unat (frame_count fa)"
  shows "kf_free_set (m(bitmap_frame fa + of_nat k := b)) fa =
         (if b = KFRAME_FREE then insert k (kf_free_set m fa) else kf_free_set m fa - {k})"
  using assms by (auto simp: kf_free_set_def kf_free_at_upd split: if_splits)

lemma kf_free_set_avail [simp]:
  "kf_free_set m (fa\<lparr>available_frame_count := c\<rparr>) = kf_free_set m fa"
  "kf_wf (fa\<lparr>available_frame_count := c\<rparr>) = kf_wf fa"
  "kf_addr (fa\<lparr>available_frame_count := c\<rparr>) = kf_addr fa"
  "kf_run m (fa\<lparr>available_frame_count := c\<rparr>) = kf_run m fa"
  by (simp_all add: kf_abs_defs fun_eq_iff)

lemma kf_free_set_sub: "k \<in> kf_free_set m fa \<Longrightarrow> k < unat (frame_count fa)"
  by (simp add: kf_free_set_def)

lemma kf_run_free_set: "kf_run m fa n k \<Longrightarrow> {k..<k + n} \<subseteq> kf_free_set m fa"
proof
  fix j assume "kf_run m fa n k" "j \<in> {k..<k + n}"
  then show "j \<in> kf_free_set m fa"
    unfolding kf_run_def kf_free_set_def
    by (auto dest!: spec [of _ "j - k"])
qed

lemma kf_run_iff:
  "0 < n \<Longrightarrow> kf_run m fa n k \<longleftrightarrow> {k..<k + n} \<subseteq> kf_free_set m fa"
proof
  assume n: "0 < n" and s: "{k..<k + n} \<subseteq> kf_free_set m fa"
  from n have "k + n - 1 \<in> {k..<k + n}" by auto
  with s have "k + n - 1 < unat (frame_count fa)" by (blast dest: kf_free_set_sub)
  moreover have "kf_free_at m fa (k + j)" if "j < n" for j
    using s that by (auto simp: kf_free_set_def subset_iff)
  ultimately show "kf_run m fa n k" using n by (simp add: kf_run_def)
qed (rule kf_run_free_set)

text \<open>Marking a whole run.\<close>

lemma kf_mark_fold:
  assumes "kf_wf fa" "k + n \<le> unat (frame_count fa)"
  shows "fold (\<lambda>i (m, fa). (m(bitmap_frame fa + (of_nat k + of_nat i) := KFRAME_USED),
                 fa\<lparr>available_frame_count := available_frame_count fa - 1\<rparr>)) [0..<n] (m, fa) =
         (\<lambda>x. if unat (x - (bitmap_frame fa + of_nat k)) < n then KFRAME_USED else m x,
          fa\<lparr>available_frame_count := available_frame_count fa - of_nat n\<rparr>)"
  using assms(2)
proof (induction n)
  case 0
  then show ?case by simp
next
  case (Suc n)
  have n: "n < 18446744073709551616"
    using Suc.prems frame_count_bound [OF assms(1)] by simp
  have "(unat (x - (bitmap_frame fa + of_nat k)) < Suc n) =
        (unat (x - (bitmap_frame fa + of_nat k)) < n \<or> x = bitmap_frame fa + (of_nat k + of_nat n))"
    for x
    using fold_store_const [of "Suc n" "bitmap_frame fa + of_nat k" True "\<lambda>_. False"]
      fold_store_const [of n "bitmap_frame fa + of_nat k" True "\<lambda>_. False"] n
    by (auto simp: fun_eq_iff add.assoc split: if_splits)
  with Suc show ?case by (auto simp: fun_eq_iff algebra_simps)
qed

lemma kf_mark_free_set:
  assumes wf: "kf_wf fa" and k: "k + unat count \<le> unat (frame_count fa)"
    and mark: "kf_mark m fa (of_nat k) count = (m', fa')"
  shows "fa' = fa\<lparr>available_frame_count := available_frame_count fa - count\<rparr>"
    and "kf_free_set m' fa' = kf_free_set m fa - {k..<k + unat count}"
    and "\<And>x. unat (x - (bitmap_frame fa + of_nat k)) \<ge> unat count \<Longrightarrow> m' x = m x"
    and "\<And>x. m' x = m x \<or> m' x = KFRAME_USED"
    and "\<And>j. j < unat count \<Longrightarrow> m' (bitmap_frame fa + of_nat (k + j)) = KFRAME_USED"
proof -
  have m': "m' = (\<lambda>x. if unat (x - (bitmap_frame fa + of_nat k)) < unat count then KFRAME_USED else m x)"
    and fa': "fa' = fa\<lparr>available_frame_count := available_frame_count fa - count\<rparr>"
    using mark kf_mark_fold [OF wf k, of m]
    by (simp_all add: kf_mark_def for_loop_0_fold)
  show "fa' = fa\<lparr>available_frame_count := available_frame_count fa - count\<rparr>" by (fact fa')
  show "\<And>x. unat (x - (bitmap_frame fa + of_nat k)) \<ge> unat count \<Longrightarrow> m' x = m x"
    by (simp add: m')
  have idx: "unat (bitmap_frame fa + of_nat j - (bitmap_frame fa + of_nat k)) < unat count \<longleftrightarrow>
             k \<le> j \<and> j < k + unat count" if j: "j < unat (frame_count fa)" for j
  proof -
    have bj: "j < 18446744073709551616" "k < 18446744073709551616"
      using j k frame_count_bound [OF wf] by simp_all
    show ?thesis
    proof (cases "k \<le> j")
      case True
      have "(of_nat j - of_nat k :: u64) = of_nat (j - k)" using True by simp
      then have "unat (bitmap_frame fa + of_nat j - (bitmap_frame fa + of_nat k)) = j - k"
        using bj by (simp add: unat_of_nat_u64 del: of_nat_diff)
      then show ?thesis using True by auto
    next
      case False
      have "(of_nat j - of_nat k :: u64) = - of_nat (k - j)" using False by simp
      moreover have "unat (- of_nat (k - j) :: u64) = 18446744073709551616 - (k - j)"
        using False bj by (intro unat_minus_of_nat_u64) auto
      ultimately have "unat (bitmap_frame fa + of_nat j - (bitmap_frame fa + of_nat k)) =
                       18446744073709551616 - (k - j)"
        by (simp del: of_nat_diff)
      then show ?thesis using False k frame_count_bound [OF wf] by simp
    qed
  qed
  show "kf_free_set m' fa' = kf_free_set m fa - {k..<k + unat count}"
    using idx by (auto simp: fa' m' kf_free_set_def kf_free_at_def split: if_splits)
  show "\<And>x. m' x = m x \<or> m' x = KFRAME_USED"
    by (simp add: m')
  show "\<And>j. j < unat count \<Longrightarrow> m' (bitmap_frame fa + of_nat (k + j)) = KFRAME_USED"
    using k frame_count_bound [OF wf] by (simp add: m' unat_of_nat_u64)
qed

subsection \<open>The first-fit search\<close>

text \<open>
  The loop invariant of \<open>kframe_allocate_range\<close> at index \<open>i\<close>: \<open>l\<close> is the length of the
  maximal free run that ends just before \<open>i\<close>, \<open>target\<close> is its address (-1 for none), and no
  run of \<open>n\<close> frames lies entirely before \<open>i\<close>.
\<close>

definition kf_scan_inv :: "bytemem \<Rightarrow> kframe_alloc \<Rightarrow> nat \<Rightarrow> nat \<Rightarrow> u64 \<Rightarrow> nat \<Rightarrow> bool" where
  "kf_scan_inv m fa n i target l \<longleftrightarrow>
     i \<le> unat (frame_count fa) \<and> l \<le> i \<and> l < n \<and>
     (\<forall>j. i - l \<le> j \<longrightarrow> j < i \<longrightarrow> kf_free_at m fa j) \<and>
     (i = l \<or> \<not> kf_free_at m fa (i - l - 1)) \<and>
     target = (if l = 0 then -1 else kf_addr fa (i - l)) \<and>
     (\<forall>k. k + n \<le> i \<longrightarrow> \<not> kf_run m fa n k)"

lemma kf_scan_inv_start: "0 < n \<Longrightarrow> kf_scan_inv m fa n 0 (-1) 0"
  by (simp add: kf_scan_inv_def)

lemma kf_scan_inv_free:
  assumes inv: "kf_scan_inv m fa n i target l" and "i < unat (frame_count fa)"
    and wf: "kf_wf fa" and free: "kf_free_at m fa i" and l: "Suc l < n"
  shows "kf_scan_inv m fa n (Suc i) (if target = -1 then kf_addr fa i else target) (Suc l)"
proof -
  have t: "(if target = -1 then kf_addr fa i else target) = kf_addr fa (i - l)"
    using inv assms(2) kf_addr_neq_m1 [OF wf, of "i - l"] by (auto simp: kf_scan_inv_def)
  have "\<not> kf_run m fa n k" if "k + n \<le> Suc i" for k
  proof (cases "k + n \<le> i")
    case True
    then show ?thesis using inv by (simp add: kf_scan_inv_def)
  next
    case False
    with that have k: "k + n = Suc i" by simp
    with l have "i \<noteq> l" "k \<le> i - l - 1" "i - l - 1 < k + n" by auto
    with inv have "\<not> kf_free_at m fa (k + (i - l - 1 - k))" "i - l - 1 - k < n"
      by (auto simp: kf_scan_inv_def)
    then show ?thesis by (auto simp: kf_run_def)
  qed
  moreover have "kf_free_at m fa j" if "Suc i - Suc l \<le> j" "j < Suc i" for j
    using that inv free by (cases "j = i") (auto simp: kf_scan_inv_def)
  ultimately show ?thesis
    unfolding t using inv assms(2) l by (auto simp: kf_scan_inv_def)
qed

lemma kf_scan_inv_used:
  assumes inv: "kf_scan_inv m fa n i target l" and "i < unat (frame_count fa)"
    and used: "\<not> kf_free_at m fa i"
  shows "kf_scan_inv m fa n (Suc i) (-1) 0"
proof -
  have "\<not> kf_run m fa n k" if "k + n \<le> Suc i" for k
  proof (cases "k + n \<le> i")
    case True
    then show ?thesis using inv by (simp add: kf_scan_inv_def)
  next
    case False
    with that have "k + n = Suc i" by simp
    moreover have "0 < n" using inv by (simp add: kf_scan_inv_def)
    ultimately have "k + (i - k) = i" "i - k < n" by auto
    with used show ?thesis by (metis kf_run_def)
  qed
  then show ?thesis using inv used assms(2) by (auto simp: kf_scan_inv_def)
qed

text \<open>
  What the loop returns: the lowest run of \<open>count\<close> free frames, or, when there is none, the
  run of free frames at the end of the bitmap, which is too short.
\<close>

definition kf_first_run :: "bytemem \<Rightarrow> kframe_alloc \<Rightarrow> nat \<Rightarrow> nat \<Rightarrow> bool" where
  "kf_first_run m fa n k \<longleftrightarrow> kf_run m fa n k \<and> (\<forall>k' < k. \<not> kf_run m fa n k')"

lemma kf_range_loop_spec:
  assumes "kf_wf fa" "kf_scan_inv m fa (unat count) (unat i) target (unat l)"
    "kf_range_loop m fa count i target l = (t', l')"
  shows "(l' = count \<and> (\<exists>k. kf_first_run m fa (unat count) k \<and> t' = kf_addr fa k)) \<or>
         (kf_scan_inv m fa (unat count) (unat (frame_count fa)) t' (unat l'))"
  using assms
proof (induction m fa count i target l rule: kf_range_loop.induct)
  case (1 m fa count i target l)
  note inv = "1.prems"(2) and wf = "1.prems"(1) and ret = "1.prems"(3)
  show ?case
  proof (cases "i < frame_count fa")
    case False
    with inv have "unat i = unat (frame_count fa)"
      by (simp add: kf_scan_inv_def word_less_nat_alt)
    with inv ret False show ?thesis by (simp add: kf_range_loop.simps)
  next
    case lt: True
    then have i: "unat i < unat (frame_count fa)" "unat (i + 1) = Suc (unat i)"
      by (auto simp: word_less_nat_alt unat_Suc_less)
    have l: "unat l < unat count" using inv by (simp add: kf_scan_inv_def)
    then have l1: "unat (l + 1) = Suc (unat l)" by (simp add: unat_Suc_less word_less_nat_alt)
    let ?t = "if target = -1 then i * KFRAME_SIZE + frame_start fa else target"
    have addr: "i * KFRAME_SIZE + frame_start fa = kf_addr fa (unat i)"
      by (simp add: kf_addr_def)
    show ?thesis
    proof (cases "m (bitmap_frame fa + i) = KFRAME_FREE")
      case False
      then have "kf_scan_inv m fa (unat count) (unat (i + 1)) (-1) (unat (0::u64))"
        using kf_scan_inv_used [OF inv i(1)] i(2) by (simp add: kf_free_at_def)
      moreover have "count \<noteq> 0" using l by auto
      ultimately show ?thesis
        using "1.IH" [OF lt refl] False ret wf lt by (simp add: kf_range_loop.simps [of _ _ _ i])
    next
      case free: True
      then have fr: "kf_free_at m fa (unat i)" by (simp add: kf_free_at_def)
      show ?thesis
      proof (cases "l + 1 = count")
        case True
        let ?k = "unat i - unat l"
        have n: "unat count = Suc (unat l)" using True l1 by auto
        have t: "?t = kf_addr fa ?k"
          using inv kf_addr_neq_m1 [OF wf, of ?k] i(1) addr by (auto simp: kf_scan_inv_def)
        have "kf_free_at m fa (?k + j)" if "j < unat count" for j
        proof (cases "?k + j = unat i")
          case False
          with that inv n show ?thesis by (auto simp: kf_scan_inv_def)
        qed (use fr in simp)
        moreover have "?k + unat count \<le> unat (frame_count fa)"
          using inv i(1) n by (auto simp: kf_scan_inv_def)
        moreover have "\<not> kf_run m fa (unat count) k'" if "k' < ?k" for k'
          using inv that n by (auto simp: kf_scan_inv_def)
        ultimately have "kf_first_run m fa (unat count) ?k"
          by (simp add: kf_first_run_def kf_run_def)
        with ret lt free True t show ?thesis
          by (auto simp: kf_range_loop.simps [of _ _ _ i])
      next
        case False
        with l l1 have "Suc (unat l) < unat count"
          by (metis Suc_leI order_le_imp_less_or_eq word_unat_eq_iff)
        then have "kf_scan_inv m fa (unat count) (unat (i + 1)) ?t (unat (l + 1))"
          using kf_scan_inv_free [OF inv i(1) wf fr] by (simp only: i(2) l1 addr)
        then show ?thesis
          using "1.IH" [OF lt refl] False free ret wf lt
          by (simp add: kf_range_loop.simps [of _ _ _ i])
      qed
    qed
  qed
qed

subsection \<open>The operations on the abstract view\<close>

lemma card_free_set_le: "kf_run m fa n k \<Longrightarrow> n \<le> card (kf_free_set m fa)"
  using card_mono [OF finite_kf_free_set kf_run_free_set] by fastforce

lemma kf_inv_mark:
  assumes inv: "kf_inv m fa" and run: "kf_run m fa (unat count) k"
    and mark: "kf_mark m fa (of_nat k) count = (m', fa')"
  shows "kf_inv m' fa'" "kf_free_set m' fa' = kf_free_set m fa - {k..<k + unat count}"
    "fa' = fa\<lparr>available_frame_count := available_frame_count fa - count\<rparr>"
proof -
  have wf: "kf_wf fa" and k: "k + unat count \<le> unat (frame_count fa)"
    using inv run by (auto simp: kf_inv_def kf_run_def)
  note M = kf_mark_free_set [OF wf k mark]
  show fa': "fa' = fa\<lparr>available_frame_count := available_frame_count fa - count\<rparr>" by (fact M(1))
  show fs: "kf_free_set m' fa' = kf_free_set m fa - {k..<k + unat count}" by (fact M(2))
  have av: "unat (available_frame_count fa) = card (kf_free_set m fa)"
    using inv by (simp add: kf_inv_def)
  then have "count \<le> available_frame_count fa"
    using card_free_set_le [OF run] by (simp add: word_le_nat_alt)
  then have "unat (available_frame_count fa') = card (kf_free_set m fa) - unat count"
    by (simp add: fa' av unat_sub_le)
  also have "\<dots> = card (kf_free_set m' fa')"
    using kf_run_free_set [OF run] by (simp add: fs card_Diff_subset)
  finally show "kf_inv m' fa'"
    using inv M(4) by (auto simp: kf_inv_def fa') (metis M(4))
qed

text \<open>A successful \<open>kframe_allocate_range\<close>, and one that finds no run.\<close>

lemma kf_range_found:
  assumes inv: "kf_inv m fa" and n: "0 < count" and run: "kf_run m fa (unat count) k0"
  obtains k m' fa' where "kframe_allocate_range m fa count = (kf_addr fa k, m', fa')"
    "kf_first_run m fa (unat count) k" "kf_inv m' fa'"
    "kf_free_set m' fa' = kf_free_set m fa - {k..<k + unat count}"
    "fa' = fa\<lparr>available_frame_count := available_frame_count fa - count\<rparr>"
    "kf_mark m fa (of_nat k) count = (m', fa')"
proof -
  have wf: "kf_wf fa" using inv by (simp add: kf_inv_def)
  have n': "0 < unat count" using n by (simp add: word_less_nat_alt)
  obtain t l where tl: "kf_range_loop m fa count 0 (-1) 0 = (t, l)" by force
  have "\<not> kf_scan_inv m fa (unat count) (unat (frame_count fa)) t (unat l)"
    using run by (auto simp: kf_scan_inv_def kf_run_def)
  then obtain k where l: "l = count" and first: "kf_first_run m fa (unat count) k"
    and t: "t = kf_addr fa k"
    using kf_range_loop_spec [OF wf _ tl] kf_scan_inv_start [OF n'] by auto
  then have run': "kf_run m fa (unat count) k" by (simp add: kf_first_run_def)
  have k: "k \<le> unat (frame_count fa)" using run' by (simp add: kf_run_def)
  have "\<not> count > available_frame_count fa"
    using inv card_free_set_le [OF run'] by (simp add: kf_inv_def word_less_nat_alt)
  moreover obtain m' fa' where mark: "kf_mark m fa (of_nat k) count = (m', fa')" by force
  ultimately have "kframe_allocate_range m fa count = (kf_addr fa k, m', fa')"
    using tl l t by (simp add: kframe_allocate_range_def kf_addr_index [OF wf k])
  then show thesis using that first kf_inv_mark [OF inv run' mark] mark by blast
qed

lemma kf_range_not_found:
  assumes inv: "kf_inv m fa" and n: "0 < count" and no: "\<And>k. \<not> kf_run m fa (unat count) k"
  obtains r where "kframe_allocate_range m fa count = (r, m, fa)"
    "r = -1 \<longleftrightarrow> count > available_frame_count fa \<or> unat (frame_count fa) - 1 \<notin> kf_free_set m fa"
    "r \<noteq> -1 \<Longrightarrow> \<exists>k \<in> kf_free_set m fa. r = kf_addr fa k"
proof -
  have wf: "kf_wf fa" using inv by (simp add: kf_inv_def)
  have n': "0 < unat count" using n by (simp add: word_less_nat_alt)
  obtain t l where tl: "kf_range_loop m fa count 0 (-1) 0 = (t, l)" by force
  then have S: "kf_scan_inv m fa (unat count) (unat (frame_count fa)) t (unat l)"
    using kf_range_loop_spec [OF wf _ tl] kf_scan_inv_start [OF n'] no
    by (auto simp: kf_first_run_def)
  then have "l \<noteq> count" by (auto simp: kf_scan_inv_def)
  show thesis
  proof (cases "count > available_frame_count fa")
    case True
    then show thesis using that [of "-1"] by (simp add: kframe_allocate_range_def)
  next
    case False
    with tl \<open>l \<noteq> count\<close> have R: "kframe_allocate_range m fa count = (t, m, fa)"
      by (simp add: kframe_allocate_range_def)
    show thesis
    proof (cases "l = 0")
      case True
      then have "t = -1" "unat (frame_count fa) - 1 \<notin> kf_free_set m fa"
        using S by (auto simp: kf_scan_inv_def kf_free_set_def)
      with R show thesis by (intro that [of "-1"]) auto
    next
      case l0: False
      then have "0 < unat l" by (metis neq0_conv unat_0 word_unat_eq_iff)
      with S have k: "unat (frame_count fa) - unat l \<in> kf_free_set m fa"
        "unat (frame_count fa) - 1 \<in> kf_free_set m fa"
        "t = kf_addr fa (unat (frame_count fa) - unat l)"
        using l0 by (auto simp: kf_scan_inv_def kf_free_set_def)
      then have "t \<noteq> -1" using kf_addr_neq_m1 [OF wf kf_free_set_sub [OF k(1)]] by simp
      moreover have "\<exists>k \<in> kf_free_set m fa. t = kf_addr fa k" using k by blast
      ultimately show thesis using R k(2) False that [of t] by simp
    qed
  qed
qed

text \<open>One frame: a run of length one exists as soon as a frame is free.\<close>

lemma kf_run_1: "kf_run m fa 1 k \<longleftrightarrow> k \<in> kf_free_set m fa"
  using kf_run_iff [of 1 m fa k] by simp

lemma kf_free_inv:
  assumes inv: "kf_inv m fa" and k: "k < unat (frame_count fa)" "k \<notin> kf_free_set m fa"
  shows "kframe_free m fa (kf_addr fa k) =
           (m(bitmap_frame fa + of_nat k := KFRAME_FREE),
            fa\<lparr>available_frame_count := available_frame_count fa + 1\<rparr>)"
    and "kf_inv (m(bitmap_frame fa + of_nat k := KFRAME_FREE))
                (fa\<lparr>available_frame_count := available_frame_count fa + 1\<rparr>)"
    and "kf_free_set (m(bitmap_frame fa + of_nat k := KFRAME_FREE))
           (fa\<lparr>available_frame_count := available_frame_count fa + 1\<rparr>) =
         insert k (kf_free_set m fa)"
proof -
  have wf: "kf_wf fa" using inv by (simp add: kf_inv_def)
  have a: "unat (kf_addr fa k) = unat (frame_start fa) + k * 4096"
    using unat_kf_addr [OF wf] k by simp
  have e: "unat (kf_addr fa (unat (frame_count fa))) = unat (frame_start fa) + unat (frame_count fa) * 4096"
    using unat_kf_addr [OF wf order_refl] .
  have e': "kf_addr fa (unat (frame_count fa)) = frame_start fa + frame_count fa * KFRAME_SIZE"
    by (simp add: kf_addr_def)
  show "kframe_free m fa (kf_addr fa k) =
           (m(bitmap_frame fa + of_nat k := KFRAME_FREE),
            fa\<lparr>available_frame_count := available_frame_count fa + 1\<rparr>)"
    using a e k kf_addr_index [OF wf, of k]
    by (simp add: kframe_free_def Let_def word_less_nat_alt flip: e')
  show fs: "kf_free_set (m(bitmap_frame fa + of_nat k := KFRAME_FREE))
           (fa\<lparr>available_frame_count := available_frame_count fa + 1\<rparr>) =
         insert k (kf_free_set m fa)"
    using kf_free_set_upd [OF wf k(1), of m KFRAME_FREE] by simp
  have "card (kf_free_set m fa) \<le> card {..<unat (frame_count fa)}"
    by (rule card_mono) (auto simp: kf_free_set_def)
  then have "unat (available_frame_count fa + 1) = Suc (card (kf_free_set m fa))"
    using inv frame_count_bound [OF wf] by (simp add: kf_inv_def unat_add_nowrap)
  then show "kf_inv (m(bitmap_frame fa + of_nat k := KFRAME_FREE))
                (fa\<lparr>available_frame_count := available_frame_count fa + 1\<rparr>)"
    using inv fs k(2) by (auto simp: kf_inv_def)
qed

subsection \<open>The allocator is a source of frames\<close>

definition kf_alloc1 :: "bytemem \<times> kframe_alloc \<Rightarrow> u64 \<times> bytemem \<times> kframe_alloc" where
  "kf_alloc1 s = kframe_allocate_range (fst s) (snd s) 1"

definition kf_release1 :: "u64 \<Rightarrow> bytemem \<times> kframe_alloc \<Rightarrow> bytemem \<times> kframe_alloc" where
  "kf_release1 r s = kframe_free (fst s) (snd s) r"

definition kf_avail :: "bytemem \<times> kframe_alloc \<Rightarrow> u64 set" where
  "kf_avail s = kf_addr (snd s) ` kf_free_set (fst s) (snd s)"

definition kf_managed :: "bytemem \<times> kframe_alloc \<Rightarrow> u64 set" where
  "kf_managed s = kf_addr (snd s) ` {..<unat (frame_count (snd s))}"

lemma kf_addr_inj: "kf_wf fa \<Longrightarrow> inj_on (kf_addr fa) {..unat (frame_count fa)}"
  by (rule inj_onI) (metis add_left_cancel atMost_iff mult_cancel2 numeral_eq_iff unat_kf_addr
      zero_neq_numeral)

lemma kf_addr_image_diff:
  "kf_wf fa \<Longrightarrow> kf_addr fa ` (kf_free_set m fa - {k..<k + n}) =
     kf_addr fa ` kf_free_set m fa - kf_addr fa ` (kf_free_set m fa \<inter> {k..<k + n})"
  by (subst inj_on_image_set_diff [OF kf_addr_inj, symmetric])
    (auto simp: kf_free_set_def)

interpretation kf: frame_source kf_alloc1 kf_release1 "\<lambda>s. kf_inv (fst s) (snd s)" kf_avail kf_managed
proof
  fix s :: "bytemem \<times> kframe_alloc" and r s'
  assume inv: "kf_inv (fst s) (snd s)"
  then have wf: "kf_wf (snd s)" by (simp add: kf_inv_def)
  show "finite (kf_avail s)" by (simp add: kf_avail_def)
  show "kf_avail s \<subseteq> kf_managed s"
    by (auto simp: kf_avail_def kf_managed_def kf_free_set_def)
  show "-1 \<notin> kf_managed s"
    using kf_addr_neq_m1 [OF wf] by (force simp: kf_managed_def)
  show "kf_alloc1 s = (-1, s)" if "kf_avail s = {}"
  proof -
    have no: "kf_free_set (fst s) (snd s) = {}" using that by (simp add: kf_avail_def)
    have "\<not> kf_run (fst s) (snd s) (unat (1::u64)) k" for k
      using no kf_run_1 [of "fst s" "snd s" k] by simp
    moreover have "(0::u64) < 1" by simp
    ultimately obtain r where "kframe_allocate_range (fst s) (snd s) 1 = (r, fst s, snd s)"
      "r \<noteq> -1 \<Longrightarrow> \<exists>k \<in> kf_free_set (fst s) (snd s). r = kf_addr (snd s) k"
      using kf_range_not_found [OF inv, of 1] by metis
    with no show ?thesis by (auto simp: kf_alloc1_def)
  qed
  show "r \<in> kf_avail s \<and> kf_inv (fst s') (snd s') \<and> kf_avail s' = kf_avail s - {r} \<and>
        kf_managed s' = kf_managed s"
    if ne: "kf_avail s \<noteq> {}" and alloc: "kf_alloc1 s = (r, s')"
  proof -
    from ne obtain k0 where "kf_run (fst s) (snd s) (unat (1::u64)) k0"
      using kf_run_1 [of "fst s" "snd s"] by (auto simp: kf_avail_def)
    moreover have "(0::u64) < 1" by simp
    ultimately obtain k m' fa' where R: "kframe_allocate_range (fst s) (snd s) 1 = (kf_addr (snd s) k, m', fa')"
      and first: "kf_first_run (fst s) (snd s) (unat (1::u64)) k" and inv': "kf_inv m' fa'"
      and fs: "kf_free_set m' fa' = kf_free_set (fst s) (snd s) - {k..<k + unat (1::u64)}"
      and fa': "fa' = (snd s)\<lparr>available_frame_count := available_frame_count (snd s) - 1\<rparr>"
      using kf_range_found [OF inv, of 1] by metis
    have k: "k \<in> kf_free_set (fst s) (snd s)"
      using first kf_run_1 [of "fst s" "snd s" k] by (simp add: kf_first_run_def)
    have rs: "r = kf_addr (snd s) k" "s' = (m', fa')" using R alloc by (auto simp: kf_alloc1_def)
    have "kf_free_set (fst s) (snd s) \<inter> {k..<k + 1} = {k}" using k by auto
    then have "kf_avail s' = kf_avail s - {r}"
      using kf_addr_image_diff [OF wf, of "fst s" k 1] fs by (simp add: kf_avail_def rs fa')
    then show ?thesis
      using k inv' by (simp add: rs kf_avail_def kf_managed_def fa')
  qed
  show "kf_inv (fst (kf_release1 r s)) (snd (kf_release1 r s)) \<and>
        kf_avail (kf_release1 r s) = insert r (kf_avail s) \<and>
        kf_managed (kf_release1 r s) = kf_managed s"
    if "r \<in> kf_managed s - kf_avail s"
  proof -
    from that obtain k where k: "k < unat (frame_count (snd s))" "k \<notin> kf_free_set (fst s) (snd s)"
      "r = kf_addr (snd s) k" by (auto simp: kf_managed_def kf_avail_def)
    note F = kf_free_inv [OF inv k(1,2)]
    have "kf_avail (kf_release1 r s) = insert r (kf_avail s)"
      using F(3) by (simp add: kf_avail_def kf_release1_def k(3) F(1))
    then show ?thesis
      using F(2) by (simp add: kf_release1_def k(3) F(1) kf_managed_def)
  qed
qed

lemma kf_range1_cases:
  assumes inv: "kf_inv m fa"
  obtains (found) k m' where "kframe_allocate_range m fa 1 =
      (kf_addr fa k, m', fa\<lparr>available_frame_count := available_frame_count fa - 1\<rparr>)"
    "k \<in> kf_free_set m fa" "\<And>j. j < k \<Longrightarrow> j \<notin> kf_free_set m fa"
    "kf_inv m' (fa\<lparr>available_frame_count := available_frame_count fa - 1\<rparr>)"
    "kf_free_set m' fa = kf_free_set m fa - {k}"
    "m' = m(bitmap_frame fa + of_nat k := KFRAME_USED)"
  | (none) "kframe_allocate_range m fa 1 = (-1, m, fa)" "kf_free_set m fa = {}"
proof (cases "kf_free_set m fa = {}")
  case True
  have "kframe_allocate_range m fa 1 = (-1, m, fa)"
    using kf.alloc_none [of "(m, fa)"] inv True by (simp add: kf_alloc1_def kf_avail_def)
  with True none show thesis by blast
next
  case False
  then obtain k0 where "kf_run m fa (unat (1::u64)) k0" using kf_run_1 by auto
  moreover have "(0::u64) < 1" by simp
  ultimately obtain k m' fa' where R: "kframe_allocate_range m fa 1 = (kf_addr fa k, m', fa')"
    and first: "kf_first_run m fa (unat (1::u64)) k" and inv': "kf_inv m' fa'"
    and fs: "kf_free_set m' fa' = kf_free_set m fa - {k..<k + unat (1::u64)}"
    and fa': "fa' = fa\<lparr>available_frame_count := available_frame_count fa - 1\<rparr>"
    and mark: "kf_mark m fa (of_nat k) 1 = (m', fa')"
    using kf_range_found [OF inv, of 1] by metis
  have "m' = m(bitmap_frame fa + of_nat k := KFRAME_USED)"
    using mark by (auto simp: kf_mark_def for_loop_0_fold)
  moreover  have "k \<in> kf_free_set m fa" "\<And>j. j < k \<Longrightarrow> j \<notin> kf_free_set m fa"
    using first kf_run_1 [of m fa] by (auto simp: kf_first_run_def)
  ultimately show thesis using R inv' fs fa' found [of k m'] by (simp add: atLeastLessThanSuc)
qed

subsection \<open>Fixed ranges\<close>

lemma kf_any_used_iff:
  "kf_any_used m fa index count i \<longleftrightarrow>
   (\<exists>j. unat i \<le> j \<and> j < unat count \<and> m (bitmap_frame fa + (index + of_nat j)) = KFRAME_USED)"
proof (induction m fa index count i rule: kf_any_used.induct)
  case (1 m fa index count i)
  show ?case
  proof (cases "i < count")
    case True
    have "(\<exists>j\<ge>unat i. j < unat count \<and> P j) \<longleftrightarrow>
          P (unat i) \<or> (\<exists>j\<ge>Suc (unat i). j < unat count \<and> P j)" for P
      using True by (metis Suc_leD Suc_leI le_neq_implies_less order_refl word_less_nat_alt)
    with True 1 show ?thesis
      by (simp add: kf_any_used.simps [of m fa index count i] unat_Suc_less [OF True])
  next
    case False
    then show ?thesis
      by (auto simp: kf_any_used.simps [of m fa index count i] word_less_nat_alt)
  qed
qed

lemma kf_any_used_run:
  assumes "kf_inv m fa" "k + unat count \<le> unat (frame_count fa)"
  shows "kf_any_used m fa (of_nat k) count 0 \<longleftrightarrow> \<not> kf_run m fa (unat count) k"
proof -
  have "m (bitmap_frame fa + (of_nat k + of_nat j)) = KFRAME_USED \<longleftrightarrow> \<not> kf_free_at m fa (k + j)"
    if "j < unat count" for j
    using assms that unfolding kf_inv_def kf_free_at_def
    by (metis KFRAME_FREE_USED(1) add_less_cancel_left of_nat_add order_less_le_trans)
  then show ?thesis using assms(2) by (auto simp: kf_any_used_iff kf_run_def)
qed

lemma kf_fixed_cases:
  assumes inv: "kf_inv m fa" and k: "k + unat count \<le> unat (frame_count fa)"
  shows "kf_run m fa (unat count) k \<Longrightarrow>
           \<exists>m'. kframe_allocate_fixed m fa (kf_addr fa k) count =
                 (kf_addr fa k, m', fa\<lparr>available_frame_count := available_frame_count fa - count\<rparr>) \<and>
                kf_inv m' (fa\<lparr>available_frame_count := available_frame_count fa - count\<rparr>) \<and>
                kf_free_set m' fa = kf_free_set m fa - {k..<k + unat count}"
    and "\<not> kf_run m fa (unat count) k \<Longrightarrow>
           kframe_allocate_fixed m fa (kf_addr fa k) count = (-1, m, fa)"
proof -
  have wf: "kf_wf fa" using inv by (simp add: kf_inv_def)
  have kle: "k \<le> unat (frame_count fa)" using k by simp
  have e: "kf_addr fa (unat (frame_count fa)) = frame_start fa + frame_count fa * KFRAME_SIZE"
    by (simp add: kf_addr_def)
  have c: "kf_addr fa (k + unat count) = kf_addr fa k + count * KFRAME_SIZE"
    by (simp add: kf_addr_def algebra_simps)
  have g1: "\<not> kf_addr fa k < frame_start fa"
    using unat_kf_addr [OF wf kle] by (simp add: word_less_nat_alt)
  have g2: "\<not> frame_start fa + frame_count fa * KFRAME_SIZE < kf_addr fa k + count * KFRAME_SIZE"
    using unat_kf_addr [OF wf order_refl] unat_kf_addr [OF wf k] k
    unfolding e [symmetric] c [symmetric] by (simp add: word_less_nat_alt)
  obtain m' fa' where mark: "kf_mark m fa (of_nat k) count = (m', fa')" by force
  have R: "kframe_allocate_fixed m fa (kf_addr fa k) count =
        (if kf_any_used m fa (of_nat k) count 0 then (-1, m, fa) else (kf_addr fa k, m', fa'))"
    using g1 g2 mark by (simp add: kframe_allocate_fixed_def Let_def kf_addr_index [OF wf kle])
  show "kf_run m fa (unat count) k \<Longrightarrow>
           \<exists>m'. kframe_allocate_fixed m fa (kf_addr fa k) count =
                 (kf_addr fa k, m', fa\<lparr>available_frame_count := available_frame_count fa - count\<rparr>) \<and>
                kf_inv m' (fa\<lparr>available_frame_count := available_frame_count fa - count\<rparr>) \<and>
                kf_free_set m' fa = kf_free_set m fa - {k..<k + unat count}"
    using R kf_inv_mark [OF inv _ mark] kf_any_used_run [OF inv k] by auto
  show "\<not> kf_run m fa (unat count) k \<Longrightarrow>
        kframe_allocate_fixed m fa (kf_addr fa k) count = (-1, m, fa)"
    using R kf_any_used_run [OF inv k] by simp
qed

end
