(* ===== verification/Frame_Safety.thy ===== *)
theory Frame_Safety
  imports Frames
begin

text \<open>
  Properties of the frame allocator: initialisation, first fit, what a failed range request
  returns, equivalence of the single-frame search with a range of one, round trips, and the
  sessions of a client that allocates and frees, in which no frame is handed out twice.
\<close>

subsection \<open>Initialisation\<close>

lemma kf_init_result:
  assumes "kframe_allocator_init m fa bitmap bs start sz = (1, m', fa')"
  shows "sz \<noteq> 0" "frame_count fa' = sz div KFRAME_SIZE" "frame_start fa' = start"
    "bitmap_frame fa' = bitmap" "bitmap_count fa' = bs"
    "available_frame_count fa' = sz div KFRAME_SIZE"
    "m' = (\<lambda>x. if unat (x - bitmap) < unat bs then KFRAME_FREE else m x)"
  using assms fold_store_const [of "unat bs" bitmap KFRAME_FREE m] unat_less_2p64 [of bs]
  by (auto simp: kframe_allocator_init_def Let_def for_loop_0_fold PAGE_SIZE_4KB_def
      KFRAME_SIZE_def split: if_splits)

lemma kf_init_all_free_aux:
  assumes "sz \<noteq> 0" and "unat start + unat sz < 18446744073709551616"
    and "sz div KFRAME_SIZE \<le> bs"
  shows "kframe_allocator_init m fa bitmap bs start 0 = (0, m, fa) \<and>
         (\<exists>m' fa'. kframe_allocator_init m fa bitmap bs start sz = (1, m', fa') \<and> kf_inv m' fa' \<and>
            kf_free_set m' fa' = {..<unat sz div 4096})"
proof -
  have zero: "kframe_allocator_init m fa bitmap bs start 0 = (0, m, fa)"
    by (simp add: kframe_allocator_init_def)
  obtain r m' fa' where i: "kframe_allocator_init m fa bitmap bs start sz = (r, m', fa')"
    by (metis prod_cases3)
  then have "r = 1" using assms(1) by (auto simp: kframe_allocator_init_def Let_def)
  note R = kf_init_result [OF i [unfolded this]]
  have fc: "unat (frame_count fa') = unat sz div 4096"
    by (simp add: R(2) unat_div)
  have bs: "unat sz div 4096 \<le> unat bs"
    using assms(3) by (simp add: word_le_nat_alt unat_div)
  have free: "m' (bitmap_frame fa' + of_nat k) = KFRAME_FREE" if "k < unat sz div 4096" for k
  proof -
    have "unat (of_nat k :: u64) = k"
      using that unat_less_2p64 [of sz] by (intro unat_of_nat_u64) linarith
    then show ?thesis using that bs by (simp add: R(4,7))
  qed
  then have fs: "kf_free_set m' fa' = {..<unat sz div 4096}"
    by (auto simp: kf_free_set_def kf_free_at_def fc)
  have "kf_wf fa'"
    using assms(2) div_times_less_eq_dividend [of "unat sz" 4096]
    unfolding kf_wf_def fc R(3) by linarith
  then have "kf_inv m' fa'"
    using free fs by (simp add: kf_inv_def fc) (simp add: R(6) unat_div)
  with i \<open>r = 1\<close> fs zero show ?thesis by blast
qed

text \<open>C31. \<open>kframe_allocator_init\<close> on a region that does not wrap, with at least one bitmap byte
  per frame, succeeds and leaves every frame of the region free, with an exact counter; a
  region of size 0 is refused and nothing changes.\<close>

theorem kframe_init_all_free:
  assumes "sz \<noteq> 0" and "unat start + unat sz < 18446744073709551616"
    and "sz div KFRAME_SIZE \<le> bs"
  shows "kframe_allocator_init m fa bitmap bs start 0 = (0, m, fa) \<and>
         (\<exists>m' fa'. kframe_allocator_init m fa bitmap bs start sz = (1, m', fa') \<and> kf_inv m' fa' \<and>
            kf_free_set m' fa' = {..<unat sz div 4096})"
  by (rule kf_init_all_free_aux [OF assms])

text \<open>A small allocator for the witnesses: three frames from 0x1000 on, the middle one used.\<close>

definition ex_fa :: kframe_alloc where
  "ex_fa = \<lparr>frame_count = 3, frame_start = 0x1000, bitmap_frame = 0, bitmap_count = 3,
            frame_lock = 0, available_frame_count = 2\<rparr>"

definition ex_bits :: bytemem where
  "ex_bits = (\<lambda>_. 0)(1 := 0xFF)"

lemma less_3_cases: "(k::nat) < 3 \<longleftrightarrow> k = 0 \<or> k = 1 \<or> k = 2"
  by auto

lemma ex_free_set: "kf_free_set ex_bits ex_fa = {0, 2}"
  by (auto simp: kf_free_set_def kf_free_at_def ex_fa_def ex_bits_def KFRAME_FREE_def less_3_cases)

lemma ex_inv: "kf_inv ex_bits ex_fa"
  unfolding kf_inv_def ex_free_set
  by (auto simp: kf_wf_def ex_fa_def ex_bits_def KFRAME_FREE_def KFRAME_USED_def less_3_cases)

lemma ex_run_1: "kf_run ex_bits ex_fa (unat (1::u64)) 0"
  using kf_run_1 [of ex_bits ex_fa 0] ex_free_set by simp

lemma ex_no_run_2: "\<not> kf_run ex_bits ex_fa (unat (2::u64)) k"
proof
  assume "kf_run ex_bits ex_fa (unat (2::u64)) k"
  then have "{k..<k + 2} \<subseteq> {0, 2}" using kf_run_free_set [of ex_bits ex_fa 2 k] ex_free_set by simp
  moreover have "k \<in> {k..<k + 2}" "k + 1 \<in> {k..<k + 2}" by auto
  ultimately have "k \<in> {0, 2}" "k + 1 \<in> {0, 2}" by blast+
  then show False by auto
qed

theorem kframe_init_all_free_witness:
  "kframe_allocator_init ex_bits ex_fa 0 4 0x1000 0 = (0, ex_bits, ex_fa) \<and>
   (\<exists>m' fa'. kframe_allocator_init ex_bits ex_fa 0 4 0x1000 0x3800 = (1, m', fa') \<and> kf_inv m' fa' \<and>
      kf_free_set m' fa' = {..<unat (0x3800::u64) div 4096})"
  by (rule kframe_init_all_free) (simp_all add: KFRAME_SIZE_def)

subsection \<open>Ranges\<close>

text \<open>C15. When a run of \<open>count\<close> free frames exists, \<open>kframe_allocate_range\<close> returns the address of
  the lowest one, takes exactly these frames out of the free set, lowers the counter by
  \<open>count\<close>, and keeps the allocator's invariant.\<close>

theorem kframe_range_first_fit:
  assumes "kf_inv m fa" and "0 < count" and "kf_run m fa (unat count) k0"
  shows "\<exists>k m' fa'. kframe_allocate_range m fa count = (kf_addr fa k, m', fa') \<and>
           kf_run m fa (unat count) k \<and> (\<forall>k' < k. \<not> kf_run m fa (unat count) k') \<and>
           kf_inv m' fa' \<and> kf_free_set m' fa' = kf_free_set m fa - {k..<k + unat count} \<and>
           available_frame_count fa' = available_frame_count fa - count"
  by (rule kf_range_found [OF assms]) (force simp: kf_first_run_def)

theorem kframe_range_first_fit_witness:
  "\<exists>k m' fa'. kframe_allocate_range ex_bits ex_fa 1 = (kf_addr ex_fa k, m', fa') \<and>
     kf_run ex_bits ex_fa (unat (1::u64)) k \<and>
     (\<forall>k' < k. \<not> kf_run ex_bits ex_fa (unat (1::u64)) k') \<and> kf_inv m' fa' \<and>
     kf_free_set m' fa' = kf_free_set ex_bits ex_fa - {k..<k + unat (1::u64)} \<and>
     available_frame_count fa' = available_frame_count ex_fa - 1"
  by (rule kframe_range_first_fit [OF ex_inv _ ex_run_1]) simp

text \<open>When no run of \<open>count\<close> frames exists but the last frame is free and enough frames are
  free in total, \<open>kframe_allocate_range\<close> does not fail: it returns the address of a free frame,
  reserves nothing, and a second identical call returns the same address again.\<close>

lemma kframe_range_unreserved:
  assumes "kf_inv m fa" and "0 < count" and "count \<le> available_frame_count fa"
    and "\<forall>k. \<not> kf_run m fa (unat count) k"
    and "unat (frame_count fa) - 1 \<in> kf_free_set m fa"
  shows "\<exists>k \<in> kf_free_set m fa. kframe_allocate_range m fa count = (kf_addr fa k, m, fa) \<and>
           kf_addr fa k \<noteq> -1"
proof -
  obtain r where "kframe_allocate_range m fa count = (r, m, fa)"
    "r = -1 \<longleftrightarrow> count > available_frame_count fa \<or> unat (frame_count fa) - 1 \<notin> kf_free_set m fa"
    "r \<noteq> -1 \<Longrightarrow> \<exists>k \<in> kf_free_set m fa. r = kf_addr fa k"
    using kf_range_not_found [OF assms(1,2)] assms(4) by metis
  with assms(3,5) show ?thesis by auto
qed

lemma kframe_range_unreserved_witness:
  "\<exists>k \<in> kf_free_set ex_bits ex_fa.
     kframe_allocate_range ex_bits ex_fa 2 = (kf_addr ex_fa k, ex_bits, ex_fa) \<and> kf_addr ex_fa k \<noteq> -1"
proof (rule kframe_range_unreserved [OF ex_inv])
  show "\<forall>k. \<not> kf_run ex_bits ex_fa (unat (2::u64)) k" using ex_no_run_2 by blast
  show "unat (frame_count ex_fa) - 1 \<in> kf_free_set ex_bits ex_fa"
    by (simp add: ex_free_set) (simp add: ex_fa_def)
qed (simp_all add: ex_fa_def)

text \<open>C18. \<open>kframe_allocate_fixed\<close> at a frame boundary inside the region succeeds exactly when every
  requested frame is free; then it reserves exactly these frames and keeps the invariant, and
  otherwise it returns -1 and changes nothing.\<close>

theorem kframe_fixed_all_or_nothing:
  assumes "kf_inv m fa" and "k + unat count \<le> unat (frame_count fa)"
  shows "\<exists>m' fa'. kframe_allocate_fixed m fa (kf_addr fa k) count =
             (if kf_run m fa (unat count) k then kf_addr fa k else -1, m', fa') \<and> kf_inv m' fa' \<and>
           kf_free_set m' fa' = (if kf_run m fa (unat count) k
             then kf_free_set m fa - {k..<k + unat count} else kf_free_set m fa) \<and>
           (\<not> kf_run m fa (unat count) k \<longrightarrow> m' = m \<and> fa' = fa)"
  using kf_fixed_cases [OF assms] assms(1)
  by (cases "kf_run m fa (unat count) k") fastforce+

theorem kframe_fixed_all_or_nothing_witness:
  "\<exists>m' fa'. kframe_allocate_fixed ex_bits ex_fa (kf_addr ex_fa 1) 2 =
       (if kf_run ex_bits ex_fa (unat (2::u64)) 1 then kf_addr ex_fa 1 else -1, m', fa') \<and> kf_inv m' fa' \<and>
     kf_free_set m' fa' = (if kf_run ex_bits ex_fa (unat (2::u64)) 1
       then kf_free_set ex_bits ex_fa - {1..<1 + unat (2::u64)} else kf_free_set ex_bits ex_fa) \<and>
     (\<not> kf_run ex_bits ex_fa (unat (2::u64)) 1 \<longrightarrow> m' = ex_bits \<and> fa' = ex_fa)"
  by (rule kframe_fixed_all_or_nothing [OF ex_inv]) (simp add: ex_fa_def)

subsection \<open>Single frames\<close>

lemma kf_loop_single:
  assumes wf: "kf_wf fa"
  shows "kf_range_loop m fa 1 i (-1) 0 =
     (case kf_single_loop m fa i of Some s \<Rightarrow> (frame_start fa + s * KFRAME_SIZE, 1) | None \<Rightarrow> (-1, 0))"
  using wf
proof (induction m fa i rule: kf_single_loop.induct)
  case (1 m fa i)
  then show ?case
    by (cases "i < frame_count fa"; cases "m (bitmap_frame fa + i) = KFRAME_FREE")
      (simp_all add: kf_range_loop.simps [of m fa 1 i] kf_single_loop.simps [of m fa i])
qed

lemma kf_single_loop_lt: "kf_single_loop m fa i = Some s \<Longrightarrow> s < frame_count fa"
proof (induction m fa i rule: kf_single_loop.induct)
  case (1 m fa i)
  then show ?case
    by (auto simp: kf_single_loop.simps [of m fa i] split: if_splits)
qed

text \<open>As long as the counter is not zero, \<open>kframe_allocate_single_frame\<close> and
  \<open>kframe_allocate_range\<close> with a count of one are the same function: same frame, same memory,
  same allocator; with the counter at zero they differ, the first returning 0 and the second -1.\<close>

lemma kframe_single_eq_range:
  assumes "kf_wf fa"
  shows "(available_frame_count fa \<noteq> 0 \<longrightarrow>
            kframe_allocate_single_frame m fa = kframe_allocate_range m fa 1) \<and>
         (available_frame_count fa = 0 \<longrightarrow>
            kframe_allocate_single_frame m fa = (0, m, fa) \<and>
            kframe_allocate_range m fa 1 = (-1, m, fa))"
proof (cases "available_frame_count fa = 0")
  case True
  then show ?thesis
    by (simp add: kframe_allocate_single_frame_def kframe_allocate_range_def)
next
  case False
  then have av: "\<not> available_frame_count fa < 1" by (simp add: word_less_nat_alt unat_eq_zero Suc_le_eq)
  show ?thesis
  proof (cases "kf_single_loop m fa 0")
    case None
    with False av show ?thesis
      by (simp add: kframe_allocate_single_frame_def kframe_allocate_range_def kf_loop_single [OF assms])
  next
    case (Some s)
    from kf_single_loop_lt [OF this] have s: "unat s \<le> unat (frame_count fa)"
      by (simp add: word_less_nat_alt)
    have "(frame_start fa + s * KFRAME_SIZE - frame_start fa) div KFRAME_SIZE = s"
      using kf_addr_index [OF assms s] by (simp add: kf_addr_def)
    moreover have "kf_mark m fa s 1 = (m(bitmap_frame fa + s := KFRAME_USED),
        fa\<lparr>available_frame_count := available_frame_count fa - 1\<rparr>)"
      by (simp add: kf_mark_def for_loop_0_fold)
    ultimately show ?thesis using False av Some
      by (simp add: kframe_allocate_single_frame_def kframe_allocate_range_def kf_loop_single [OF assms])
  qed
qed

lemma kframe_single_eq_range_witness:
  "kframe_allocate_single_frame ex_bits ex_fa = kframe_allocate_range ex_bits ex_fa 1"
proof -
  have "kf_wf ex_fa" using ex_inv by (simp add: kf_inv_def)
  from kframe_single_eq_range [OF this] show ?thesis by (simp add: ex_fa_def)
qed

text \<open>C32. Freeing the frame that an allocation of one frame has just returned restores the bitmap,
  the counter and every other field exactly.\<close>

theorem kframe_alloc_free_roundtrip:
  assumes "kf_inv m fa" and "kframe_allocate_range m fa 1 = (r, m', fa')" and "r \<noteq> -1"
  shows "kframe_free m' fa' r = (m, fa)"
proof (rule kf_range1_cases [OF assms(1)])
  fix k m1
  let ?fa = "fa\<lparr>available_frame_count := available_frame_count fa - 1\<rparr>"
  assume R: "kframe_allocate_range m fa 1 = (kf_addr fa k, m1, ?fa)"
    and k: "k \<in> kf_free_set m fa" and inv: "kf_inv m1 ?fa"
    and fs: "kf_free_set m1 fa = kf_free_set m fa - {k}"
    and m1: "m1 = m(bitmap_frame fa + of_nat k := KFRAME_USED)"
  have "kframe_free m1 ?fa (kf_addr ?fa k) =
      (m1(bitmap_frame ?fa + of_nat k := KFRAME_FREE),
       ?fa\<lparr>available_frame_count := available_frame_count ?fa + 1\<rparr>)"
    by (rule kf_free_inv(1) [OF inv]) (use fs kf_free_set_sub [OF k] in simp_all)
  moreover have "m1(bitmap_frame fa + of_nat k := KFRAME_FREE) = m"
    using k by (auto simp: m1 kf_free_set_def kf_free_at_def)
  moreover have "r = kf_addr fa k" "m' = m1" "fa' = ?fa" using R assms(2) by auto
  ultimately show ?thesis by simp
next
  assume "kframe_allocate_range m fa 1 = (-1, m, fa)"
  with assms show ?thesis by simp
qed

lemma ex_range_1:
  "kframe_allocate_range ex_bits ex_fa 1 =
     (0x1000, ex_bits(0 := 0xFF), ex_fa\<lparr>available_frame_count := 1\<rparr>)"
  by (simp add: kframe_allocate_range_def kf_range_loop.simps kf_mark_def for_loop.simps
      ex_fa_def ex_bits_def KFRAME_FREE_def KFRAME_USED_def KFRAME_SIZE_def)

theorem kframe_alloc_free_roundtrip_witness:
  "kframe_free (ex_bits(0 := 0xFF)) (ex_fa\<lparr>available_frame_count := 1\<rparr>) 0x1000 = (ex_bits, ex_fa)"
  by (rule kframe_alloc_free_roundtrip [OF ex_inv ex_range_1]) simp

text \<open>The range test of \<open>kframe_free\<close> admits the address one past the last frame: freeing it
  writes the bitmap byte behind the last one and adds a frame that does not exist to the
  counter, so the invariant is lost.\<close>

lemma kframe_free_past_end:
  assumes "kf_inv m fa"
  shows "\<exists>m' fa'. kframe_free m fa (frame_start fa + frame_count fa * KFRAME_SIZE) = (m', fa') \<and>
           m' (bitmap_frame fa + frame_count fa) = KFRAME_FREE \<and>
           kf_free_set m' fa' = kf_free_set m fa \<and>
           available_frame_count fa' = available_frame_count fa + 1 \<and> \<not> kf_inv m' fa'"
proof -
  let ?n = "unat (frame_count fa)"
  let ?m = "m(bitmap_frame fa + frame_count fa := KFRAME_FREE)"
  let ?fa = "fa\<lparr>available_frame_count := available_frame_count fa + 1\<rparr>"
  have wf: "kf_wf fa" using assms by (simp add: kf_inv_def)
  have a: "kf_addr fa ?n = frame_start fa + frame_count fa * KFRAME_SIZE" by (simp add: kf_addr_def)
  have "\<not> kf_addr fa ?n < frame_start fa"
    using unat_kf_addr [OF wf order_refl] by (simp add: word_less_nat_alt)
  then have F: "kframe_free m fa (frame_start fa + frame_count fa * KFRAME_SIZE) = (?m, ?fa)"
    using kf_addr_index [OF wf order_refl] by (simp add: kframe_free_def Let_def a)
  have "bitmap_frame fa + of_nat k \<noteq> bitmap_frame fa + frame_count fa" if "k < ?n" for k
  proof -
    have "unat (of_nat k :: u64) = k"
      using that unat_less_2p64 [of "frame_count fa"] by (intro unat_of_nat_u64) linarith
    then show ?thesis using that by auto
  qed
  then have fs: "kf_free_set ?m ?fa = kf_free_set m fa"
    by (auto simp: kf_free_set_def kf_free_at_def)
  have "card (kf_free_set m fa) \<le> card {..<?n}"
    by (rule card_mono) (auto simp: kf_free_set_def)
  then have "unat (available_frame_count fa + 1) = Suc (card (kf_free_set m fa))"
    using assms frame_count_bound [OF wf] by (simp add: kf_inv_def unat_add_nowrap)
  then have "\<not> kf_inv ?m ?fa" using fs by (simp add: kf_inv_def)
  with F fs show ?thesis by (intro exI [of _ ?m] exI [of _ ?fa]) simp
qed

lemma kframe_free_past_end_witness:
  "\<exists>m' fa'. kframe_free ex_bits ex_fa (frame_start ex_fa + frame_count ex_fa * KFRAME_SIZE) = (m', fa') \<and>
     m' (bitmap_frame ex_fa + frame_count ex_fa) = KFRAME_FREE \<and>
     kf_free_set m' fa' = kf_free_set ex_bits ex_fa \<and>
     available_frame_count fa' = available_frame_count ex_fa + 1 \<and> \<not> kf_inv m' fa'"
  by (rule kframe_free_past_end [OF ex_inv])

subsection \<open>Sessions\<close>

text \<open>
  \<open>kf_session m fa F\<close>: a client has initialised the allocator and then, in any order, requested single
  frames, ranges of any length and fixed ranges, each with whatever result, and freed frames that are
  reserved for it; \<open>F\<close> is the set of the numbers of the frames reserved for it now. A request for a
  range reserves frames only when there are enough free ones in a row.
\<close>

definition kf_index :: "kframe_alloc \<Rightarrow> u64 \<Rightarrow> nat" where
  "kf_index fa r = unat ((r - frame_start fa) div KFRAME_SIZE)"

inductive kf_session :: "bytemem \<Rightarrow> kframe_alloc \<Rightarrow> nat set \<Rightarrow> bool" where
  session_init:
    "kframe_allocator_init m fa bitmap bs start sz = (1, m', fa') \<Longrightarrow>
     unat start + unat sz < 18446744073709551616 \<Longrightarrow> sz div KFRAME_SIZE \<le> bs \<Longrightarrow>
     kf_session m' fa' {}"
| session_single:
    "kf_session m fa F \<Longrightarrow> kframe_allocate_single_frame m fa = (r, m', fa') \<Longrightarrow>
     F' = (if available_frame_count fa = 0 then F else insert (kf_index fa r) F) \<Longrightarrow>
     kf_session m' fa' F'"
| session_range:
    "kf_session m fa F \<Longrightarrow> 0 < count \<Longrightarrow> kframe_allocate_range m fa count = (r, m', fa') \<Longrightarrow>
     F' = (if \<exists>k. kf_run m fa (unat count) k then F \<union> {kf_index fa r..<kf_index fa r + unat count} else F) \<Longrightarrow>
     kf_session m' fa' F'"
| session_fixed:
    "kf_session m fa F \<Longrightarrow> k + unat count \<le> unat (frame_count fa) \<Longrightarrow>
     kframe_allocate_fixed m fa (kf_addr fa k) count = (r, m', fa') \<Longrightarrow>
     F' = (if r = -1 then F else F \<union> {k..<k + unat count}) \<Longrightarrow>
     kf_session m' fa' F'"
| session_free:
    "kf_session m fa F \<Longrightarrow> k \<in> F \<Longrightarrow> kframe_free m fa (kf_addr fa k) = (m', fa') \<Longrightarrow>
     kf_session m' fa' (F - {k})"

text \<open>The frames reserved are those the bitmap marks as used.\<close>

definition kf_reserved :: "bytemem \<Rightarrow> kframe_alloc \<Rightarrow> nat set \<Rightarrow> bool" where
  "kf_reserved m fa F \<longleftrightarrow> kf_inv m fa \<and> F = {..<unat (frame_count fa)} - kf_free_set m fa"

lemma kf_index_addr: "kf_wf fa \<Longrightarrow> k \<le> unat (frame_count fa) \<Longrightarrow> kf_index fa (kf_addr fa k) = k"
  using frame_count_bound [of fa] by (simp add: kf_index_def kf_addr_index unat_of_nat_u64)

lemma kf_reserved_more:
  assumes "kf_reserved m fa F" and "kf_inv m' fa'" and "frame_count fa' = frame_count fa"
    and "kf_free_set m' fa' = kf_free_set m fa - K" and "K \<subseteq> {..<unat (frame_count fa)}"
  shows "kf_reserved m' fa' (F \<union> K)"
  using assms by (auto simp: kf_reserved_def)

lemma kf_range_reserved:
  assumes R: "kf_reserved m fa F" and n: "0 < count" and run: "kf_run m fa (unat count) k0"
    and A: "kframe_allocate_range m fa count = (r, m', fa')"
  shows "\<exists>k. r = kf_addr fa k \<and> k + unat count \<le> unat (frame_count fa) \<and> {k..<k + unat count} \<inter> F = {} \<and>
    kf_index fa r = k \<and> kf_reserved m' fa' (F \<union> {k..<k + unat count})"
proof -
  have inv: "kf_inv m fa" and wf: "kf_wf fa" using R by (auto simp: kf_reserved_def kf_inv_def)
  obtain k m1 fa1 where K: "kframe_allocate_range m fa count = (kf_addr fa k, m1, fa1)"
    "kf_first_run m fa (unat count) k" "kf_inv m1 fa1" "kf_free_set m1 fa1 = kf_free_set m fa - {k..<k + unat count}"
    "fa1 = fa\<lparr>available_frame_count := available_frame_count fa - count\<rparr>"
    by (rule kf_range_found [OF inv n run]) blast
  have r: "kf_run m fa (unat count) k" using K(2) by (simp add: kf_first_run_def)
  then have le: "k + unat count \<le> unat (frame_count fa)" and free: "{k..<k + unat count} \<subseteq> kf_free_set m fa"
    by (simp add: kf_run_def, rule kf_run_free_set)
  have "kf_reserved m1 fa1 (F \<union> {k..<k + unat count})"
    by (rule kf_reserved_more [OF R K(3) _ K(4)]) (use K(5) le in auto)
  moreover have "{k..<k + unat count} \<inter> F = {}" using R free by (auto simp: kf_reserved_def)
  moreover have "kf_index fa (kf_addr fa k) = k" using kf_index_addr [OF wf] le by simp
  ultimately show ?thesis using K(1) A le by (intro exI [of _ k]) simp
qed

lemma kf_range_no_run:
  assumes R: "kf_reserved m fa F" and n: "0 < count" and no: "\<forall>k. \<not> kf_run m fa (unat count) k"
    and A: "kframe_allocate_range m fa count = (r, m', fa')"
  shows "m' = m \<and> fa' = fa \<and> (r = -1 \<or> 1 < count \<and> (\<exists>k < unat (frame_count fa). k \<notin> F \<and> r = kf_addr fa k))"
proof -
  have inv: "kf_inv m fa" using R by (simp add: kf_reserved_def)
  obtain r1 where K: "kframe_allocate_range m fa count = (r1, m, fa)"
    "r1 = -1 \<longleftrightarrow> count > available_frame_count fa \<or> unat (frame_count fa) - 1 \<notin> kf_free_set m fa"
    "r1 \<noteq> -1 \<Longrightarrow> \<exists>k \<in> kf_free_set m fa. r1 = kf_addr fa k"
    using kf_range_not_found [OF inv n] no by metis
  have "1 < count" if ne: "r1 \<noteq> -1"
  proof -
    obtain k where "k \<in> kf_free_set m fa" using K(3) [OF ne] by blast
    then have "count \<noteq> 1" using no kf_run_1 [of m fa k] by auto
    moreover have "unat count \<noteq> 1 \<longleftrightarrow> count \<noteq> 1" by (metis unat_1 word_unat_eq_iff)
    ultimately show ?thesis using n by (simp add: word_less_nat_alt)
  qed
  then show ?thesis using K R A kf_free_set_sub by (fastforce simp: kf_reserved_def)
qed

lemma kf_single_cases:
  assumes R: "kf_reserved m fa F" and A: "kframe_allocate_single_frame m fa = (r, m', fa')"
  shows "if available_frame_count fa = 0 then r = 0 \<and> m' = m \<and> fa' = fa
    else \<exists>k < unat (frame_count fa). k \<notin> F \<and> r = kf_addr fa k \<and> kf_index fa r = k \<and> kf_reserved m' fa' (insert k F)"
proof (cases "available_frame_count fa = 0")
  case False
  have inv: "kf_inv m fa" and wf: "kf_wf fa" using R by (auto simp: kf_reserved_def kf_inv_def)
  have "kf_free_set m fa \<noteq> {}" using inv False by (auto simp: kf_inv_def unat_eq_0)
  then obtain k0 where "kf_run m fa (unat (1 :: u64)) k0" using kf_run_1 [of m fa] by auto
  moreover have "kframe_allocate_range m fa 1 = (r, m', fa')"
    using kframe_single_eq_range [OF wf] False A by simp
  ultimately show ?thesis using kf_range_reserved [OF R, of 1 k0] False by fastforce
next
  case True
  then show ?thesis using A by (simp add: kframe_allocate_single_frame_def)
qed

lemma kf_fixed_reserved:
  assumes R: "kf_reserved m fa F" and le: "k + unat count \<le> unat (frame_count fa)" and c: "0 < count"
    and A: "kframe_allocate_fixed m fa (kf_addr fa k) count = (r, m', fa')"
  shows "if {k..<k + unat count} \<inter> F = {} then r = kf_addr fa k \<and> r \<noteq> -1 \<and> kf_reserved m' fa' (F \<union> {k..<k + unat count})
    else r = -1 \<and> m' = m \<and> fa' = fa"
proof -
  have inv: "kf_inv m fa" and wf: "kf_wf fa" and F: "F = {..<unat (frame_count fa)} - kf_free_set m fa"
    using R by (auto simp: kf_reserved_def kf_inv_def)
  have c': "0 < unat count" using c by (simp add: word_less_nat_alt)
  have run: "kf_run m fa (unat count) k \<longleftrightarrow> {k..<k + unat count} \<inter> F = {}"
    unfolding kf_run_iff [OF c'] F using le by auto
  note C = kf_fixed_cases [OF inv le]
  show ?thesis
  proof (cases "kf_run m fa (unat count) k")
    case True
    from C(1) [OF True] A have P: "r = kf_addr fa k" "kf_inv m' fa'" "frame_count fa' = frame_count fa"
      "kf_free_set m' fa' = kf_free_set m fa - {k..<k + unat count}" by auto
    have "kf_reserved m' fa' (F \<union> {k..<k + unat count})"
      by (rule kf_reserved_more [OF R P(2-4)]) (use le in auto)
    then show ?thesis using True run P(1) kf_addr_neq_m1 [OF wf, of k] le c' by simp
  next
    case False
    then show ?thesis using run C(2) A by simp
  qed
qed

lemma kf_session_reserved: "kf_session m fa F \<Longrightarrow> kf_reserved m fa F"
proof (induction rule: kf_session.induct)
  case (session_init m fa bitmap bs start sz m' fa')
  then have nz: "sz \<noteq> 0" and fc: "frame_count fa' = sz div KFRAME_SIZE"
    using kf_init_result by blast+
  have "kf_inv m' fa'" "kf_free_set m' fa' = {..<unat sz div 4096}"
    using kf_init_all_free_aux [OF nz session_init(2,3), of m fa bitmap] session_init(1) by auto
  then show ?case using fc by (simp add: kf_reserved_def unat_div)
next
  case (session_single m fa F r m' fa' F')
  then show ?case using kf_single_cases [of m fa F r m' fa'] by (auto split: if_splits)
next
  case (session_range m fa F count r m' fa' F')
  show ?case
  proof (cases "\<exists>k. kf_run m fa (unat count) k")
    case True
    then show ?thesis using session_range kf_range_reserved [of m fa F count _ r m' fa'] by fastforce
  next
    case False
    then show ?thesis using session_range kf_range_no_run [of m fa F count r m' fa'] by simp
  qed
next
  case (session_fixed m fa F k count r m' fa' F')
  show ?case
  proof (cases "count = 0")
    case True
    have "kf_inv m fa" "k + unat count \<le> unat (frame_count fa)" using session_fixed by (auto simp: kf_reserved_def)
    from kf_fixed_cases(1) [OF this] have "m' = m \<and> fa' = fa"
      using session_fixed(3) True
      by (auto simp: kframe_allocate_fixed_def Let_def kf_mark_def for_loop.simps kf_any_used.simps split: if_splits)
    then show ?thesis using session_fixed True by simp
  next
    case False
    then have "0 < count" by (simp add: word_gt_0)
    then show ?thesis using kf_fixed_reserved [OF session_fixed(5,2) _ session_fixed(3)] session_fixed
      by (auto split: if_splits)
  qed
next
  case (session_free m fa F k m' fa')
  then have inv: "kf_inv m fa" and F: "F = {..<unat (frame_count fa)} - kf_free_set m fa"
    by (auto simp: kf_reserved_def)
  have k: "k < unat (frame_count fa)" "k \<notin> kf_free_set m fa" using session_free(2) F by auto
  note K = kf_free_inv [OF inv k]
  have "m' = m(bitmap_frame fa + of_nat k := KFRAME_FREE)"
    "fa' = fa\<lparr>available_frame_count := available_frame_count fa + 1\<rparr>"
    using K(1) session_free(3) by auto
  moreover have "F - {k} = {..<unat (frame_count fa)} - insert k (kf_free_set m fa)"
    unfolding F by blast
  ultimately show ?case using K(2,3) by (simp add: kf_reserved_def del: fun_upd_apply)
qed

text \<open>C1. In any session of requests and frees, the frames reserved for the client are exactly those
  the bitmap marks as used, and the counter agrees. What the next request does: a single frame is one
  that is not reserved, or 0 when none is left; a range of \<open>count\<close> frames is \<open>count\<close> frames of the
  region none of which is reserved, if there are so many in a row, and reserves them; a fixed range is
  reserved as asked, or refused if one of its frames is reserved. A range that is not available
  changes nothing, but is not always refused: for \<open>count > 1\<close> the result may be the address of a
  frame that is not reserved for the caller. So two requests are given the same frame only after such
  a range, of more frames than are free in a row.\<close>

theorem kframe_session_requests:
  assumes "kf_session m fa F" and "0 < count"
  shows "kf_inv m fa \<and> F = {..<unat (frame_count fa)} - kf_free_set m fa \<and>
    (case kframe_allocate_single_frame m fa of (r, m', fa') \<Rightarrow>
       if F = {..<unat (frame_count fa)} then r = 0 \<and> m' = m \<and> fa' = fa
       else \<exists>k < unat (frame_count fa). k \<notin> F \<and> r = kf_addr fa k \<and> kf_session m' fa' (insert k F)) \<and>
    (case kframe_allocate_range m fa count of (r, m', fa') \<Rightarrow>
       if \<exists>k. k + unat count \<le> unat (frame_count fa) \<and> {k..<k + unat count} \<inter> F = {}
       then \<exists>k. k + unat count \<le> unat (frame_count fa) \<and> {k..<k + unat count} \<inter> F = {} \<and>
         r = kf_addr fa k \<and> kf_session m' fa' (F \<union> {k..<k + unat count})
       else m' = m \<and> fa' = fa \<and>
         (r = -1 \<or> 1 < count \<and> (\<exists>k < unat (frame_count fa). k \<notin> F \<and> r = kf_addr fa k))) \<and>
    (\<forall>k. k + unat count \<le> unat (frame_count fa) \<longrightarrow>
       (case kframe_allocate_fixed m fa (kf_addr fa k) count of (r, m', fa') \<Rightarrow>
         if {k..<k + unat count} \<inter> F = {}
         then r = kf_addr fa k \<and> kf_session m' fa' (F \<union> {k..<k + unat count})
         else r = -1 \<and> m' = m \<and> fa' = fa))"
proof -
  have R: "kf_reserved m fa F" by (rule kf_session_reserved [OF assms(1)])
  then have inv: "kf_inv m fa" and F: "F = {..<unat (frame_count fa)} - kf_free_set m fa"
    by (auto simp: kf_reserved_def)
  have c': "0 < unat count" using assms(2) by (simp add: word_less_nat_alt)
  have sub: "kf_free_set m fa \<subseteq> {..<unat (frame_count fa)}" using kf_free_set_sub by blast
  have "kf_run m fa (unat count) k \<longleftrightarrow>
    k + unat count \<le> unat (frame_count fa) \<and> {k..<k + unat count} \<inter> F = {}" for k
  proof -
    have "k + unat count \<le> unat (frame_count fa)" if "kf_run m fa (unat count) k"
      using that by (simp add: kf_run_def)
    then show ?thesis using sub unfolding kf_run_iff [OF c'] F by fastforce
  qed
  then have run: "(\<exists>k. kf_run m fa (unat count) k) \<longleftrightarrow>
    (\<exists>k. k + unat count \<le> unat (frame_count fa) \<and> {k..<k + unat count} \<inter> F = {})" by simp
  have none: "F = {..<unat (frame_count fa)} \<longleftrightarrow> available_frame_count fa = 0"
  proof -
    have "finite (kf_free_set m fa)" using sub finite_subset by blast
    then have "available_frame_count fa = 0 \<longleftrightarrow> kf_free_set m fa = {}"
      using inv by (auto simp: kf_inv_def unat_eq_0)
    then show ?thesis unfolding F using sub by blast
  qed
  obtain r1 m1 fa1 where S: "kframe_allocate_single_frame m fa = (r1, m1, fa1)" by (metis prod_cases3)
  obtain r2 m2 fa2 where A: "kframe_allocate_range m fa count = (r2, m2, fa2)" by (metis prod_cases3)
  have 1: "if F = {..<unat (frame_count fa)} then r1 = 0 \<and> m1 = m \<and> fa1 = fa
    else \<exists>k < unat (frame_count fa). k \<notin> F \<and> r1 = kf_addr fa k \<and> kf_session m1 fa1 (insert k F)"
    using kf_single_cases [OF R S] session_single [OF assms(1) S refl] none by auto
  have 2: "if \<exists>k. k + unat count \<le> unat (frame_count fa) \<and> {k..<k + unat count} \<inter> F = {}
       then \<exists>k. k + unat count \<le> unat (frame_count fa) \<and> {k..<k + unat count} \<inter> F = {} \<and>
         r2 = kf_addr fa k \<and> kf_session m2 fa2 (F \<union> {k..<k + unat count})
       else m2 = m \<and> fa2 = fa \<and>
         (r2 = -1 \<or> 1 < count \<and> (\<exists>k < unat (frame_count fa). k \<notin> F \<and> r2 = kf_addr fa k))"
  proof (cases "\<exists>k. kf_run m fa (unat count) k")
    case True
    then obtain k0 where "kf_run m fa (unat count) k0" ..
    from kf_range_reserved [OF R assms(2) this A] session_range [OF assms A refl] True
    show ?thesis unfolding run [symmetric] by auto
  next
    case False
    then show ?thesis unfolding run [symmetric] using kf_range_no_run [OF R assms(2) _ A] by auto
  qed
  have 3: "case kframe_allocate_fixed m fa (kf_addr fa k) count of (r, m', fa') \<Rightarrow>
         if {k..<k + unat count} \<inter> F = {}
         then r = kf_addr fa k \<and> kf_session m' fa' (F \<union> {k..<k + unat count})
         else r = -1 \<and> m' = m \<and> fa' = fa" if le: "k + unat count \<le> unat (frame_count fa)" for k
  proof -
    obtain r m' fa' where X: "kframe_allocate_fixed m fa (kf_addr fa k) count = (r, m', fa')"
      by (metis prod_cases3)
    show ?thesis
      using kf_fixed_reserved [OF R le assms(2) X] session_fixed [OF assms(1) le X refl] X by (auto split: if_splits)
  qed
  show ?thesis using inv F 1 2 3 S A by simp
qed

definition ex_fa1 :: kframe_alloc where
  "ex_fa1 = ex_fa\<lparr>available_frame_count := 3\<rparr>"

lemma ex_session: "kf_session (\<lambda>_. 0) ex_fa1 {}"
proof (rule session_init [of "\<lambda>_. 0" ex_fa 0 3 "0x1000" "0x3000"])
  show "kframe_allocator_init (\<lambda>_. 0) ex_fa 0 3 0x1000 0x3000 = (1, \<lambda>_. 0, ex_fa1)"
    by (simp add: kframe_allocator_init_def Let_def for_loop.simps ex_fa1_def ex_fa_def
        KFRAME_SIZE_def PAGE_SIZE_4KB_def KFRAME_FREE_def fun_upd_idem)
qed (simp_all add: KFRAME_SIZE_def)

theorem kframe_session_requests_witness:
  "case kframe_allocate_range (\<lambda>_. 0) ex_fa1 2 of (r, m', fa') \<Rightarrow>
     \<exists>k. k + 2 \<le> 3 \<and> r = kf_addr ex_fa1 k \<and> kf_session m' fa' {k..<k + 2}"
proof -
  have "0 + unat (2 :: u64) \<le> unat (frame_count ex_fa1)" by (simp add: ex_fa1_def ex_fa_def)
  then show ?thesis using kframe_session_requests [OF ex_session, of 2]
    by (auto simp: ex_fa1_def ex_fa_def split: if_splits)
qed

text \<open>C19. A client that asks the allocator for \<open>n\<close> frames, one call after the other, receives
  \<open>n\<close> different frames that were all free, provided at least \<open>n\<close> frames are free.\<close>

theorem kframe_many_distinct:
  assumes "kf_inv m fa" and "n \<le> card (kf_free_set m fa)"
    and "alloc_many kf_alloc1 n (m, fa) = (rs, s')"
  shows "distinct rs \<and> length rs = n \<and> set rs \<subseteq> kf_addr fa ` kf_free_set m fa \<and>
         kf_inv (fst s') (snd s')"
proof -
  have wf: "kf_wf fa" using assms(1) by (simp add: kf_inv_def)
  have "card (kf_avail (m, fa)) = card (kf_free_set m fa)"
    unfolding kf_avail_def fst_conv snd_conv
    by (rule card_image [OF inj_on_subset [OF kf_addr_inj [OF wf]]]) (auto simp: kf_free_set_def)
  then show ?thesis
    using kf.alloc_many_distinct [of "(m, fa)" n rs s'] assms by (simp add: kf_avail_def)
qed

theorem kframe_many_distinct_witness:
  "distinct (fst (alloc_many kf_alloc1 2 (ex_bits, ex_fa))) \<and>
   length (fst (alloc_many kf_alloc1 2 (ex_bits, ex_fa))) = 2 \<and>
   set (fst (alloc_many kf_alloc1 2 (ex_bits, ex_fa))) \<subseteq> kf_addr ex_fa ` kf_free_set ex_bits ex_fa \<and>
   kf_inv (fst (snd (alloc_many kf_alloc1 2 (ex_bits, ex_fa))))
          (snd (snd (alloc_many kf_alloc1 2 (ex_bits, ex_fa))))"
  by (rule kframe_many_distinct [OF ex_inv]) (simp_all add: ex_free_set)

end
