(* ===== verification/PageTable.thy ===== *)
theory PageTable
  imports Prelude
begin

text \<open>
  The page-table code of \<open>kernel/vma.c\<close> and the descriptor layouts of \<open>kernel/defines.h\<close>:
  permission bits, bit fields of the table and page descriptors, \<open>page_table_map\<close> and its three
  wrappers, the boot-time mappings, and the translation registers. A table is an array of
  64-bit cells; \<open>wordmem\<close> maps the address of a cell to its value, and \<open>a[i]\<close> of the code is the
  cell at \<open>a + 8 * i\<close>. A result \<open>None\<close> is a call of \<open>crash()\<close>, which asks the host to end the VM.
\<close>

subsection \<open>Constants and descriptor layouts (defines.h, vma.c)\<close>

type_synonym wordmem = "u64 \<Rightarrow> u64"

definition arr :: "u64 \<Rightarrow> u64 \<Rightarrow> u64" where
  "arr base i = base + 8 * i"

definition PT_PAGE :: c_int where "PT_PAGE = 0b11"
definition PT_BLOCK :: c_int where "PT_BLOCK = 0b01"
definition PT_KERNEL :: c_int where "PT_KERNEL = 0"
definition PT_USER :: c_int where "PT_USER = push_bit 6 1"
definition PT_RW :: c_int where "PT_RW = 0"
definition PT_RO :: c_int where "PT_RO = push_bit 7 1"
definition PT_AF :: c_int where "PT_AF = push_bit 10 1"
definition PT_NX :: u64 where "PT_NX = push_bit 54 1"
definition PT_ISH :: c_int where "PT_ISH = push_bit 8 3"
definition PT_MEM :: c_int where "PT_MEM = 0"
definition PT_DEV :: c_int where "PT_DEV = push_bit 2 1"

definition PROT_R :: c_int where "PROT_R = 1"
definition PROT_W :: c_int where "PROT_W = 2"
definition PROT_X :: c_int where "PROT_X = 4"
definition PROT_RW :: c_int where "PROT_RW = PROT_R OR PROT_W"
definition PROT_RWX :: c_int where "PROT_RWX = PROT_RW OR PROT_X"

definition VA_OFFSET_48_L0 :: "u64 \<Rightarrow> u64" where "VA_OFFSET_48_L0 a = drop_bit 39 a AND 0x1FF"
definition VA_OFFSET_48_L1 :: "u64 \<Rightarrow> u64" where "VA_OFFSET_48_L1 a = drop_bit 30 a AND 0x1FF"
definition VA_OFFSET_48_L2 :: "u64 \<Rightarrow> u64" where "VA_OFFSET_48_L2 a = drop_bit 21 a AND 0x1FF"
definition VA_OFFSET_48_L3 :: "u64 \<Rightarrow> u64" where "VA_OFFSET_48_L3 a = drop_bit 12 a AND 0x1FF"

definition MASK_VA_36_TABLE_ADDRESS :: "u64 \<Rightarrow> u64" where
  "MASK_VA_36_TABLE_ADDRESS a = drop_bit 12 (a AND 0x0000FFFFFFFFF000)"

definition BD_OA_l2_get :: "u64 \<Rightarrow> u64" where "BD_OA_l2_get e = drop_bit 21 e AND 0x7FFFFFF"
definition BD_OA_l3_get :: "u64 \<Rightarrow> u64" where "BD_OA_l3_get e = drop_bit 12 e AND 0x0FFFFFFFFF"

text \<open>A bit field of \<open>n\<close> bits at position \<open>p\<close> of a 64-bit register, as the unions declare them.\<close>

definition get_field :: "nat \<Rightarrow> nat \<Rightarrow> u64 \<Rightarrow> u64" where
  "get_field p n r = take_bit n (drop_bit p r)"

definition set_field :: "nat \<Rightarrow> nat \<Rightarrow> u64 \<Rightarrow> u64 \<Rightarrow> u64" where
  "set_field p n v r = (r AND NOT (push_bit p (mask n))) OR push_bit p (take_bit n v)"

text \<open>\<open>union TABLE_FORMAT_4KB_48_OA\<close>: valid bit, link bit, the next table's frame number.\<close>

definition tf_is_valid :: "u64 \<Rightarrow> bool" where "tf_is_valid r \<longleftrightarrow> get_field 0 1 r \<noteq> 0"
definition tf_next_level_table_address :: "u64 \<Rightarrow> u64" where
  "tf_next_level_table_address r = get_field 12 36 r"

definition tf_link :: "u64 \<Rightarrow> u64 \<Rightarrow> u64" where
  "tf_link r table_pa =
     set_field 12 36 (MASK_VA_36_TABLE_ADDRESS table_pa) (set_field 1 1 1 (set_field 0 1 1 r))"

text \<open>\<open>union block_page_descriptor_4KB_48_OA\<close>: the level 3 and level 2 views.\<close>

definition bd_l3 :: "u64 \<Rightarrow> u64 \<Rightarrow> u64" where
  "bd_l3 r pa = set_field 12 36 (BD_OA_l3_get pa) (set_field 1 1 0 (set_field 0 1 1 r))"

definition bd_l2 :: "u64 \<Rightarrow> u64 \<Rightarrow> u64" where
  "bd_l2 r pa = set_field 21 27 (BD_OA_l2_get pa) (set_field 1 1 0 (set_field 0 1 1 r))"

definition bd_l3_oa :: "u64 \<Rightarrow> u64" where "bd_l3_oa r = get_field 12 36 r"

record translation_tables =
  PGD :: u64
  PUD :: u64
  PMD :: u64
  PT3 :: u64
  start_va :: u64
  start_pa :: u64
  tt_length :: u64
  tt_flags :: u64
  va_PGD :: u64
  va_PUD :: u64
  va_PMD :: u64
  va_PT3 :: u64

subsection \<open>Permissions\<close>

text \<open>
  \<open>pt\<close> is a C \<open>int\<close>: or-ing the 64-bit constant \<open>PT_NX\<close> into it computes in 64 bits and
  converts the result back to 32 bits.
\<close>

definition perm_to_pt :: "c_int \<Rightarrow> c_int" where
  "perm_to_pt prot =
     (let pt = (0 :: c_int);
          pt = ucast ((scast pt :: u64) OR (if PROT_X AND prot \<noteq> 0 then 0 else PT_NX))
      in if PROT_RW = prot \<or> PROT_RWX = prot \<or> PROT_W AND prot \<noteq> 0 then pt OR PT_RW
         else if PROT_R AND prot \<noteq> 0 then pt OR PT_RO
         else pt)"

subsection \<open>Mapping one page\<close>

text \<open>
  The divisor of the 512 GB test, \<open>512 * 0x400 * 0x400 * 0x400\<close>, is a product of C \<open>int\<close>s; it
  is written here as a product of 32-bit words, converted to 64 bits for the division, and the
  division by a zero register is 0, as the AArch64 \<open>udiv\<close> instruction defines it.
\<close>

definition GB512_divisor :: u64 where
  "GB512_divisor = scast (512 * 0x400 * 0x400 * 0x400 :: c_int)"

definition GB1_divisor :: u64 where
  "GB1_divisor = scast (0x400 * 0x400 * 0x400 :: c_int)"

definition MB2_divisor :: u64 where
  "MB2_divisor = scast (0x2 * 0x400 * 0x400 :: c_int)"

definition page_table_map ::
  "translation_tables \<Rightarrow> u64 \<Rightarrow> u64 \<Rightarrow> c_int \<Rightarrow> c_int \<Rightarrow> wordmem \<Rightarrow> (c_int \<times> wordmem) option" where
  "page_table_map t va pa flags is_dev w =
     (let l0 = va_PGD t; l1 = va_PUD t; l2 = va_PMD t; l3 = va_PT3 t;
          index = va - start_va t;
          which_512gb = index div GB512_divisor;
          which_1gb = index div GB1_divisor;
          which_2mb = index div MB2_divisor
      in if which_512gb > 0 then None
         else
           let offset = VA_OFFSET_48_L0 va in
           if offset > 512 then Some (-1, w)
           else
             let index = which_512gb * PAGE_SIZE_4KB;
                 pgd_entry = w (arr l0 offset);
                 w = (if \<not> tf_is_valid pgd_entry
                      then w(arr l0 offset := tf_link pgd_entry (PUD t + index)) else w);
                 offset = VA_OFFSET_48_L1 va;
                 pud_entry = w (arr l1 offset);
                 index = which_1gb * PAGE_SIZE_4KB;
                 w = (if \<not> tf_is_valid pud_entry
                      then w(arr l1 offset := tf_link pud_entry (PMD t + index)) else w);
                 offset = VA_OFFSET_48_L2 va;
                 index = which_2mb * PAGE_SIZE_4KB;
                 pmd_entry = w (arr l2 (offset + which_1gb * 512));
                 w = (if \<not> tf_is_valid pmd_entry
                      then w(arr l2 (offset + which_1gb * 512 div PAGE_SIZE_4KB) :=
                               tf_link pmd_entry (PT3 t + index)) else w);
                 pt3_entry = bd_l3 0 pa;
                 fl = scast (PT_PAGE OR PT_ISH OR flags) :: u64;
                 fl = fl OR (if is_dev = 1 then PT_NX OR scast PT_DEV OR scast PT_AF
                             else scast (PT_MEM OR PT_AF));
                 pt3_entry = pt3_entry OR fl;
                 offset = VA_OFFSET_48_L3 va;
                 w = w(arr l3 (offset + which_2mb * 512) := pt3_entry)
             in Some (0, w))"

definition page_table_map_user ::
  "translation_tables \<Rightarrow> u64 \<Rightarrow> u64 \<Rightarrow> c_int \<Rightarrow> wordmem \<Rightarrow> (c_int \<times> wordmem) option" where
  "page_table_map_user t va pa flags w =
     page_table_map t va pa (perm_to_pt flags OR PT_USER) 0 w"

definition page_table_map_kernel ::
  "translation_tables \<Rightarrow> u64 \<Rightarrow> u64 \<Rightarrow> c_int \<Rightarrow> wordmem \<Rightarrow> (c_int \<times> wordmem) option" where
  "page_table_map_kernel t va pa flags w =
     page_table_map t va pa (perm_to_pt flags OR PT_KERNEL) 0 w"

definition page_table_map_device ::
  "translation_tables \<Rightarrow> u64 \<Rightarrow> u64 \<Rightarrow> c_int \<Rightarrow> wordmem \<Rightarrow> (c_int \<times> wordmem) option" where
  "page_table_map_device t va pa flags w =
     page_table_map t va pa
       (ucast ((scast (perm_to_pt flags) :: u64) OR (scast PT_KERNEL OR PT_NX))) 1 w"

subsection \<open>Boot-time mappings\<close>

text \<open>\<open>_Lower_*\<close> and \<open>_Realm_*\<close>: the addresses of the two statically allocated table sets.\<close>

record static_tables =
  st_PGD :: u64
  st_PUD :: u64
  st_PMD :: u64
  st_PT3 :: u64

definition set_lower_translation_tables ::
  "static_tables \<Rightarrow> translation_tables \<Rightarrow> translation_tables" where
  "set_lower_translation_tables lower table =
     table\<lparr>PGD := st_PGD lower, PUD := st_PUD lower, PMD := st_PMD lower, PT3 := st_PT3 lower\<rparr>"

definition set_upper_translation_tables ::
  "static_tables \<Rightarrow> translation_tables \<Rightarrow> translation_tables" where
  "set_upper_translation_tables realm table =
     table\<lparr>PGD := st_PGD realm, PUD := st_PUD realm, PMD := st_PMD realm, PT3 := st_PT3 realm\<rparr>"

definition boot_page_flags :: u64 where
  "boot_page_flags = scast (PT_PAGE OR PT_KERNEL OR PT_RW OR PT_ISH OR PT_AF OR PT_MEM)"

text \<open>
  The \<open>do .. while (i++ <= count)\<close> loop that links the PMD entries runs with \<open>i = 0, .., count + 1\<close>:
  its body has run \<open>count + 2\<close> times when the test fails.
\<close>

definition nm_link_pmd :: "translation_tables \<Rightarrow> u64 \<Rightarrow> u64 \<times> u64 \<times> wordmem \<Rightarrow> u64 \<times> u64 \<times> wordmem" where
  "nm_link_pmd table i = (\<lambda>(pmd_entry, id_vma, w).
     (let pmd_entry = tf_link pmd_entry (PT3 table + 8 * (i * 512));
          offset = VA_OFFSET_48_L2 id_vma
      in (pmd_entry, id_vma + 2 * 1024 * 1024, w(arr (PMD table) offset := pmd_entry))))"

definition nm_map_page ::
  "translation_tables \<Rightarrow> u64 \<Rightarrow> u64 \<times> u64 \<times> u64 \<times> u64 \<times> wordmem \<Rightarrow> u64 \<times> u64 \<times> u64 \<times> u64 \<times> wordmem" where
  "nm_map_page table i = (\<lambda>(pt3_entry, page_va, page_pa, count, w).
     (let pt3_entry = bd_l3 pt3_entry page_pa OR boot_page_flags;
          offset = VA_OFFSET_48_L3 page_va
      in (pt3_entry, page_va + PAGE_SIZE_4KB, page_pa + PAGE_SIZE_4KB,
          count + (if offset = 511 then 512 else 0),
          w(arr (PT3 table) (offset + count) := pt3_entry))))"

definition normal_map_kernel_4KB :: "translation_tables \<Rightarrow> u64 \<Rightarrow> u64 \<Rightarrow> wordmem \<Rightarrow> wordmem" where
  "normal_map_kernel_4KB table ram_size ram_shared_size w =
     (let id_vma = start_va table;
          w = w(arr (PGD table) (VA_OFFSET_48_L0 id_vma) := tf_link 0 (PUD table));
          w = w(arr (PUD table) (VA_OFFSET_48_L1 id_vma) := tf_link 0 (PMD table));
          count = (ram_size + 2 * 1024 * 1024 - 1) div (2 * 1024 * 1024);
          (_, _, w) = for_loop 0 (count + 2) (nm_link_pmd table) (0, id_vma, w);
          (_, _, _, _, w) =
            for_loop 0 (ram_size div PAGE_SIZE_4KB) (nm_map_page table)
              (0, start_va table, start_pa table, 0, w)
      in w)"

definition im_map_page ::
  "u64 \<Rightarrow> u64 \<Rightarrow> u64 \<times> u64 \<times> u64 \<times> wordmem \<Rightarrow> u64 \<times> u64 \<times> u64 \<times> wordmem" where
  "im_map_page l3 i = (\<lambda>(pt3_entry, page_va, page_pa, w).
     (let pt3_entry = bd_l3 pt3_entry page_pa OR boot_page_flags;
          offset = VA_OFFSET_48_L3 page_va
      in (pt3_entry, page_va + PAGE_SIZE_4KB, page_pa + PAGE_SIZE_4KB, w(arr l3 offset := pt3_entry))))"

definition identity_map_kernel_4KB ::
  "static_tables \<Rightarrow> u64 \<Rightarrow> u64 \<Rightarrow> u64 \<Rightarrow> u64 \<Rightarrow> wordmem \<Rightarrow> wordmem" where
  "identity_map_kernel_4KB lower ram_size ram_shared_size s_pa s_va w =
     (let w = w(arr (st_PGD lower) (VA_OFFSET_48_L0 s_va) := tf_link 0 (st_PUD lower));
          w = w(arr (st_PUD lower) (VA_OFFSET_48_L1 s_va) := tf_link 0 (st_PMD lower));
          w = w(arr (st_PMD lower) (VA_OFFSET_48_L2 s_va) := tf_link 0 (st_PT3 lower));
          (_, _, _, w) = for_loop 0 512 (im_map_page (st_PT3 lower)) (0, s_va, s_pa, w)
      in w)"

text \<open>\<open>ram_address\<close> is \<open>&_start\<close>, a symbol of the linker script.\<close>

definition identity_map_kernel_2MB :: "static_tables \<Rightarrow> u64 \<Rightarrow> u64 \<Rightarrow> u64 \<Rightarrow> wordmem \<Rightarrow> wordmem" where
  "identity_map_kernel_2MB lower ram_address ram_size ram_shared_size w =
     (let id_vma = ram_address;
          w = w(arr (st_PGD lower) (VA_OFFSET_48_L0 id_vma) := tf_link 0 (st_PUD lower));
          w = w(arr (st_PUD lower) (VA_OFFSET_48_L1 id_vma) := tf_link 0 (st_PMD lower));
          pmd_entry = bd_l2 0 id_vma;
          pmd_entry = pmd_entry OR scast (PT_BLOCK OR PT_KERNEL OR PT_RW OR PT_ISH OR PT_AF OR PT_MEM)
      in w(arr (st_PMD lower) (VA_OFFSET_48_L2 id_vma) := pmd_entry))"

text \<open>
  \<open>configure_translation\<close>: the values written to MAIR_EL1, TCR_EL1, TTBR0_EL1 and TTBR1_EL1;
  \<open>tcr\<close> is the value read back from TCR_EL1.
\<close>

record translation_regs =
  MAIR_EL1 :: u64
  TCR_EL1 :: u64
  TTBR0_EL1 :: u64
  TTBR1_EL1 :: u64

definition configure_translation ::
  "static_tables \<Rightarrow> static_tables \<Rightarrow> translation_regs \<Rightarrow> translation_regs" where
  "configure_translation lower realm r =
     (let mair_conf = scast (0xff OR push_bit 8 0x04 OR push_bit 16 0x44 :: c_int) :: u64;
          tcr = TCR_EL1 r OR
            push_bit 37 0b00 OR push_bit 32 0b100 OR push_bit 30 0b10 OR push_bit 28 0b11 OR
            push_bit 26 0b01 OR push_bit 24 0b01 OR push_bit 23 0b0 OR push_bit 16 16 OR
            push_bit 14 0b00 OR push_bit 12 0b11 OR push_bit 10 0b01 OR push_bit 8 0b01 OR
            push_bit 7 0b0 OR push_bit 0 16
      in r\<lparr>MAIR_EL1 := mair_conf, TCR_EL1 := tcr,
           TTBR0_EL1 := st_PGD lower, TTBR1_EL1 := st_PGD realm\<rparr>)"

subsection \<open>Translations of addresses\<close>

text \<open>
  The \<open>AT\<close> instructions are not part of the source: \<open>at_s1e1r va\<close> stands for the value that
  PAR_EL1 holds after \<open>AT S1E1R, va\<close>, and similarly for the write and EL0 forms. Bit 0 set means
  that the translation failed.
\<close>

record at_unit =
  at_s1e1r :: "u64 \<Rightarrow> u64"
  at_s1e1w :: "u64 \<Rightarrow> u64"
  at_s1e0r :: "u64 \<Rightarrow> u64"
  at_s1e0w :: "u64 \<Rightarrow> u64"

definition access_user_ok :: "at_unit \<Rightarrow> u64 \<Rightarrow> c_int \<Rightarrow> c_int" where
  "access_user_ok mmu va prot =
     (if prot = PROT_RW \<or> prot = PROT_W then (if at_s1e0w mmu va AND 1 \<noteq> 0 then 1 else 0)
      else if prot = PROT_R then (if at_s1e0r mmu va AND 1 \<noteq> 0 then 1 else 0)
      else if prot = PROT_RWX then (if at_s1e0w mmu va AND 1 \<noteq> 0 then 1 else 0)
      else 0)"

definition access_kernel_ok :: "at_unit \<Rightarrow> u64 \<Rightarrow> c_int \<Rightarrow> c_int" where
  "access_kernel_ok mmu va prot =
     (if prot = PROT_RW \<or> prot = PROT_W then (if at_s1e1w mmu va AND 1 \<noteq> 0 then 1 else 0)
      else if prot = PROT_R then (if at_s1e1r mmu va AND 1 \<noteq> 0 then 1 else 0)
      else if prot = PROT_RWX then (if at_s1e1w mmu va AND 1 \<noteq> 0 then 1 else 0)
      else 0)"

definition access_is_ok :: "at_unit \<Rightarrow> u64 \<Rightarrow> c_int" where
  "access_is_ok mmu va =
     (let ret = access_kernel_ok mmu va PROT_R in
      if ret \<noteq> 0 then ret else access_user_ok mmu va PROT_R)"

definition translate_va_to_pa :: "at_unit \<Rightarrow> u64 \<Rightarrow> u64" where
  "translate_va_to_pa mmu va = (let pa = at_s1e1r mmu va in if pa AND 1 \<noteq> 0 then 0 else pa)"

definition translate_pa_to_va :: "u64 \<Rightarrow> u64" where
  "translate_pa_to_va parel = push_bit 12 (MASK_VA_36_TABLE_ADDRESS parel)"

definition get_physical_address :: "at_unit \<Rightarrow> u64 \<Rightarrow> u64" where
  "get_physical_address mmu va =
     (let pa = translate_va_to_pa mmu va;
          pa = (pa AND NOT 0x0FFF) OR (va AND 0x0FFF)
      in pa AND NOT (push_bit 56 0xFF))"

end
