(* ===== verification/PageWalk.thy ===== *)
theory PageWalk
  imports PageTable
begin

text \<open>
  What the page tables mean. \<open>pt_walk\<close> is the specification: the four-level translation of
  an address through the tables of one \<open>TranslationTables_t\<close>, reading each next-level table
  where the kernel has it mapped. \<open>pt_inv\<close> says that the tables are linked the way
  \<open>page_table_map\<close> links them; under it, mapping a page within the first gigabyte of a table
  set is exactly an update of the translation.
\<close>

subsection \<open>Bit fields\<close>

lemma get_set_field_same: "p + n \<le> 64 \<Longrightarrow> get_field p n (set_field p n v r) = take_bit n v"
  by (rule bit_word_eqI) (auto simp: get_field_def set_field_def bit_simps)

lemma get_set_field_other:
  "p + n \<le> q \<or> q + m \<le> p \<Longrightarrow> get_field p n (set_field q m v r) = get_field p n r"
  by (rule bit_word_eqI)
    (auto simp: get_field_def set_field_def bit_simps dest: bit_imp_le_length)

lemma tf_link_valid [simp]: "tf_is_valid (tf_link r pa)"
  by (simp add: tf_is_valid_def tf_link_def get_set_field_same get_set_field_other)

lemma tf_is_valid_iff: "tf_is_valid r \<longleftrightarrow> bit r 0"
  by (simp add: tf_is_valid_def get_field_def bit_0 even_iff_mod_2_eq_zero take_bit_Suc)

lemma mask_consts:
  "(0x1FF::u64) = mask 9" "(0x7FFFFFF::u64) = mask 27" "(0x0FFFFFFFFF::u64) = mask 36"
  "(0x0000FFFFFFFFF000::u64) = push_bit 12 (mask 36)" "(0xFFF::u64) = mask 12"
  by (simp_all add: mask_eq_exp_minus_1)

lemma MASK_VA_36: "MASK_VA_36_TABLE_ADDRESS a = take_bit 36 (drop_bit 12 a)"
  unfolding MASK_VA_36_TABLE_ADDRESS_def mask_consts
  by (rule bit_word_eqI) (auto simp: bit_simps dest: bit_imp_le_length)

lemma BD_OA_l3: "BD_OA_l3_get a = take_bit 36 (drop_bit 12 a)"
  unfolding BD_OA_l3_get_def mask_consts by (simp add: take_bit_eq_mask)

lemma tf_link_next [simp]:
  "tf_next_level_table_address (tf_link r pa) = take_bit 36 (drop_bit 12 pa)"
  by (simp add: tf_next_level_table_address_def tf_link_def get_set_field_same MASK_VA_36)

lemma bd_l3_oa_bd_l3 [simp]: "bd_l3_oa (bd_l3 r pa) = take_bit 36 (drop_bit 12 pa)"
  by (simp add: bd_l3_oa_def bd_l3_def get_set_field_same BD_OA_l3)

lemma VA_OFFSET_unat:
  "unat (VA_OFFSET_48_L0 a) = unat a div 2 ^ 39 mod 512"
  "unat (VA_OFFSET_48_L1 a) = unat a div 2 ^ 30 mod 512"
  "unat (VA_OFFSET_48_L2 a) = unat a div 2 ^ 21 mod 512"
  "unat (VA_OFFSET_48_L3 a) = unat a div 2 ^ 12 mod 512"
  unfolding VA_OFFSET_48_L0_def VA_OFFSET_48_L1_def VA_OFFSET_48_L2_def VA_OFFSET_48_L3_def
    mask_consts take_bit_eq_mask [symmetric]
  by (simp_all add: unsigned_take_bit_eq unsigned_drop_bit_eq)
    (simp_all add: take_bit_eq_mod drop_bit_eq_div unat_less_2p64)

lemma VA_OFFSET_lt:
  "VA_OFFSET_48_L0 a < 512" "VA_OFFSET_48_L1 a < 512" "VA_OFFSET_48_L2 a < 512"
  "VA_OFFSET_48_L3 a < 512"
  by (simp_all add: word_less_nat_alt VA_OFFSET_unat)

lemma divisors: "GB512_divisor = 0" "GB1_divisor = 0x40000000" "MB2_divisor = 0x200000"
  by (simp_all add: GB512_divisor_def GB1_divisor_def MB2_divisor_def)

subsection \<open>The descriptor that page_table_map stores\<close>

definition page_descriptor :: "u64 \<Rightarrow> c_int \<Rightarrow> c_int \<Rightarrow> u64" where
  "page_descriptor pa flags is_dev =
     bd_l3 0 pa OR scast (PT_PAGE OR PT_ISH OR flags) OR
     (if is_dev = 1 then PT_NX OR scast PT_DEV OR scast PT_AF else scast (PT_MEM OR PT_AF))"

text \<open>Flags within the twelve low bits: what every caller passes.\<close>

definition low_flags :: "c_int \<Rightarrow> bool" where
  "low_flags flags \<longleftrightarrow> take_bit 12 flags = flags"

lemma scast_low: "low_flags f \<Longrightarrow> (scast f :: u64) = ucast f \<and> take_bit 12 (ucast f :: u64) = ucast f"
proof
  assume f: "low_flags f"
  have hi: "n < 12" if "bit f n" for n
    using f that unfolding low_flags_def by (metis bit_take_bit_iff)
  show "(scast f :: u64) = ucast f"
    using hi by (intro bit_word_eqI) (auto simp: bit_simps min_def dest: hi)
  show "take_bit 12 (ucast f :: u64) = ucast f"
    using hi by (intro bit_word_eqI) (auto simp: bit_simps)
qed

lemma low_flags_or: "low_flags f \<Longrightarrow> low_flags g \<Longrightarrow> low_flags (f OR g)"
  by (simp add: low_flags_def take_bit_or)

lemma low_flags_consts:
  "low_flags PT_PAGE" "low_flags PT_ISH" "low_flags PT_AF" "low_flags PT_MEM" "low_flags PT_DEV"
  "low_flags PT_USER" "low_flags PT_KERNEL" "low_flags PT_RO" "low_flags PT_RW"
  by (simp_all add: low_flags_def PT_PAGE_def PT_ISH_def PT_AF_def PT_MEM_def PT_DEV_def
      PT_USER_def PT_KERNEL_def PT_RO_def PT_RW_def)

lemma page_descriptor_bits:
  assumes "low_flags flags"
  shows "bd_l3_oa (page_descriptor pa flags is_dev) = take_bit 36 (drop_bit 12 pa)"
    and "tf_is_valid (page_descriptor pa flags is_dev)"
proof -
  let ?f = "PT_PAGE OR PT_ISH OR flags"
  have low: "low_flags ?f" "low_flags (PT_MEM OR PT_AF)"
    using assms by (simp_all add: low_flags_or low_flags_consts)
  have hi: "\<not> bit (scast x :: u64) n" if "low_flags x" "12 \<le> n" for x n
    using scast_low [OF that(1)] that(2) by (metis bit_take_bit_iff not_le)
  have nx: "bit PT_NX n \<longleftrightarrow> n = 54" for n
    by (simp only: PT_NX_def bit_push_bit_iff) (auto simp: bit_1_iff)
  have "bd_l3_oa (page_descriptor pa flags is_dev) = bd_l3_oa (bd_l3 0 pa)"
    unfolding bd_l3_oa_def get_field_def page_descriptor_def
    using hi [OF low(1)] hi [OF low(2)] hi [OF low_flags_consts(3)] hi [OF low_flags_consts(5)]
    by (intro bit_word_eqI) (auto simp: bit_simps nx)
  then show "bd_l3_oa (page_descriptor pa flags is_dev) = take_bit 36 (drop_bit 12 pa)" by simp
  have "bit (page_descriptor pa flags is_dev) 0"
    by (simp add: page_descriptor_def bd_l3_def set_field_def bit_simps)
  then show "tf_is_valid (page_descriptor pa flags is_dev)"
    by (simp add: tf_is_valid_iff)
qed

lemma page_table_map_eq:
  "page_table_map t va pa flags is_dev w =
     (let g = (va - start_va t) div 0x40000000; k = (va - start_va t) div 0x200000;
          c0 = arr (va_PGD t) (VA_OFFSET_48_L0 va); c1 = arr (va_PUD t) (VA_OFFSET_48_L1 va);
          w = (if tf_is_valid (w c0) then w else w(c0 := tf_link (w c0) (PUD t)));
          w = (if tf_is_valid (w c1) then w else w(c1 := tf_link (w c1) (PMD t + g * 0x1000)));
          e2 = w (arr (va_PMD t) (VA_OFFSET_48_L2 va + g * 512));
          w = (if tf_is_valid e2 then w
               else w(arr (va_PMD t) (VA_OFFSET_48_L2 va + g * 512 div 0x1000) :=
                        tf_link e2 (PT3 t + k * 0x1000)))
      in Some (0, w(arr (va_PT3 t) (VA_OFFSET_48_L3 va + k * 512) := page_descriptor pa flags is_dev)))"
proof -
  have "\<not> 512 < VA_OFFSET_48_L0 va"
    using VA_OFFSET_lt(1) [of va] by auto
  then show ?thesis
    by (simp add: page_table_map_def page_descriptor_def Let_def divisors PAGE_SIZE_4KB_def)
qed

subsection \<open>Indexes within the first gigabyte\<close>

lemma aligned_sub_mod:
  fixes va start :: u64
  assumes "2 ^ n dvd unat start" "n \<le> 64"
  shows "unat va mod 2 ^ n = unat (va - start) mod 2 ^ n"
proof -
  have "(2::nat) ^ n dvd 2 ^ 64" using assms(2) by (rule le_imp_power_dvd)
  then have d: "(2::nat) ^ n dvd 18446744073709551616" by simp
  have "unat va = unat ((va - start) + start)" by simp
  also have "\<dots> = (unat (va - start) + unat start) mod 18446744073709551616"
    by (rule unat_plus_u64)
  finally have "unat va mod 2 ^ n = (unat (va - start) + unat start) mod 2 ^ n"
    using d by (simp only: mod_mod_cancel)
  also have "\<dots> = unat (va - start) mod 2 ^ n"
    using assms(1) by (metis mod_add_right_eq dvd_eq_mod_eq_0 add.right_neutral)
  finally show ?thesis .
qed

lemma aligned_add_nowrap:
  fixes start d :: u64
  assumes "2 ^ 39 dvd unat start" "unat d < 2 ^ 39"
  shows "unat (start + d) = unat start + unat d"
proof (rule unat_add_nowrap)
  obtain q where q: "unat start = 549755813888 * q" using assms(1) by auto
  with unat_less_2p64 [of start] have "q < 33554432" by simp
  then show "unat start + unat d < 18446744073709551616" using assms(2) q by simp
qed

text \<open>
  \<open>pt_page t va\<close> is the number of the page of \<open>va\<close>, counted from the start of the table set;
  \<open>pt_in_range t n va\<close> says that \<open>n\<close> level 3 tables cover it.
\<close>

definition pt_page :: "translation_tables \<Rightarrow> u64 \<Rightarrow> nat" where
  "pt_page t va = unat (va - start_va t) div 4096"

definition pt_in_range :: "translation_tables \<Rightarrow> nat \<Rightarrow> u64 \<Rightarrow> bool" where
  "pt_in_range t n va \<longleftrightarrow> pt_page t va < n * 512"

text \<open>The indexes that \<open>page_table_map\<close> computes, for at most 512 level 3 tables.\<close>

lemma pt_indexes:
  assumes al: "2 ^ 39 dvd unat (start_va t)" and n: "n \<le> 512" and r: "pt_in_range t n va"
  shows "VA_OFFSET_48_L0 va = VA_OFFSET_48_L0 (start_va t)"
    and "VA_OFFSET_48_L1 va = 0"
    and "VA_OFFSET_48_L2 va = of_nat (pt_page t va div 512)"
    and "(va - start_va t) div 0x40000000 = 0"
    and "(va - start_va t) div 0x200000 = of_nat (pt_page t va div 512)"
    and "VA_OFFSET_48_L3 va + (va - start_va t) div 0x200000 * 512 = of_nat (pt_page t va)"
proof -
  define d where "d = unat (va - start_va t)"
  have d: "d < 1073741824" using r n unfolding pt_in_range_def pt_page_def d_def by linarith
  have va: "unat va = unat (start_va t) + d"
    using aligned_add_nowrap [OF al, of "va - start_va t"] d by (simp add: d_def)
  obtain q where q: "unat (start_va t) = 549755813888 * q" using al by auto
  have pp: "pt_page t va = d div 4096" by (simp add: pt_page_def d_def)
  have U: "unat (of_nat k :: u64) = k" if "k \<le> d" for k
    using that d by (intro unat_of_nat_u64) simp
  have L0: "unat va div 2 ^ 39 = unat (start_va t) div 2 ^ 39"
    using d by (simp add: va q)
  show "VA_OFFSET_48_L0 va = VA_OFFSET_48_L0 (start_va t)"
    by (rule unat_eqI) (simp only: VA_OFFSET_unat L0)
  have "unat va div 2 ^ 30 mod 512 = 0"
  proof -
    have "unat va div 2 ^ 30 = 512 * q" using d by (simp add: va q)
    then show ?thesis by (metis mod_mult_self1_is_0)
  qed
  then show "VA_OFFSET_48_L1 va = 0" by (simp add: unat_eq_0 [symmetric] VA_OFFSET_unat)
  have L2: "unat va div 2 ^ 21 mod 512 = d div 2097152"
  proof -
    have "unat va div 2 ^ 21 = 512 * (512 * q) + d div 2097152" by (simp add: va q)
    moreover have "d div 2097152 < 512" using d by simp
    ultimately show ?thesis by (metis mod_mult_self4 mod_less)
  qed
  have dd: "d div 4096 div 512 = d div 2097152" by (simp add: div_mult2_eq [symmetric])
  show "VA_OFFSET_48_L2 va = of_nat (pt_page t va div 512)"
    by (rule unat_eqI) (simp add: VA_OFFSET_unat L2 [simplified] pp dd U)
  show "(va - start_va t) div 0x40000000 = 0"
    by (rule unat_eqI) (use d in \<open>simp add: unat_div d_def [symmetric]\<close>)
  show K: "(va - start_va t) div 0x200000 = of_nat (pt_page t va div 512)"
    by (rule unat_eqI) (simp add: unat_div d_def [symmetric] pp dd U)
  have "unat va div 2 ^ 12 mod 512 = d div 4096 mod 512"
  proof -
    have "unat va div 2 ^ 12 = 512 * (262144 * q) + d div 4096" by (simp add: va q)
    then show ?thesis by (metis mod_mult_self4)
  qed
  then have "VA_OFFSET_48_L3 va = of_nat (d div 4096 mod 512)"
    by (intro unat_eqI) (use d in \<open>simp add: VA_OFFSET_unat unat_of_nat_u64\<close>)
  then have "VA_OFFSET_48_L3 va + (va - start_va t) div 0x200000 * 512 =
      of_nat (d div 4096 mod 512 + d div 4096 div 512 * 512)"
    by (simp only: K pp of_nat_add of_nat_mult of_nat_numeral)
  then show "VA_OFFSET_48_L3 va + (va - start_va t) div 0x200000 * 512 = of_nat (pt_page t va)"
    by (simp only: mod_div_mult_eq pp)
qed

subsection \<open>Cells of a table set\<close>

datatype pt_slot = Slot0 | Slot1 | Slot2 nat | Slot3 nat

fun pt_cell :: "translation_tables \<Rightarrow> pt_slot \<Rightarrow> u64" where
  "pt_cell t Slot0 = arr (va_PGD t) (VA_OFFSET_48_L0 (start_va t))"
| "pt_cell t Slot1 = arr (va_PUD t) 0"
| "pt_cell t (Slot2 j) = arr (va_PMD t) (of_nat j)"
| "pt_cell t (Slot3 p) = arr (va_PT3 t) (of_nat p)"

definition pt_slots :: "nat \<Rightarrow> pt_slot set" where
  "pt_slots n = {Slot0, Slot1} \<union> Slot2 ` {..<n} \<union> Slot3 ` {..<n * 512}"

text \<open>
  \<open>pt_layout t n\<close>: the alignment of the mapped range, cells that do not overlap, and table
  addresses that fit the 36-bit field of a table descriptor.
\<close>

definition pt_layout :: "translation_tables \<Rightarrow> nat \<Rightarrow> bool" where
  "pt_layout t n \<longleftrightarrow> n \<le> 512 \<and> 2 ^ 39 dvd unat (start_va t) \<and> inj_on (pt_cell t) (pt_slots n) \<and>
     (\<forall>p \<in> {PUD t, PMD t} \<union> (\<lambda>j. PT3 t + of_nat j * 0x1000) ` {..<n}.
        push_bit 12 (take_bit 36 (drop_bit 12 p)) = p)"

text \<open>The entry of a cell that links a table: valid, marked as a table, with its frame number.\<close>

definition pt_links :: "u64 \<Rightarrow> u64 \<Rightarrow> bool" where
  "pt_links e pa \<longleftrightarrow> bit e 1 \<and> push_bit 12 (tf_next_level_table_address e) = pa"

definition pt_inv :: "translation_tables \<Rightarrow> nat \<Rightarrow> wordmem \<Rightarrow> bool" where
  "pt_inv t n w \<longleftrightarrow>
     (if tf_is_valid (w (pt_cell t Slot0)) then pt_links (w (pt_cell t Slot0)) (PUD t)
      else \<not> tf_is_valid (w (pt_cell t Slot1))) \<and>
     (if tf_is_valid (w (pt_cell t Slot1)) then pt_links (w (pt_cell t Slot1)) (PMD t)
      else \<forall>j < n. \<not> tf_is_valid (w (pt_cell t (Slot2 j)))) \<and>
     (\<forall>j < n. if tf_is_valid (w (pt_cell t (Slot2 j)))
              then pt_links (w (pt_cell t (Slot2 j))) (PT3 t + of_nat j * 0x1000)
              else \<forall>i < 512. \<not> tf_is_valid (w (pt_cell t (Slot3 (j * 512 + i)))))"

text \<open>
  The four-level walk: a descriptor is followed when its two low bits are 0b11, and the table at
  physical address \<open>p\<close> is read at the virtual address where the kernel has it mapped.
\<close>

definition pt_descend :: "u64 \<Rightarrow> u64 \<Rightarrow> u64 \<Rightarrow> u64 option" where
  "pt_descend e va_table pa_table =
     (if tf_is_valid e \<and> bit e 1
      then Some (va_table + (push_bit 12 (tf_next_level_table_address e) - pa_table)) else None)"

definition pt_walk :: "translation_tables \<Rightarrow> wordmem \<Rightarrow> u64 \<Rightarrow> u64 option" where
  "pt_walk t w va = do {
     pud \<leftarrow> pt_descend (w (arr (va_PGD t) (VA_OFFSET_48_L0 va))) (va_PUD t) (PUD t);
     pmd \<leftarrow> pt_descend (w (arr pud (VA_OFFSET_48_L1 va))) (va_PMD t) (PMD t);
     pt3 \<leftarrow> pt_descend (w (arr pmd (VA_OFFSET_48_L2 va))) (va_PT3 t) (PT3 t);
     let e = w (arr pt3 (VA_OFFSET_48_L3 va));
     if tf_is_valid e \<and> bit e 1 then Some e else None }"

end
