(* ===== verification/PageMap.thy ===== *)
theory PageMap
  imports PageWalk
begin

text \<open>
  Mapping a page is an update of the translation: \<open>page_table_map\<close> keeps \<open>pt_inv\<close> and changes
  the walk at the mapped page only. The effect is proved store by store: each of the three link
  steps, then the page descriptor.
\<close>

subsection \<open>Stores into the cells of a table set\<close>

lemma pt_upd:
  assumes "pt_layout t n" "s \<in> pt_slots n" "s' \<in> pt_slots n"
  shows "(w(pt_cell t s := x)) (pt_cell t s') = (if s' = s then x else w (pt_cell t s'))"
  using assms by (auto simp: pt_layout_def inj_on_def)

lemma slots [simp]:
  "Slot0 \<in> pt_slots n" "Slot1 \<in> pt_slots n"
  "Slot2 j \<in> pt_slots n \<longleftrightarrow> j < n" "Slot3 p \<in> pt_slots n \<longleftrightarrow> p < n * 512"
  by (auto simp: pt_slots_def)

lemma slot3_lt: "j < n \<Longrightarrow> i < 512 \<Longrightarrow> j * 512 + i < n * (512::nat)"
proof -
  assume "j < n" "i < 512"
  then have "Suc j * 512 \<le> n * 512" by (intro mult_le_mono1) simp
  then show ?thesis using \<open>i < 512\<close> by simp
qed

definition pt_link_step :: "u64 \<Rightarrow> u64 \<Rightarrow> wordmem \<Rightarrow> wordmem" where
  "pt_link_step c pa w = (if tf_is_valid (w c) then w else w(c := tf_link (w c) pa))"

lemma tf_link_bit1 [simp]: "bit (tf_link r pa) (Suc 0)"
  by (simp add: tf_link_def set_field_def bit_simps)

lemma pt_links_tf_link: "push_bit 12 (take_bit 36 (drop_bit 12 pa)) = pa \<Longrightarrow> pt_links (tf_link r pa) pa"
  by (simp add: pt_links_def)

lemma pt_layout_links:
  assumes "pt_layout t n"
  shows "pt_links (tf_link r (PUD t)) (PUD t)" "pt_links (tf_link r (PMD t)) (PMD t)"
    "j < n \<Longrightarrow> pt_links (tf_link r (PT3 t + of_nat j * 0x1000)) (PT3 t + of_nat j * 0x1000)"
  using assms by (auto simp: pt_layout_def intro!: pt_links_tf_link)

lemma page_descriptor_bit1: "bit (page_descriptor pa flags is_dev) 1"
proof -
  have "bit PT_PAGE (Suc 0)" by (simp add: PT_PAGE_def)
  then have "bit (scast (PT_PAGE OR PT_ISH OR flags) :: u64) 1"
    by (simp add: bit_simps)
  then show ?thesis by (simp add: page_descriptor_def bit_simps)
qed

text \<open>\<open>page_table_map\<close> in range: three link steps and one store.\<close>

lemma page_table_map_in_range:
  assumes "pt_layout t n" and "pt_in_range t n va"
  shows "page_table_map t va pa flags is_dev w =
     (let j = pt_page t va div 512;
          w = pt_link_step (pt_cell t Slot0) (PUD t) w;
          w = pt_link_step (pt_cell t Slot1) (PMD t) w;
          w = pt_link_step (pt_cell t (Slot2 j)) (PT3 t + of_nat j * 0x1000) w
      in Some (0, w(pt_cell t (Slot3 (pt_page t va)) := page_descriptor pa flags is_dev)))"
proof -
  have "2 ^ 39 dvd unat (start_va t)" "n \<le> 512" using assms(1) by (simp_all add: pt_layout_def)
  note I = pt_indexes [OF this assms(2)]
  show ?thesis
    unfolding page_table_map_eq I(1,2,4)
    by (simp add: I(3,6) I(5) [symmetric] pt_link_step_def Let_def)
qed

subsection \<open>The invariant under each store\<close>

lemma pt_inv_link0:
  assumes L: "pt_layout t n" and I: "pt_inv t n w"
  defines "w' \<equiv> pt_link_step (pt_cell t Slot0) (PUD t) w"
  shows "pt_inv t n w'" "tf_is_valid (w' (pt_cell t Slot0))"
    "s \<in> pt_slots n \<Longrightarrow> s \<noteq> Slot0 \<Longrightarrow> w' (pt_cell t s) = w (pt_cell t s)"
  unfolding w'_def
  using I by (auto simp: pt_link_step_def pt_inv_def pt_upd [OF L] pt_layout_links [OF L]
      slot3_lt simp del: fun_upd_apply pt_cell.simps)

lemma pt_inv_link1:
  assumes L: "pt_layout t n" and I: "pt_inv t n w" and "tf_is_valid (w (pt_cell t Slot0))"
  defines "w' \<equiv> pt_link_step (pt_cell t Slot1) (PMD t) w"
  shows "pt_inv t n w'" "tf_is_valid (w' (pt_cell t Slot1))"
    "s \<in> pt_slots n \<Longrightarrow> s \<noteq> Slot1 \<Longrightarrow> w' (pt_cell t s) = w (pt_cell t s)"
  unfolding w'_def
  using I assms(3) by (auto simp: pt_link_step_def pt_inv_def pt_upd [OF L] pt_layout_links [OF L]
      slot3_lt simp del: fun_upd_apply pt_cell.simps)

lemma pt_inv_link2:
  assumes L: "pt_layout t n" and I: "pt_inv t n w" and "tf_is_valid (w (pt_cell t Slot1))"
    and j: "j < n"
  defines "w' \<equiv> pt_link_step (pt_cell t (Slot2 j)) (PT3 t + of_nat j * 0x1000) w"
  shows "pt_inv t n w'" "tf_is_valid (w' (pt_cell t (Slot2 j)))"
    "s \<in> pt_slots n \<Longrightarrow> s \<noteq> Slot2 j \<Longrightarrow> w' (pt_cell t s) = w (pt_cell t s)"
  unfolding w'_def
  using I assms(3) j by (auto simp: pt_link_step_def pt_inv_def pt_upd [OF L] pt_layout_links [OF L]
      slot3_lt split: if_splits simp del: fun_upd_apply pt_cell.simps)

lemma pt_inv_store3:
  assumes L: "pt_layout t n" and I: "pt_inv t n w" and p: "p < n * 512"
    and "tf_is_valid (w (pt_cell t (Slot2 (p div 512))))"
  shows "pt_inv t n (w(pt_cell t (Slot3 p) := e))"
proof -
  have "j * 512 + i \<noteq> p" if "i < 512" "j \<noteq> p div 512" for i j using that by auto
  then show ?thesis
    using I assms(4) p by (auto simp: pt_inv_def pt_upd [OF L] slot3_lt
        simp del: fun_upd_apply pt_cell.simps)
qed

text \<open>Under the invariant the walk of a page in range reads its level 3 cell.\<close>

lemma pt_walk_in_range:
  assumes L: "pt_layout t n" and I: "pt_inv t n w" and r: "pt_in_range t n va"
  defines "e \<equiv> w (pt_cell t (Slot3 (pt_page t va)))"
  shows "pt_walk t w va = (if tf_is_valid e \<and> bit e 1 then Some e else None)"
proof -
  define j where "j = pt_page t va div 512"
  define i where "i = pt_page t va mod 512"
  have n: "2 ^ 39 dvd unat (start_va t)" "n \<le> 512" using L by (simp_all add: pt_layout_def)
  note X = pt_indexes [OF n r]
  have j: "j < n" using r by (simp add: j_def pt_in_range_def less_mult_imp_div_less)
  have i: "i < 512" "pt_page t va = j * 512 + i" by (simp_all add: i_def j_def)
  have cell3: "arr (va_PT3 t + of_nat j * 0x1000) (VA_OFFSET_48_L3 va) =
      pt_cell t (Slot3 (pt_page t va))"
  proof -
    have k: "(va - start_va t) div 0x200000 = of_nat j" using X(5) by (simp add: j_def)
    show ?thesis unfolding pt_cell.simps X(6) [symmetric] k by (simp add: arr_def algebra_simps)
  qed
  let ?e0 = "w (pt_cell t Slot0)" and ?e1 = "w (pt_cell t Slot1)" and ?e2 = "w (pt_cell t (Slot2 j))"
  have D0: "pt_descend ?e0 (va_PUD t) (PUD t) = (if tf_is_valid ?e0 then Some (va_PUD t) else None)"
    and D1: "pt_descend ?e1 (va_PMD t) (PMD t) = (if tf_is_valid ?e1 then Some (va_PMD t) else None)"
    and D2: "pt_descend ?e2 (va_PT3 t) (PT3 t) =
      (if tf_is_valid ?e2 then Some (va_PT3 t + of_nat j * 0x1000) else None)"
    using I j by (auto simp: pt_inv_def pt_descend_def pt_links_def)
  have up: "tf_is_valid ?e0 \<and> tf_is_valid ?e1 \<and> tf_is_valid ?e2" if "tf_is_valid e"
    using I j i that by (auto simp: pt_inv_def e_def split: if_splits)
  show ?thesis
    using up D0 D1 D2
    by (auto simp: pt_walk_def X(1,2) X(3) [folded j_def] cell3 e_def [symmetric] Let_def
        simp flip: pt_cell.simps)
qed

text \<open>The walk and the invariant of a table set only read its cells.\<close>

lemma pt_inv_cong:
  assumes "\<forall>sl \<in> pt_slots n. w' (pt_cell t sl) = w (pt_cell t sl)"
  shows "pt_inv t n w' = pt_inv t n w"
proof -
  have "w' (pt_cell t Slot0) = w (pt_cell t Slot0)" "w' (pt_cell t Slot1) = w (pt_cell t Slot1)"
    "\<forall>j < n. w' (pt_cell t (Slot2 j)) = w (pt_cell t (Slot2 j))"
    "\<forall>j < n. \<forall>i < 512. w' (pt_cell t (Slot3 (j * 512 + i))) = w (pt_cell t (Slot3 (j * 512 + i)))"
    using assms slot3_lt by (auto simp: pt_slots_def simp del: pt_cell.simps)
  then show ?thesis unfolding pt_inv_def by (simp del: pt_cell.simps)
qed

lemma pt_walk_cong:
  assumes L: "pt_layout t n" and I: "pt_inv t n w" and same: "\<forall>sl \<in> pt_slots n. w' (pt_cell t sl) = w (pt_cell t sl)"
    and r: "pt_in_range t n va"
  shows "pt_walk t w' va = pt_walk t w va"
proof -
  have "w' (pt_cell t (Slot3 (pt_page t va))) = w (pt_cell t (Slot3 (pt_page t va)))"
    using same r by (simp add: pt_in_range_def del: pt_cell.simps)
  then show ?thesis
    using pt_walk_in_range [OF L I r] pt_walk_in_range [OF L _ r, of w'] pt_inv_cong [OF same] I by simp
qed

lemma page_table_map_walk:
  assumes "pt_layout t n" and "pt_inv t n w" and "pt_in_range t n va" and "low_flags flags"
  shows "\<exists>w'. page_table_map t va pa flags is_dev w = Some (0, w') \<and> pt_inv t n w' \<and>
     bd_l3_oa (page_descriptor pa flags is_dev) = take_bit 36 (drop_bit 12 pa) \<and>
     (\<forall>va'. pt_in_range t n va' \<longrightarrow>
        pt_walk t w' va' = (if pt_page t va' = pt_page t va
                            then Some (page_descriptor pa flags is_dev) else pt_walk t w va'))"
proof -
  note L = assms(1)
  define p where "p = pt_page t va"
  define j where "j = p div 512"
  have p: "p < n * 512" using assms(3) by (simp add: p_def pt_in_range_def)
  then have j: "j < n" by (simp add: j_def less_mult_imp_div_less)
  define w1 where "w1 = pt_link_step (pt_cell t Slot0) (PUD t) w"
  define w2 where "w2 = pt_link_step (pt_cell t Slot1) (PMD t) w1"
  define w3 where "w3 = pt_link_step (pt_cell t (Slot2 j)) (PT3 t + of_nat j * 0x1000) w2"
  define w4 where "w4 = w3(pt_cell t (Slot3 p) := page_descriptor pa flags is_dev)"
  note A = pt_inv_link0 [OF L assms(2), folded w1_def]
  note B = pt_inv_link1 [OF L A(1,2), folded w2_def]
  note C = pt_inv_link2 [OF L B(1,2) j, folded w3_def]
  have inv4: "pt_inv t n w4"
    unfolding w4_def by (rule pt_inv_store3 [OF L C(1) p C(2) [unfolded j_def]])
  have cell: "w4 (pt_cell t (Slot3 p')) =
      (if p' = p then page_descriptor pa flags is_dev else w (pt_cell t (Slot3 p')))"
    if "p' < n * 512" for p'
    using that p A(3) B(3) C(3) by (simp add: w4_def pt_upd [OF L] del: fun_upd_apply pt_cell.simps)
  have "pt_walk t w4 va' = (if pt_page t va' = p
      then Some (page_descriptor pa flags is_dev) else pt_walk t w va')" if "pt_in_range t n va'" for va'
    using that page_descriptor_bits(2) [OF assms(4)] page_descriptor_bit1
    by (simp add: pt_walk_in_range [OF L inv4 that] pt_walk_in_range [OF L assms(2) that] cell
        pt_in_range_def del: pt_cell.simps)
  moreover have "page_table_map t va pa flags is_dev w = Some (0, w4)"
    by (simp add: page_table_map_in_range [OF L assms(3)] Let_def p_def [symmetric]
        j_def [symmetric] w1_def [symmetric] w2_def [symmetric] w3_def [symmetric]
        w4_def [symmetric] del: pt_cell.simps)
  ultimately show ?thesis
    using inv4 page_descriptor_bits(1) [OF assms(4)] by (auto simp: p_def)
qed

text \<open>Nothing outside the cells of the table set is written.\<close>

lemma page_table_map_frame:
  assumes L: "pt_layout t n" and r: "pt_in_range t n va"
    and m: "page_table_map t va pa flags is_dev w = Some (i, w')" and x: "x \<notin> pt_cell t ` pt_slots n"
  shows "w' x = w x"
proof -
  have p: "pt_page t va < n * 512" using r by (simp add: pt_in_range_def)
  have sl: "Slot0 \<in> pt_slots n" "Slot1 \<in> pt_slots n" "Slot2 (pt_page t va div 512) \<in> pt_slots n"
    "Slot3 (pt_page t va) \<in> pt_slots n"
    using p by (simp_all add: less_mult_imp_div_less)
  have "pt_link_step (pt_cell t sl) pa w x = w x" if "sl \<in> pt_slots n" for sl pa and w :: wordmem
    using that x by (auto simp: pt_link_step_def)
  then show ?thesis
    using m sl x unfolding page_table_map_in_range [OF L r] Let_def by (auto simp: fun_upd_apply simp del: pt_cell.simps)
qed

text \<open>C2. For a table set laid out without overlap and linked as the invariant says, and a page that
  its level 3 tables cover, \<open>page_table_map\<close> returns 0, keeps the invariant, and makes the
  four-level walk yield the new descriptor (with the given physical frame) for the addresses of
  that page; the translation of every other page of the set is what it was.\<close>

theorem page_table_map_updates_walk:
  assumes "pt_layout t n" and "pt_inv t n w" and "pt_in_range t n va" and "low_flags flags"
  shows "\<exists>w'. page_table_map t va pa flags is_dev w = Some (0, w') \<and> pt_inv t n w' \<and>
     bd_l3_oa (page_descriptor pa flags is_dev) = take_bit 36 (drop_bit 12 pa) \<and>
     (\<forall>va'. pt_in_range t n va' \<longrightarrow>
        pt_walk t w' va' = (if pt_page t va' = pt_page t va
                            then Some (page_descriptor pa flags is_dev) else pt_walk t w va'))"
  using assms by (rule page_table_map_walk)

subsection \<open>A table set in consecutive pages\<close>

text \<open>
  The layout that \<open>create_user_translation_table\<close> builds: the four levels mapped one after the
  other, one page each for the first three.
\<close>

fun pt_slot_offset :: "nat \<Rightarrow> u64 \<Rightarrow> pt_slot \<Rightarrow> nat" where
  "pt_slot_offset d va Slot0 = 8 * unat (VA_OFFSET_48_L0 va)"
| "pt_slot_offset d va Slot1 = 4096"
| "pt_slot_offset d va (Slot2 j) = 8192 + 8 * j"
| "pt_slot_offset d va (Slot3 p) = d + 8 * p"

lemma pt_layout_apart:
  assumes n: "n \<le> 512" and al: "2 ^ 39 dvd unat (start_va t)"
    and V: "va_PUD t = va_PGD t + 0x1000" "va_PMD t = va_PGD t + 0x2000" "va_PT3 t = va_PGD t + of_nat d"
    and d: "12288 \<le> d"
    and top: "unat (va_PGD t) + d + n * 4096 < 18446744073709551616"
    and P: "\<forall>p \<in> {PUD t, PMD t} \<union> (\<lambda>j. PT3 t + of_nat j * 0x1000) ` {..<n}.
        push_bit 12 (take_bit 36 (drop_bit 12 p)) = p"
  shows "pt_layout t n"
proof -
  let ?o = "pt_slot_offset d (start_va t)"
  have L0: "unat (VA_OFFSET_48_L0 (start_va t)) < 512" by (simp add: VA_OFFSET_unat)
  have cell: "unat (pt_cell t s) = unat (va_PGD t) + ?o s" if s: "s \<in> pt_slots n" for s
  proof -
    have o: "?o s < d + n * 4096"
      using s n L0 d by (cases s) (auto simp: pt_slots_def)
    have "pt_cell t s = va_PGD t + of_nat (?o s)"
      by (cases s) (simp_all add: arr_def V)
    moreover have "unat (of_nat (?o s) :: u64) = ?o s"
      by (rule unat_of_nat_u64 [OF order.strict_trans2 [OF o]]) (use top in simp)
    ultimately show ?thesis using o top by (simp add: unat_add_nowrap)
  qed
  have "inj_on ?o (pt_slots n)"
    using L0 n d unfolding inj_on_def pt_slots_def by auto
  then have "inj_on (pt_cell t) (pt_slots n)"
    unfolding inj_on_def by (metis cell add_left_cancel)
  with n al P show ?thesis by (simp add: pt_layout_def)
qed

lemma pt_layout_contiguous:
  assumes n: "n \<le> 512" and al: "2 ^ 39 dvd unat (start_va t)"
    and V: "va_PUD t = va_PGD t + 0x1000" "va_PMD t = va_PGD t + 0x2000" "va_PT3 t = va_PGD t + 0x3000"
    and top: "unat (va_PGD t) + (3 + n) * 4096 < 18446744073709551616"
    and P: "\<forall>p \<in> {PUD t, PMD t} \<union> (\<lambda>j. PT3 t + of_nat j * 0x1000) ` {..<n}.
        push_bit 12 (take_bit 36 (drop_bit 12 p)) = p"
  shows "pt_layout t n"
  by (rule pt_layout_apart [OF n al V(1,2), of 12288]) (use V(3) top P in simp_all)

text \<open>An example: a fresh user table set, four level 3 tables, all cells zero.\<close>

definition ex_tt :: translation_tables where
  "ex_tt = \<lparr>PGD = 0x50000000, PUD = 0x50001000, PMD = 0x50002000, PT3 = 0x50003000, start_va = 0,
     start_pa = 0, tt_length = 0, tt_flags = 0, va_PGD = 0xFFFFF00001000000,
     va_PUD = 0xFFFFF00001001000, va_PMD = 0xFFFFF00001002000, va_PT3 = 0xFFFFF00001003000\<rparr>"

lemma ex_tt_layout: "pt_layout ex_tt 4"
proof (rule pt_layout_contiguous)
  have "{..<4::nat} = {0, 1, 2, 3}" by auto
  then show "\<forall>p \<in> {PUD ex_tt, PMD ex_tt} \<union> (\<lambda>j. PT3 ex_tt + of_nat j * 0x1000) ` {..<4}.
      push_bit 12 (take_bit 36 (drop_bit 12 p)) = p"
    by (simp add: ex_tt_def)
qed (simp_all add: ex_tt_def)

lemma zero_not_valid [simp]: "\<not> tf_is_valid 0"
  by (simp add: tf_is_valid_iff)

lemma pt_inv_zero: "pt_inv t n (\<lambda>_. 0)"
  by (simp add: pt_inv_def)

theorem page_table_map_updates_walk_witness:
  "\<exists>w'. page_table_map ex_tt 0x7FE000 0x51234000 (perm_to_pt PROT_RW OR PT_USER) 0 (\<lambda>_. 0) = Some (0, w') \<and>
     pt_inv ex_tt 4 w' \<and>
     bd_l3_oa (page_descriptor 0x51234000 (perm_to_pt PROT_RW OR PT_USER) 0) =
       take_bit 36 (drop_bit 12 0x51234000) \<and>
     (\<forall>va'. pt_in_range ex_tt 4 va' \<longrightarrow>
        pt_walk ex_tt w' va' = (if pt_page ex_tt va' = pt_page ex_tt 0x7FE000
          then Some (page_descriptor 0x51234000 (perm_to_pt PROT_RW OR PT_USER) 0)
          else pt_walk ex_tt (\<lambda>_. 0) va'))"
proof (rule page_table_map_updates_walk [OF ex_tt_layout pt_inv_zero])
  show "pt_in_range ex_tt 4 0x7FE000" by (simp add: pt_in_range_def pt_page_def ex_tt_def)
  show "low_flags (perm_to_pt PROT_RW OR PT_USER)"
    by (simp add: perm_to_pt_def PROT_RW_def PROT_R_def PROT_W_def PROT_X_def PT_RW_def PT_USER_def
        PT_NX_def low_flags_def)
qed

subsection \<open>Permissions\<close>

lemma perm_to_pt_value:
  "perm_to_pt prot = (if PROT_W AND prot \<noteq> 0 then 0 else if PROT_R AND prot \<noteq> 0 then PT_RO else 0)"
proof -
  have nx: "(ucast ((scast (0::c_int) :: u64) OR PT_NX) :: c_int) = 0"
    by (simp add: PT_NX_def)
  have "PROT_W AND PROT_RW \<noteq> 0" "PROT_W AND PROT_RWX \<noteq> 0"
    by (simp_all add: PROT_RW_def PROT_RWX_def PROT_R_def PROT_W_def PROT_X_def)
  then show ?thesis
    using nx by (auto simp: perm_to_pt_def Let_def PT_RW_def)
qed

lemma perm_to_pt_low: "low_flags (perm_to_pt prot)"
  by (simp add: perm_to_pt_value low_flags_consts) (simp add: low_flags_def)

text \<open>No mapping of memory is ever execute-never: \<open>perm_to_pt\<close> converts its 64-bit execute-never
  flag to an \<open>int\<close>, which drops it, so the page descriptor that \<open>page_table_map_user\<close> and
  \<open>page_table_map_kernel\<close> store for a page without \<open>PROT_X\<close> is the one they store with it, and
  its bit 54 is clear.\<close>

lemma perm_execute_ignored:
  "perm_to_pt (prot OR PROT_X) = perm_to_pt prot \<and>
   page_table_map_user t va pa (prot OR PROT_X) w = page_table_map_user t va pa prot w \<and>
   page_table_map_kernel t va pa (prot OR PROT_X) w = page_table_map_kernel t va pa prot w \<and>
   \<not> bit (page_descriptor 0 (perm_to_pt prot OR PT_USER) 0) 54"
proof -
  have W: "PROT_W AND (prot OR PROT_X) = PROT_W AND prot" "PROT_R AND (prot OR PROT_X) = PROT_R AND prot"
    by (simp_all add: bit.conj_disj_distrib PROT_W_def PROT_R_def PROT_X_def)
  have eq: "perm_to_pt (prot OR PROT_X) = perm_to_pt prot"
    by (simp add: perm_to_pt_value W)
  have low: "\<not> bit (scast x :: u64) 54" if "low_flags x" for x
  proof -
    have "bit (scast x :: u64) 54 = bit (take_bit 12 (ucast x :: u64)) 54"
      using scast_low [OF that] by simp
    then show ?thesis by (simp add: bit_take_bit_iff)
  qed
  have "low_flags (PT_PAGE OR PT_ISH OR (perm_to_pt prot OR PT_USER))" "low_flags (PT_MEM OR PT_AF)"
    by (intro low_flags_or low_flags_consts perm_to_pt_low)+
  from low [OF this(1)] low [OF this(2)]
  have "\<not> bit (page_descriptor 0 (perm_to_pt prot OR PT_USER) 0) 54"
    by (simp add: page_descriptor_def bd_l3_def set_field_def bit_simps BD_OA_l3_get_def)
  then show ?thesis
    by (simp add: eq page_table_map_user_def page_table_map_kernel_def)
qed

end
