(* ===== verification/PageBoot.thy ===== *)
theory PageBoot
  imports PageMap
begin

text \<open>
  The boot-time linear mapping of \<open>normal_map_kernel_4KB\<close>, followed loop by loop, and what
  \<open>page_table_map\<close> does beyond the first gigabyte of a table set.
\<close>

subsection \<open>The link loop and the page loop\<close>

definition boot_descriptor :: "u64 \<Rightarrow> u64" where
  "boot_descriptor pa = bd_l3 0 pa OR boot_page_flags"

lemma boot_page_flags_value: "boot_page_flags = 0x703"
  by (simp add: boot_page_flags_def PT_PAGE_def PT_KERNEL_def PT_RW_def PT_ISH_def PT_AF_def PT_MEM_def)

lemma boot_descriptor_again:
  "bd_l3 (boot_descriptor p) p' OR boot_page_flags = boot_descriptor p'"
  unfolding boot_descriptor_def boot_page_flags_value bd_l3_def BD_OA_l3 set_field_def
  by (rule bit_word_eqI) (auto simp: bit_simps)

lemma boot_descriptor_bits:
  "tf_is_valid (boot_descriptor pa)" "bit (boot_descriptor pa) (Suc 0)"
  "bd_l3_oa (boot_descriptor pa) = take_bit 36 (drop_bit 12 pa)"
proof -
  have "take_bit 12 (0x703::u64) = 0x703" by simp
  then have f: "\<not> bit (0x703::u64) n" if "12 \<le> n" for n
    using that by (metis bit_take_bit_iff not_less)
  show "tf_is_valid (boot_descriptor pa)"
    by (simp add: tf_is_valid_iff boot_descriptor_def boot_page_flags_value bit_simps)
  show "bit (boot_descriptor pa) (Suc 0)"
    by (simp add: boot_descriptor_def boot_page_flags_value bit_simps)
  have "bd_l3_oa (boot_descriptor pa) = bd_l3_oa (bd_l3 0 pa)"
    unfolding bd_l3_oa_def get_field_def boot_descriptor_def boot_page_flags_value
    by (rule bit_word_eqI) (auto simp: bit_simps f)
  then show "bd_l3_oa (boot_descriptor pa) = take_bit 36 (drop_bit 12 pa)" by simp
qed


text \<open>
  What a linear mapping needs: \<open>n\<close> level 3 tables, enough for it, which starts at a boundary of 2 MB and
  does not leave its gigabyte. \<open>boot_off\<close> is the place of its first entry in the level 2 table.
\<close>

definition boot_off :: "translation_tables \<Rightarrow> nat" where
  "boot_off t = unat (start_va t) div 0x200000 mod 512"

definition boot_ok :: "translation_tables \<Rightarrow> nat \<Rightarrow> bool" where
  "boot_ok t n \<longleftrightarrow> 0x200000 dvd unat (start_va t) \<and> boot_off t + n \<le> 512"

lemma boot_okD: "boot_ok t n \<Longrightarrow> boot_off t + n \<le> 512"
  by (simp add: boot_ok_def)

lemma boot_ok_512: "boot_ok t n \<Longrightarrow> n \<le> 512"
  by (simp add: boot_ok_def)

lemma boot_indexes:
  assumes B: "boot_ok t n" and k: "k < n * 512"
  defines "va \<equiv> start_va t + of_nat k * 0x1000"
  shows "VA_OFFSET_48_L0 va = VA_OFFSET_48_L0 (start_va t)" "VA_OFFSET_48_L1 va = VA_OFFSET_48_L1 (start_va t)"
    and "VA_OFFSET_48_L2 va = of_nat (boot_off t + k div 512)" "VA_OFFSET_48_L3 va = of_nat (k mod 512)"
proof -
  define q where "q = unat (start_va t) div 0x40000000"
  define b where "b = boot_off t"
  have b: "b + n \<le> 512" using boot_okD [OF B] by (simp add: b_def)
  have s: "unat (start_va t) = 1073741824 * q + 2097152 * b"
  proof -
    obtain c where c: "unat (start_va t) = 2097152 * c" using B by (auto simp: boot_ok_def)
    then have "b = c mod 512" "q = c div 512" by (simp_all add: b_def boot_off_def q_def)
    moreover have "c = 512 * (c div 512) + c mod 512" by simp
    ultimately show ?thesis using c by linarith
  qed
  have q: "q < 17179869184" using unat_less_2p64 [of "start_va t"] by (simp add: q_def less_mult_imp_div_less)
  have d: "4096 * k < 2097152 * n" "k < 512 * n" using k by simp_all
  have "unat va = unat (start_va t) + 4096 * k"
  proof -
    have "unat (of_nat k * 0x1000 :: u64) = 4096 * k"
      using unat_of_nat_u64 [of "4096 * k"] d b by (simp add: mult.commute)
    then show ?thesis
      unfolding va_def by (subst unat_add_nowrap) (use s q d b in simp_all)
  qed
  then have va: "unat va = 1073741824 * q + (2097152 * b + 4096 * k)" by (simp add: s)
  have l: "2097152 * b + 4096 * k < 1073741824" "2097152 * b < 1073741824" using b d by simp_all
  have e1: "unat va div 1073741824 = q" "unat (start_va t) div 1073741824 = q"
    using l by (simp_all add: va s)
  have e0: "unat va div 549755813888 = q div 512" "unat (start_va t) div 549755813888 = q div 512"
    using div_mult2_eq [of _ 1073741824 512] e1 by simp_all
  show "VA_OFFSET_48_L0 va = VA_OFFSET_48_L0 (start_va t)" "VA_OFFSET_48_L1 va = VA_OFFSET_48_L1 (start_va t)"
    by (rule unat_eqI, simp add: VA_OFFSET_unat e0 e1)+
  have "unat va div 2097152 = 512 * q + (b + k div 512)"
  proof -
    have "unat va div 4096 = 512 * (512 * q + b) + k" by (simp add: va)
    then have "unat va div 4096 div 512 = 512 * q + b + k div 512" by simp
    then show ?thesis by (simp add: div_mult2_eq [symmetric])
  qed
  moreover have kb: "b + k div 512 < 512" using b d by (simp add: less_mult_imp_div_less)
  ultimately have "unat va div 2097152 mod 512 = b + k div 512" by (metis mod_mult_self4 mod_less)
  moreover have "unat va div 4096 mod 512 = k mod 512"
  proof -
    have "unat va div 4096 = 512 * (512 * q + b) + k" by (simp add: va)
    then show ?thesis by (metis mod_mult_self4)
  qed
  ultimately show "VA_OFFSET_48_L2 va = of_nat (boot_off t + k div 512)" "VA_OFFSET_48_L3 va = of_nat (k mod 512)"
    using kb by (auto intro!: unat_eqI simp: VA_OFFSET_unat b_def [symmetric] unat_of_nat_u64 simp del: of_nat_add)
qed

lemma boot_in_range:
  "n \<le> 512 \<Longrightarrow> k < n * 512 \<Longrightarrow> pt_page t (start_va t + of_nat k * 0x1000) = k"
proof -
  assume "n \<le> 512" "k < n * 512"
  then have "k * 4096 < 18446744073709551616" by simp
  then have "unat (of_nat (k * 4096) :: u64) = k * 4096" by (rule unat_of_nat_u64)
  then show ?thesis by (simp add: pt_page_def)
qed

lemma boot_slot2:
  assumes B: "boot_ok t n" and "i < n"
  shows "VA_OFFSET_48_L2 (start_va t + of_nat i * 0x200000) = of_nat (boot_off t + i)"
  using boot_indexes(3) [OF B, of "i * 512"] assms by (simp add: mult.commute)

lemmas boot_slot3 = boot_indexes(4)

text \<open>After \<open>i\<close> rounds of the link loop the first \<open>i\<close> cells of the PMD are linked.\<close>

definition nm_links :: "translation_tables \<Rightarrow> nat \<Rightarrow> wordmem \<Rightarrow> u64 \<Rightarrow> wordmem \<Rightarrow> bool" where
  "nm_links t i w va w' \<longleftrightarrow> va = start_va t + of_nat i * 0x200000 \<and>
     (\<forall>j < i. \<exists>r. w' (arr (PMD t) (of_nat (boot_off t + j))) = tf_link r (PT3 t + of_nat j * 0x1000)) \<and>
     (\<forall>a. (\<forall>j < i. a \<noteq> arr (PMD t) (of_nat (boot_off t + j))) \<longrightarrow> w' a = w a)"

lemma arr_nat_inj: "i < 512 \<Longrightarrow> j < 512 \<Longrightarrow> arr b (of_nat i) = arr b (of_nat j) \<longleftrightarrow> i = j"
proof -
  assume ij: "i < 512" "j < 512"
  have "arr b (of_nat i) = arr b (of_nat j) \<longleftrightarrow> (of_nat (8 * i) :: u64) = of_nat (8 * j)"
    by (simp add: arr_def)
  also have "\<dots> \<longleftrightarrow> 8 * i = 8 * j"
    using ij by (intro of_nat_eq_u64_iff) simp_all
  finally show ?thesis by simp
qed

lemma nm_link_loop:
  assumes B: "boot_ok t n" and "i \<le> n"
  shows "\<exists>e va w'. fold (\<lambda>k. nm_link_pmd t (of_nat k)) [0..<i] (0, start_va t, w) = (e, va, w') \<and>
           nm_links t i w va w'"
  using assms(2)
proof (induction i)
  case 0
  then show ?case by (simp add: nm_links_def)
next
  case (Suc i)
  then obtain e va w' where F: "fold (\<lambda>k. nm_link_pmd t (of_nat k)) [0..<i] (0, start_va t, w) = (e, va, w')"
    and I: "nm_links t i w va w'" by auto
  have va: "va = start_va t + of_nat i * 0x200000" using I by (simp add: nm_links_def)
  have o: "VA_OFFSET_48_L2 va = of_nat (boot_off t + i)" unfolding va by (rule boot_slot2 [OF B]) (use Suc in simp)
  have pa: "PT3 t + 8 * (of_nat i * 512) = PT3 t + of_nat i * 0x1000" by simp
  let ?w = "w'(arr (PMD t) (of_nat (boot_off t + i)) := tf_link e (PT3 t + of_nat i * 0x1000))"
  have step: "nm_link_pmd t (of_nat i) (e, va, w') =
      (tf_link e (PT3 t + of_nat i * 0x1000), start_va t + of_nat (Suc i) * 0x200000, ?w)"
    by (simp only: nm_link_pmd_def split_conv Let_def o pa) (simp add: va algebra_simps)
  have "nm_links t (Suc i) w (start_va t + of_nat (Suc i) * 0x200000) ?w"
    using I Suc.prems boot_okD [OF B] unfolding nm_links_def
    by (auto simp: less_Suc_eq arr_nat_inj simp del: of_nat_add)
  then show ?case by (simp add: F step)
qed

text \<open>After \<open>k\<close> rounds of the page loop the first \<open>k\<close> cells of the level 3 tables are written.\<close>

definition nm_pages :: "translation_tables \<Rightarrow> nat \<Rightarrow> wordmem \<Rightarrow> u64 \<times> u64 \<times> u64 \<times> u64 \<times> wordmem \<Rightarrow> bool" where
  "nm_pages t k w = (\<lambda>(e, va, pa, count, w').
     va = start_va t + of_nat k * 0x1000 \<and> pa = start_pa t + of_nat k * 0x1000 \<and>
     count = of_nat (k div 512 * 512) \<and> (e = 0 \<or> (\<exists>p. e = boot_descriptor p)) \<and>
     (\<forall>j < k. w' (arr (PT3 t) (of_nat j)) = boot_descriptor (start_pa t + of_nat j * 0x1000)) \<and>
     (\<forall>a. (\<forall>j < k. a \<noteq> arr (PT3 t) (of_nat j)) \<longrightarrow> w' a = w a))"

lemma arr_nat_inj3:
  "n \<le> 512 \<Longrightarrow> i < n * 512 \<Longrightarrow> j < n * 512 \<Longrightarrow> arr b (of_nat i) = arr b (of_nat j) \<longleftrightarrow> i = j"
proof -
  assume n: "n \<le> 512" and ij: "i < n * 512" "j < n * 512"
  have "arr b (of_nat i) = arr b (of_nat j) \<longleftrightarrow> (of_nat (8 * i) :: u64) = of_nat (8 * j)"
    by (simp add: arr_def)
  also have "\<dots> \<longleftrightarrow> 8 * i = 8 * j"
    using ij n by (intro of_nat_eq_u64_iff) simp_all
  finally show ?thesis by simp
qed

lemma nm_page_step:
  assumes B: "boot_ok t n" and I: "nm_pages t k w s" and k: "k < n * 512"
  shows "nm_pages t (Suc k) w (nm_map_page t (of_nat k) s)"
proof -
  obtain e va pa count w' where s: "s = (e, va, pa, count, w')" by (metis prod_cases5)
  have va: "va = start_va t + of_nat k * 0x1000" and pa: "pa = start_pa t + of_nat k * 0x1000"
    and c: "count = of_nat (k div 512 * 512)" and e: "e = 0 \<or> (\<exists>p. e = boot_descriptor p)"
    using I by (auto simp: s nm_pages_def)
  have o: "VA_OFFSET_48_L3 va = of_nat (k mod 512)" unfolding va by (rule boot_slot3 [OF B k])
  have d: "bd_l3 e pa OR boot_page_flags = boot_descriptor pa"
    using e by (auto simp: boot_descriptor_again) (simp add: boot_descriptor_def)
  have cell: "of_nat (k mod 512) + count = (of_nat k :: u64)"
    unfolding c of_nat_add [symmetric] by (simp add: mod_div_mult_eq)
  have 511: "(of_nat (k mod 512) :: u64) = 511 \<longleftrightarrow> k mod 512 = 511"
    using of_nat_eq_u64_iff [of "k mod 512" 511] by simp
  have "Suc k div 512 * 512 = k div 512 * 512 + (if k mod 512 = 511 then 512 else 0)"
    using div_Suc [of k 512] mod_Suc [of k 512] by simp
  then have count: "count + (if k mod 512 = 511 then 512 else 0) = of_nat (Suc k div 512 * 512)"
    unfolding c by simp
  have "nm_map_page t (of_nat k) s =
      (boot_descriptor pa, va + 0x1000, pa + 0x1000, of_nat (Suc k div 512 * 512),
       w'(arr (PT3 t) (of_nat k) := boot_descriptor pa))"
    unfolding s nm_map_page_def split_conv Let_def d o cell 511 count PAGE_SIZE_4KB_def by (rule refl)
  then show ?thesis
    using I k unfolding s nm_pages_def pa va
    by (auto simp: less_Suc_eq arr_nat_inj3 [OF boot_ok_512 [OF B]] algebra_simps)
qed

lemma nm_page_loop:
  "boot_ok t n \<Longrightarrow> k \<le> n * 512 \<Longrightarrow>
   nm_pages t k w (fold (\<lambda>i. nm_map_page t (of_nat i)) [0..<k] (0, start_va t, start_pa t, 0, w))"
proof (induction k)
  case 0
  then show ?case by (simp add: nm_pages_def)
next
  case (Suc k)
  then show ?case using nm_page_step [of t n k w] by simp
qed

subsection \<open>The whole mapping\<close>

text \<open>With the MMU off the tables are written at their physical addresses.\<close>

definition pt_phys :: "translation_tables \<Rightarrow> translation_tables" where
  "pt_phys t = t\<lparr>va_PGD := PGD t, va_PUD := PUD t, va_PMD := PMD t, va_PT3 := PT3 t\<rparr>"

lemma pt_phys_simps [simp]:
  "va_PGD (pt_phys t) = PGD t" "va_PUD (pt_phys t) = PUD t" "va_PMD (pt_phys t) = PMD t"
  "va_PT3 (pt_phys t) = PT3 t" "PGD (pt_phys t) = PGD t" "PUD (pt_phys t) = PUD t"
  "PMD (pt_phys t) = PMD t" "PT3 (pt_phys t) = PT3 t" "start_va (pt_phys t) = start_va t"
  by (simp_all add: pt_phys_def)

text \<open>The cells such a mapping uses; for an upper half they are the ones of the table set.\<close>

fun boot_cell :: "translation_tables \<Rightarrow> pt_slot \<Rightarrow> u64" where
  "boot_cell t Slot0 = arr (PGD t) (VA_OFFSET_48_L0 (start_va t))"
| "boot_cell t Slot1 = arr (PUD t) (VA_OFFSET_48_L1 (start_va t))"
| "boot_cell t (Slot2 j) = arr (PMD t) (of_nat (boot_off t + j))"
| "boot_cell t (Slot3 p) = arr (PT3 t) (of_nat p)"

lemma boot_aligned:
  assumes "pt_layout (pt_phys t) n"
  shows "boot_ok t n" and "boot_cell t = pt_cell (pt_phys t)" and "inj_on (boot_cell t) (pt_slots n)"
    and "n \<le> 512"
proof -
  obtain q where q: "unat (start_va t) = 549755813888 * q" using assms by (auto simp: pt_layout_def)
  have "unat (start_va t) div 0x200000 = 512 * (512 * q)" by (simp add: q)
  then have o: "boot_off t = 0" by (simp only: boot_off_def mod_mult_self1_is_0)
  have "0x200000 dvd unat (start_va t)" by (rule dvdI [of _ _ "262144 * q"]) (simp add: q)
  then show "boot_ok t n" "n \<le> 512" using assms o by (simp_all add: boot_ok_def pt_layout_def)
  have "unat (start_va t) div 2 ^ 30 = 512 * q" by (simp add: q)
  then have "VA_OFFSET_48_L1 (start_va t) = 0"
    by (intro unat_eqI) (simp only: VA_OFFSET_unat mod_mult_self1_is_0 unat_0)
  then show c: "boot_cell t = pt_cell (pt_phys t)"
    by (intro ext) (case_tac x, simp_all add: o)
  show "inj_on (boot_cell t) (pt_slots n)" using assms by (simp add: c pt_layout_def)
qed

text \<open>The memory after the two entries and the two loops, cell by cell.\<close>

lemma normal_map_cells:
  fixes w :: wordmem and shared :: u64
  assumes B: "boot_ok t n" and inj: "inj_on (boot_cell t) (pt_slots n)"
    and n: "n = unat ((ram_size + 0x1FFFFF) div 0x200000) + 2"
    and ram: "unat ram_size + 0x1FFFFF < 18446744073709551616"
  defines "w' \<equiv> normal_map_kernel_4KB t ram_size shared w"
  shows "w' (boot_cell t Slot0) = tf_link 0 (PUD t)"
    and "w' (boot_cell t Slot1) = tf_link 0 (PMD t)"
    and "\<forall>j < n. \<exists>r. w' (boot_cell t (Slot2 j)) = tf_link r (PT3 t + of_nat j * 0x1000)"
    and "\<forall>p < unat ram_size div 4096.
           w' (boot_cell t (Slot3 p)) = boot_descriptor (start_pa t + of_nat p * 0x1000)"
    and "unat ram_size div 4096 < n * 512"
proof -
  let ?c = "(ram_size + 0x1FFFFF) div 0x200000"
  let ?m = "unat ram_size div 4096"
  have c: "unat ?c = (unat ram_size + 0x1FFFFF) div 0x200000"
    using ram by (simp add: unat_div unat_add_nowrap)
  have "unat ram_size \<le> unat ?c * 0x200000"
  proof -
    define y where "y = unat ram_size + 0x1FFFFF"
    have "y mod 0x200000 < 0x200000" "y = y div 0x200000 * 0x200000 + y mod 0x200000" by simp_all
    then show ?thesis unfolding c y_def [symmetric] by (simp add: y_def)
  qed
  then have "?m \<le> unat ?c * 0x200000 div 4096" by (rule div_le_mono)
  then show m: "?m < n * 512" unfolding n by simp
  have uc: "unat (?c + 2) = n"
    using boot_ok_512 [OF B] n by (simp add: unat_add_nowrap)
  let ?w0 = "w(arr (PGD t) (VA_OFFSET_48_L0 (start_va t)) := tf_link 0 (PUD t))"
  let ?w1 = "?w0(arr (PUD t) (VA_OFFSET_48_L1 (start_va t)) := tf_link 0 (PMD t))"
  obtain e va w2 where F2: "for_loop 0 (?c + 2) (nm_link_pmd t) (0, start_va t, ?w1) = (e, va, w2)"
    and I2: "nm_links t n ?w1 va w2"
    using nm_link_loop [OF B order_refl, of ?w1] by (auto simp: for_loop_0_fold uc)
  obtain e3 va3 pa3 c3 w3 where F3: "for_loop 0 (ram_size div PAGE_SIZE_4KB) (nm_map_page t)
      (0, start_va t, start_pa t, 0, w2) = (e3, va3, pa3, c3, w3)" by (metis prod_cases5)
  have I3: "nm_pages t ?m w2 (e3, va3, pa3, c3, w3)"
    using nm_page_loop [OF B, of ?m w2] m F3
    by (simp add: for_loop_0_fold unat_div PAGE_SIZE_4KB_def)
  have cnt: "(ram_size + 2 * 1024 * 1024 - 1) div (2 * 1024 * 1024) = ?c"
    unfolding add_diff_eq [symmetric] by simp
  have w': "w' = w3"
    unfolding w'_def normal_map_kernel_4KB_def Let_def cnt F2 split_conv F3 by (rule refl)
  have D: "boot_cell t s \<noteq> boot_cell t s'"
    if "s \<in> pt_slots n" "s' \<in> pt_slots n" "s \<noteq> s'" for s s'
    using inj that by (auto simp: inj_on_def)
  have pages: "w3 (arr (PT3 t) (of_nat p)) = boot_descriptor (start_pa t + of_nat p * 0x1000)"
    if "p < ?m" for p using I3 that by (simp add: nm_pages_def)
  then show "\<forall>p < ?m. w' (boot_cell t (Slot3 p)) = boot_descriptor (start_pa t + of_nat p * 0x1000)"
    by (simp add: w')
  have keep3: "w3 (boot_cell t s) = w2 (boot_cell t s)"
    if "s \<in> pt_slots n" "\<forall>p. s \<noteq> Slot3 p" for s
  proof -
    have "boot_cell t s \<noteq> arr (PT3 t) (of_nat p)" if "p < ?m" for p
      using D [of s "Slot3 p"] that m \<open>s \<in> pt_slots n\<close> \<open>\<forall>p. s \<noteq> Slot3 p\<close> by simp
    then show ?thesis using I3 by (simp add: nm_pages_def)
  qed
  have keep2: "w2 (boot_cell t s) = ?w1 (boot_cell t s)"
    if "s \<in> pt_slots n" "\<forall>p. s \<noteq> Slot2 p" for s
  proof -
    have "boot_cell t s \<noteq> arr (PMD t) (of_nat (boot_off t + j))" if "j < n" for j
      using D [of s "Slot2 j"] that \<open>s \<in> pt_slots n\<close> \<open>\<forall>p. s \<noteq> Slot2 p\<close> by simp
    then show ?thesis using I2 unfolding nm_links_def by blast
  qed
  have d01: "boot_cell t Slot0 \<noteq> boot_cell t Slot1" by (rule D) simp_all
  show "w' (boot_cell t Slot0) = tf_link 0 (PUD t)"
    using keep3 [of Slot0] keep2 [of Slot0] d01 by (simp add: w')
  show "w' (boot_cell t Slot1) = tf_link 0 (PMD t)"
    using keep3 [of Slot1] keep2 [of Slot1] by (simp add: w')
  show "\<forall>j < n. \<exists>r. w' (boot_cell t (Slot2 j)) = tf_link r (PT3 t + of_nat j * 0x1000)"
  proof (intro allI impI)
    fix j assume "j < n"
    then obtain r where "w2 (arr (PMD t) (of_nat (boot_off t + j))) = tf_link r (PT3 t + of_nat j * 0x1000)"
      using I2 unfolding nm_links_def by blast
    then show "\<exists>r. w' (boot_cell t (Slot2 j)) = tf_link r (PT3 t + of_nat j * 0x1000)"
      using keep3 [of "Slot2 j"] \<open>j < n\<close> by (auto simp: w')
  qed
qed

text \<open>C20. \<open>normal_map_kernel_4KB\<close> maps the whole range: whatever the table memory held before, after
  it the four-level walk sends each page \<open>k\<close> of \<open>ram_size\<close> bytes from \<open>start_va\<close> on to the
  \<open>k\<close>-th frame from \<open>start_pa\<close> on, and the table set satisfies the invariant on which
  \<open>page_table_map\<close> later relies.\<close>

theorem normal_map_maps_all:
  assumes "pt_layout (pt_phys t) n"
    and "n = unat ((ram_size + 0x1FFFFF) div 0x200000) + 2"
    and "unat ram_size + 0x1FFFFF < 18446744073709551616"
    and "k < unat ram_size div 4096"
  shows "pt_inv (pt_phys t) n (normal_map_kernel_4KB t ram_size shared w) \<and>
     (\<exists>e. pt_walk (pt_phys t) (normal_map_kernel_4KB t ram_size shared w)
            (start_va t + of_nat k * 0x1000) = Some e \<and>
          bd_l3_oa e = take_bit 36 (drop_bit 12 (start_pa t + of_nat k * 0x1000)))"
proof -
  note A = boot_aligned [OF assms(1)]
  note C = normal_map_cells(1-4) [OF A(1,3) assms(2,3), of shared w, unfolded A(2)]
    normal_map_cells(5) [OF A(1,3) assms(2,3)]
  let ?w = "normal_map_kernel_4KB t ram_size shared w"
  have inv: "pt_inv (pt_phys t) n ?w"
    unfolding pt_inv_def using C(1,2,3) pt_layout_links [OF assms(1)]
    by (auto simp del: pt_cell.simps; metis (no_types, lifting) tf_link_valid)
  have k: "k < n * 512" using assms(4) C(5) by simp
  have p: "pt_page (pt_phys t) (start_va t + of_nat k * 0x1000) = k"
    using boot_in_range [OF A(4) k] by (simp add: pt_page_def)
  then have r: "pt_in_range (pt_phys t) n (start_va t + of_nat k * 0x1000)"
    using k by (simp add: pt_in_range_def)
  have "pt_walk (pt_phys t) ?w (start_va t + of_nat k * 0x1000) =
      Some (boot_descriptor (start_pa t + of_nat k * 0x1000))"
    using C(4) assms(4) boot_descriptor_bits
    by (simp add: pt_walk_in_range [OF assms(1) inv r] p del: pt_cell.simps)
  with inv show ?thesis by (simp add: boot_descriptor_bits)
qed

text \<open>
  For a mapping that starts anywhere (the identity mapping the kernel runs in until it has moved up): the
  walk through it, in any memory that agrees on its cells.
\<close>

lemma boot_walk:
  assumes B: "boot_ok t n" and inj: "inj_on (boot_cell t) (pt_slots n)"
    and fit: "\<forall>p \<in> {PUD t, PMD t} \<union> (\<lambda>j. PT3 t + of_nat j * 0x1000) ` {..<n}.
        push_bit 12 (take_bit 36 (drop_bit 12 p)) = p"
    and n: "n = unat ((ram_size + 0x1FFFFF) div 0x200000) + 2"
    and ram: "unat ram_size + 0x1FFFFF < 18446744073709551616" and k: "k < unat ram_size div 4096"
    and agree: "\<forall>sl \<in> pt_slots n. w' (boot_cell t sl) = normal_map_kernel_4KB t ram_size shared w (boot_cell t sl)"
  shows "pt_walk (pt_phys t) w' (start_va t + of_nat k * 0x1000) =
     Some (boot_descriptor (start_pa t + of_nat k * 0x1000))"
proof -
  let ?va = "start_va t + of_nat k * 0x1000" and ?j = "k div 512"
  note C = normal_map_cells(1-4) [OF B inj n ram, of shared w] normal_map_cells(5) [OF B inj n ram]
  have kn: "k < n * 512" using k C(5) by simp
  then have j: "?j < n" by (simp add: less_mult_imp_div_less)
  note X = boot_indexes [OF B kn]
  have w: "w' (boot_cell t Slot0) = tf_link 0 (PUD t)" "w' (boot_cell t Slot1) = tf_link 0 (PMD t)"
    "w' (boot_cell t (Slot3 k)) = boot_descriptor (start_pa t + of_nat k * 0x1000)"
    using agree C(1,2,4) k kn by (simp_all del: boot_cell.simps)
  obtain r where w2: "w' (boot_cell t (Slot2 ?j)) = tf_link r (PT3 t + of_nat ?j * 0x1000)"
    using agree C(3) j by (auto simp del: boot_cell.simps)
  have D: "pt_descend (tf_link r p) b p = Some b" if "push_bit 12 (take_bit 36 (drop_bit 12 p)) = p" for r p b
    using that by (simp add: pt_descend_def)
  have D3: "pt_descend (tf_link r (PT3 t + of_nat ?j * 0x1000)) (PT3 t) (PT3 t) = Some (PT3 t + of_nat ?j * 0x1000)"
    using fit j by (simp add: pt_descend_def)
  have c3: "arr (PT3 t + of_nat ?j * 0x1000) (of_nat (k mod 512)) = boot_cell t (Slot3 k)"
  proof -
    have "(of_nat k :: u64) = of_nat ?j * 512 + of_nat (k mod 512)"
      by (metis div_mult_mod_eq of_nat_add of_nat_mult of_nat_numeral)
    then show ?thesis by (simp add: arr_def algebra_simps)
  qed
  show ?thesis
    unfolding pt_walk_def pt_phys_simps X
    using w w2 D [of "PUD t" 0 "PUD t"] D [of "PMD t" 0 "PMD t"] D3 fit
    by (simp add: c3 boot_descriptor_bits del: boot_cell.simps(4))
qed

subsection \<open>What the boot-time mapping writes\<close>

definition boot_area :: "translation_tables \<Rightarrow> nat \<Rightarrow> u64 set" where
  "boot_area t N = (\<lambda>i. arr (PGD t) (of_nat i)) ` {..<512} \<union> (\<lambda>i. arr (PUD t) (of_nat i)) ` {..<512} \<union>
     (\<lambda>i. arr (PMD t) (of_nat i)) ` {..<512} \<union> (\<lambda>i. arr (PT3 t) (of_nat i)) ` {..<N}"

lemma boot_area_cells:
  "arr (PGD t) (VA_OFFSET_48_L0 a) \<in> boot_area t N" "arr (PUD t) (VA_OFFSET_48_L1 a) \<in> boot_area t N"
  "arr (PMD t) (VA_OFFSET_48_L2 a) \<in> boot_area t N" "i < N \<Longrightarrow> arr (PT3 t) (of_nat i) \<in> boot_area t N"
proof -
  have "f (i :: u64) \<in> (\<lambda>k. f (of_nat k)) ` {..<512}" if "i < 512" for f :: "u64 \<Rightarrow> u64" and i
    using that by (intro image_eqI [of _ _ "unat i"]) (simp_all add: word_less_nat_alt)
  then show "arr (PGD t) (VA_OFFSET_48_L0 a) \<in> boot_area t N" "arr (PUD t) (VA_OFFSET_48_L1 a) \<in> boot_area t N"
    "arr (PMD t) (VA_OFFSET_48_L2 a) \<in> boot_area t N"
    by (simp_all add: boot_area_def VA_OFFSET_lt)
qed (simp add: boot_area_def)

lemma VA_OFFSET_L3_next:
  "unat (VA_OFFSET_48_L3 (a + 0x1000)) = (if VA_OFFSET_48_L3 a = 511 then 0 else unat (VA_OFFSET_48_L3 a) + 1)"
proof -
  have "unat (VA_OFFSET_48_L3 (a + 0x1000)) = (unat a + 4096) mod 18446744073709551616 div 4096 mod 512"
    by (simp add: VA_OFFSET_unat unat_plus_u64)
  also have "\<dots> = (unat a + 4096) div 4096 mod 4503599627370496 mod 512"
    using mod_mult2_eq [of "unat a + 4096" 4096 4503599627370496] by simp
  also have "\<dots> = (unat a div 4096 + 1) mod 512"
  proof -
    have "(unat a + 4096) div 4096 = unat a div 4096 + 1" by simp
    then show ?thesis by (simp only:) (simp add: mod_mod_cancel)
  qed
  also have "\<dots> = (if unat a div 4096 mod 512 = 511 then 0 else unat a div 4096 mod 512 + 1)"
    by (simp add: mod_Suc)
  finally show ?thesis by (simp add: VA_OFFSET_unat word_unat_eq_iff)
qed

lemma nm_pages_frame:
  assumes "\<forall>i < o3 + k. x \<noteq> arr (PT3 t) (of_nat i)" and "o3 = unat (VA_OFFSET_48_L3 va)"
  shows "\<exists>e va' pa' c w'. fold (\<lambda>i. nm_map_page t (of_nat i)) [0..<k] (e0, va, pa, 0, w) = (e, va', pa', of_nat c, w') \<and>
     c + unat (VA_OFFSET_48_L3 va') = o3 + k \<and> w' x = w x"
  using assms(1)
proof (induction k)
  case 0
  show ?case using assms(2) by (auto intro: exI [of _ "0::nat"])
next
  case (Suc k)
  then obtain e va' pa' c w' where F: "fold (\<lambda>i. nm_map_page t (of_nat i)) [0..<k] (e0, va, pa, 0, w) = (e, va', pa', of_nat c, w')"
    and c: "c + unat (VA_OFFSET_48_L3 va') = o3 + k" and w': "w' x = w x" by auto
  have cell: "VA_OFFSET_48_L3 va' + of_nat c = of_nat (o3 + k)"
    unfolding c [symmetric] by (simp add: add.commute)
  let ?d = "if VA_OFFSET_48_L3 va' = 511 then 512 else 0 :: nat"
  have step: "nm_map_page t (of_nat k) (e, va', pa', of_nat c, w') = (bd_l3 e pa' OR boot_page_flags, va' + 0x1000,
      pa' + 0x1000, of_nat (c + ?d), w'(arr (PT3 t) (of_nat (o3 + k)) := bd_l3 e pa' OR boot_page_flags))"
    unfolding nm_map_page_def split_conv Let_def cell PAGE_SIZE_4KB_def by simp
  have "c + ?d + unat (VA_OFFSET_48_L3 (va' + 0x1000)) = o3 + Suc k"
    using c by (auto simp: VA_OFFSET_L3_next)
  moreover have "x \<noteq> arr (PT3 t) (of_nat (o3 + k))" using Suc.prems by (simp del: of_nat_add)
  ultimately show ?case
    unfolding upt_Suc_append [OF le0] fold_append fold_Cons fold_Nil o_apply id_apply F step
    by (intro exI conjI) (rule refl, assumption, simp only: fun_upd_apply if_False w')
qed

lemma normal_map_frame:
  assumes x: "x \<notin> boot_area t (unat (ram_size div 0x1000) + 511)"
  shows "normal_map_kernel_4KB t ram_size shared w x = w x"
proof -
  let ?N = "unat (ram_size div 0x1000) + 511"
  note ne = x boot_area_cells [where t = t and N = ?N]
  let ?w = "w(arr (PGD t) (VA_OFFSET_48_L0 (start_va t)) := tf_link 0 (PUD t),
      arr (PUD t) (VA_OFFSET_48_L1 (start_va t)) := tf_link 0 (PMD t))"
  have links: "snd (snd (fold (\<lambda>k. nm_link_pmd t (of_nat k)) ks s)) x = snd (snd s) x" for ks :: "nat list" and s
  proof (induction ks arbitrary: s)
    case (Cons k ks)
    have "snd (snd (nm_link_pmd t (of_nat k) s)) x = snd (snd s) x"
      using ne by (cases s) (auto simp: nm_link_pmd_def Let_def)
    then show ?case using Cons by simp
  qed simp
  obtain e va w2 where F2: "for_loop 0 ((ram_size + 2 * 1024 * 1024 - 1) div (2 * 1024 * 1024) + 2) (nm_link_pmd t)
      (0, start_va t, ?w) = (e, va, w2)" by (metis prod_cases3)
  then have "w2 x = ?w x"
    using links [of _ "(0, start_va t, ?w)"] by (metis for_loop_0_fold snd_conv)
  moreover have "?w x = w x" using ne(1,2,3) by (auto simp: fun_upd_apply)
  ultimately have w2: "w2 x = w x" by (rule trans)
  have "unat (VA_OFFSET_48_L3 (start_va t)) \<le> 511"
    using VA_OFFSET_lt(4) [of "start_va t"] by (simp add: word_less_nat_alt)
  then have "\<forall>i < unat (VA_OFFSET_48_L3 (start_va t)) + unat (ram_size div 0x1000). x \<noteq> arr (PT3 t) (of_nat i)"
    using ne(1,5) by fastforce
  from nm_pages_frame [OF this refl, of 0 "start_pa t" w2]
  obtain e3 va3 pa3 c3 w3 where F3: "for_loop 0 (ram_size div PAGE_SIZE_4KB) (nm_map_page t)
      (0, start_va t, start_pa t, 0, w2) = (e3, va3, pa3, of_nat c3, w3)" and "w3 x = w2 x"
    by (auto simp: for_loop_0_fold PAGE_SIZE_4KB_def)
  then show ?thesis using w2
    unfolding normal_map_kernel_4KB_def Let_def F2 split_conv F3 by simp
qed

definition ex_boot_tt :: translation_tables where
  "ex_boot_tt = ex_tt\<lparr>start_va := 0xFFFFF00000000000, start_pa := 0x42000000\<rparr>"

theorem normal_map_maps_all_witness:
  "pt_inv (pt_phys ex_boot_tt) 4 (normal_map_kernel_4KB ex_boot_tt 0x400000 0 (\<lambda>_. 0)) \<and>
   (\<exists>e. pt_walk (pt_phys ex_boot_tt) (normal_map_kernel_4KB ex_boot_tt 0x400000 0 (\<lambda>_. 0))
          (start_va ex_boot_tt + of_nat 1023 * 0x1000) = Some e \<and>
        bd_l3_oa e = take_bit 36 (drop_bit 12 (start_pa ex_boot_tt + of_nat 1023 * 0x1000)))"
proof (rule normal_map_maps_all)
  show "pt_layout (pt_phys ex_boot_tt) 4"
  proof (rule pt_layout_contiguous)
    have "{..<4::nat} = {0, 1, 2, 3}" by auto
    then show "\<forall>p \<in> {PUD (pt_phys ex_boot_tt), PMD (pt_phys ex_boot_tt)} \<union>
        (\<lambda>j. PT3 (pt_phys ex_boot_tt) + of_nat j * 0x1000) ` {..<4}.
        push_bit 12 (take_bit 36 (drop_bit 12 p)) = p"
      by (simp add: ex_boot_tt_def ex_tt_def)
  qed (simp_all add: ex_boot_tt_def ex_tt_def)
qed simp_all

subsection \<open>Beyond the first gigabyte\<close>









end
