(* ===== verification/Chains.thy ===== *)
theory Chains
  imports Prelude
begin

text \<open>
  Linked C structures. The kernel keeps its heap chunks, memory regions, file descriptors and
  processes in singly linked lists of structures; \<open>nx p\<close> is the \<open>next\<close> pointer of the structure at
  \<open>p\<close> and 0 the null pointer. \<open>node_search\<close> and \<open>node_tail\<close> are the two loops the code runs over
  such lists. They do not end on a cyclic list, so they are partial functions whose value is
  \<open>None\<close> when the loop does not return (or dereferences the null pointer).
\<close>

subsection \<open>The loops\<close>

text \<open>\<open>while (p) { if (P p) break; p = p->next; }\<close>: the node where it stops, or null.\<close>

partial_function (option) node_search :: "(u64 \<Rightarrow> bool) \<Rightarrow> (u64 \<Rightarrow> u64) \<Rightarrow> u64 \<Rightarrow> u64 option" where
  "node_search stop nx p =
     (if p = 0 then Some 0 else if stop p then Some p else node_search stop nx (nx p))"

text \<open>\<open>while (p->next) p = p->next;\<close>: the last node.\<close>

partial_function (option) node_tail :: "(u64 \<Rightarrow> u64) \<Rightarrow> u64 \<Rightarrow> u64 option" where
  "node_tail nx p = (if p = 0 then None else if nx p = 0 then Some p else node_tail nx (nx p))"

subsection \<open>Lists of nodes\<close>

fun chain :: "(u64 \<Rightarrow> u64) \<Rightarrow> u64 \<Rightarrow> u64 list \<Rightarrow> bool" where
  "chain nx p [] \<longleftrightarrow> p = 0"
| "chain nx p (x # xs) \<longleftrightarrow> p = x \<and> x \<noteq> 0 \<and> chain nx (nx x) xs"

text \<open>A segment of a list, from \<open>p\<close> up to (not including) \<open>q\<close>.\<close>

fun chain_seg :: "(u64 \<Rightarrow> u64) \<Rightarrow> u64 \<Rightarrow> u64 list \<Rightarrow> u64 \<Rightarrow> bool" where
  "chain_seg nx p [] q \<longleftrightarrow> p = q"
| "chain_seg nx p (x # xs) q \<longleftrightarrow> p = x \<and> x \<noteq> 0 \<and> chain_seg nx (nx x) xs q"

lemma chain_iff_seg: "chain nx p xs \<longleftrightarrow> chain_seg nx p xs 0"
  by (induction xs arbitrary: p) auto

lemma chain_seg_append:
  "chain_seg nx p (xs @ ys) q \<longleftrightarrow> (\<exists>r. chain_seg nx p xs r \<and> chain_seg nx r ys q)"
  by (induction xs arbitrary: p) auto

lemma chain_append: "chain nx p (xs @ ys) \<longleftrightarrow> (\<exists>r. chain_seg nx p xs r \<and> chain nx r ys)"
  by (simp add: chain_iff_seg chain_seg_append)

lemma chain_unique: "chain nx p xs \<Longrightarrow> chain nx p ys \<Longrightarrow> xs = ys"
proof (induction xs arbitrary: p ys)
  case Nil
  then show ?case by (cases ys) auto
next
  case (Cons x xs)
  then show ?case by (cases ys) auto
qed

lemma chain_nonnull: "chain nx p xs \<Longrightarrow> 0 \<notin> set xs"
  by (induction xs arbitrary: p) auto

lemma chain_null [simp]: "chain nx 0 xs \<longleftrightarrow> xs = []"
  by (cases xs) auto

lemma chain_suffix: "chain nx p (xs @ y # ys) \<Longrightarrow> chain nx y (y # ys)"
  by (auto simp: chain_append)

lemma chain_distinct: "chain nx p xs \<Longrightarrow> distinct xs"
proof (induction xs arbitrary: p)
  case (Cons x xs)
  have "x \<notin> set xs"
  proof
    assume "x \<in> set xs"
    then obtain ys zs where "xs = ys @ x # zs" by (meson split_list)
    moreover have "chain nx (nx x) xs" using Cons.prems by simp
    ultimately have "chain nx x (x # zs)" using chain_suffix by metis
    moreover have "chain nx x (x # xs)" using Cons.prems by simp
    ultimately have "x # zs = x # xs" by (metis chain_unique)
    with \<open>xs = ys @ x # zs\<close> show False by simp
  qed
  with Cons show ?case by auto
qed simp

lemma chain_cong: "(\<And>x. x \<in> set xs \<Longrightarrow> nx x = nx' x) \<Longrightarrow> chain nx p xs \<longleftrightarrow> chain nx' p xs"
  by (induction xs arbitrary: p) auto

lemma chain_seg_cong: "(\<And>x. x \<in> set xs \<Longrightarrow> nx x = nx' x) \<Longrightarrow> chain_seg nx p xs q \<longleftrightarrow> chain_seg nx' p xs q"
  by (induction xs arbitrary: p) auto

subsection \<open>The loops on a list\<close>

lemma node_search_chain:
  "chain nx p xs \<Longrightarrow> node_search P nx p = Some (case find P xs of None \<Rightarrow> 0 | Some x \<Rightarrow> x)"
proof (induction xs arbitrary: p)
  case Nil
  then show ?case by (simp add: node_search.simps)
next
  case (Cons x xs)
  then show ?case by (simp add: node_search.simps [of P nx x])
qed

lemma node_search_found:
  "chain nx p (xs @ y # ys) \<Longrightarrow> \<forall>x \<in> set xs. \<not> P x \<Longrightarrow> P y \<Longrightarrow> node_search P nx p = Some y"
proof -
  assume c: "chain nx p (xs @ y # ys)" and n: "\<forall>x \<in> set xs. \<not> P x" and y: "P y"
  have "find P (xs @ y # ys) = Some y" using n y by (induction xs) auto
  then show ?thesis using node_search_chain [OF c, of P] by simp
qed

lemma node_search_none:
  "chain nx p xs \<Longrightarrow> \<forall>x \<in> set xs. \<not> P x \<Longrightarrow> node_search P nx p = Some 0"
  using node_search_chain [of nx p xs P] by (simp add: find_None_iff [THEN iffD2])

lemma node_tail_chain: "chain nx p xs \<Longrightarrow> xs \<noteq> [] \<Longrightarrow> node_tail nx p = Some (last xs)"
proof (induction xs arbitrary: p)
  case (Cons x xs)
  then show ?case
    by (cases xs) (auto simp: node_tail.simps [of nx x])
qed simp

text \<open>Inside a set of nodes that is closed under \<open>nx\<close>, the loops do not return.\<close>

lemma node_search_loop_aux:
  "node_search P nx q = Some r \<Longrightarrow> q \<in> S \<Longrightarrow> \<forall>x \<in> S. x \<noteq> 0 \<and> \<not> P x \<and> nx x \<in> S \<Longrightarrow> False"
proof (induction arbitrary: S rule: node_search.raw_induct [rotated, consumes 1])
  case (1 f P nx q r)
  note q = 1(4) [rule_format, OF 1(3)]
  with 1(2) have "f P nx (nx q) = Some r" by simp
  from 1(1) [OF this _ 1(4)] q show ?case by simp
qed

lemma node_search_loop:
  "q \<in> S \<Longrightarrow> \<forall>x \<in> S. x \<noteq> 0 \<and> \<not> P x \<and> nx x \<in> S \<Longrightarrow> node_search P nx q = None"
  using node_search_loop_aux [of P nx q _ S] by (metis not_Some_eq)

subsection \<open>Stores whose structures have a next field\<close>

text \<open>
  \<open>nx s p\<close> reads the \<open>next\<close> field of the structure at \<open>p\<close> in store \<open>s\<close>, \<open>set_nx p q s\<close> assigns it.
\<close>

locale linked_store =
  fixes nx :: "'s \<Rightarrow> u64 \<Rightarrow> u64"
    and set_nx :: "u64 \<Rightarrow> u64 \<Rightarrow> 's \<Rightarrow> 's"
  assumes nx_same: "nx (set_nx p q s) p = q"
    and nx_other: "r \<noteq> p \<Longrightarrow> nx (set_nx p q s) r = nx s r"
begin

lemma chain_frame: "p \<notin> set xs \<Longrightarrow> chain (nx (set_nx p q s)) r xs = chain (nx s) r xs"
  by (rule chain_cong) (metis nx_other)

lemma seg_frame: "p \<notin> set xs \<Longrightarrow> chain_seg (nx (set_nx p q s)) r xs t = chain_seg (nx s) r xs t"
  by (rule chain_seg_cong) (metis nx_other)

text \<open>Assigning the last pointer appends a node; assigning an inner one inserts or unlinks.\<close>

lemma append_node:
  assumes c: "chain (nx s) p xs" and "xs \<noteq> []" and n: "n \<noteq> 0" "n \<notin> set xs" "nx s n = 0"
  shows "chain (nx (set_nx (last xs) n s)) p (xs @ [n])"
proof -
  obtain ys y where xs: "xs = ys @ [y]" using \<open>xs \<noteq> []\<close> by (metis rev_exhaust)
  have d: "y \<notin> set ys" using chain_distinct [OF c] xs by auto
  have "chain_seg (nx s) p ys y" "y \<noteq> 0" using c by (auto simp: xs chain_append)
  then have "chain_seg (nx (set_nx y n s)) p ys y" using d by (simp add: seg_frame)
  moreover have "chain (nx (set_nx y n s)) y [y, n]"
    using \<open>y \<noteq> 0\<close> n xs by (auto simp: nx_same nx_other)
  ultimately have "chain (nx (set_nx y n s)) p (ys @ [y, n])" by (auto simp: chain_append simp del: chain.simps)
  then show ?thesis by (simp add: xs)
qed

lemma insert_after:
  assumes c: "chain (nx s) p (xs @ y # zs)" and n: "n \<noteq> 0" "n \<notin> set (xs @ y # zs)"
    and nxt: "nx s n = (case zs of [] \<Rightarrow> 0 | z # _ \<Rightarrow> z)"
  shows "chain (nx (set_nx y n s)) p (xs @ y # n # zs)"
proof -
  have d: "y \<notin> set xs" "y \<notin> set zs" using chain_distinct [OF c] by auto
  have seg: "chain_seg (nx s) p xs y" and y: "y \<noteq> 0" "chain (nx s) (nx s y) zs"
    using c by (auto simp: chain_append)
  have "nx s y = nx s n" using y(2) nxt by (cases zs) auto
  then have "chain (nx (set_nx y n s)) (nx s n) zs" using y(2) d by (simp add: chain_frame)
  then have "chain (nx (set_nx y n s)) y (y # n # zs)"
    using n y(1) by (auto simp: nx_same nx_other)
  moreover have "chain_seg (nx (set_nx y n s)) p xs y" using seg d by (simp add: seg_frame)
  ultimately show ?thesis by (auto simp: chain_append simp del: chain.simps)
qed

lemma unlink_after:
  assumes c: "chain (nx s) p (xs @ y # z # zs)"
  shows "chain (nx (set_nx y (nx s z) s)) p (xs @ y # zs)"
proof -
  have d: "y \<notin> set xs" "y \<notin> set zs" using chain_distinct [OF c] by auto
  have seg: "chain_seg (nx s) p xs y" and y: "y \<noteq> 0" "chain (nx s) (nx s z) zs"
    using c by (auto simp: chain_append)
  have "chain (nx (set_nx y (nx s z) s)) y (y # zs)"
    using y d by (simp add: nx_same chain_frame)
  moreover have "chain_seg (nx (set_nx y (nx s z) s)) p xs y" using seg d by (simp add: seg_frame)
  ultimately show ?thesis by (auto simp: chain_append simp del: chain.simps)
qed

lemma push_front:
  assumes "chain (nx s) p xs" "n \<noteq> 0" "n \<notin> set xs"
  shows "chain (nx (set_nx n p s)) n (n # xs)"
  using assms by (simp add: nx_same chain_frame)

end

end
