(* ===== verification/Kernel.thy ===== *)
theory Kernel
  imports Frames PageTable Chains
begin

text \<open>
  The state of the kernel: the C structures of \<open>common.h\<close>, \<open>process.h\<close>, \<open>heap.c\<close> and \<open>kernel.h\<close>
  as records, and the machine state \<open>kst\<close> the stateful operations transform. Structures that the
  code allocates on its heap and links by pointers live in one store per structure type, a map
  from addresses; the pointer 0 is null. Heap chunk headers and page tables are 64-bit cells
  (\<open>cells\<close>), bitmaps, buffers and user memory are bytes (\<open>bytes\<close>). \<open>hc_mode\<close>, \<open>is_realm\<close> and
  \<open>shared_bit\<close> are the static variables of \<open>hypercall.c\<close> and \<open>start.c\<close>, \<open>requests\<close> the bytes that the
  VMM has received on its system call port, \<open>sysreg\<close> the system registers the code writes, and
  \<open>pa_base\<close> and \<open>pa_binary_end\<close> the variables \<open>current_pa_base\<close> and \<open>current_pa_binary_end\<close> of \<open>main.c\<close>.

  An operation of the code that may call \<open>crash()\<close> (the host ends the VM), dereference the null
  pointer or loop for ever has an \<open>option\<close> result; \<open>None\<close> is each of these: no return to the caller.
\<close>

subsection \<open>Structures\<close>

record context_t =
  spsr_el1 :: u64
  elr_el1 :: u64
  esr_el1 :: u64
  ctx_zero :: u64
  ctx_x :: "u64 list"
  ctx_far :: u64
  ctx_sp :: u64

record fd_table =
  is_kernel_fd :: c_int
  k_fd :: c_int
  host_fd :: c_int
  fd :: c_int
  fd_pid :: c_int
  fd_next :: u64

record mem_region =
  va_base :: u64
  va_size :: u64
  perm :: c_int
  is_mapped :: c_int
  is_used :: c_int
  is_device :: c_int
  is_kernel :: c_int
  is_secure :: c_int
  is_page_table :: c_int
  region_fd :: c_int
  region_next :: u64

datatype process_state = NONE | WAITING | READY | RUNNING

record process =
  pid :: c_int
  tid :: c_int
  open_files :: c_int
  path :: u64
  cmd_line :: u64
  page_table :: u64
  stack_base :: u64
  p_state :: process_state
  stack_size :: u64
  entry :: u64
  p_sbrk :: u64
  head_region :: u64
  ctx :: context_t
  p_fd_table :: fd_table
  p_t :: translation_tables
  proc_next :: u64

record group_heap =
  heap_head :: u64
  heap_tail :: u64

text \<open>
  \<open>mmap_region_head\<close> is a \<open>mem_region_t\<close> inside \<open>kernel_struct\<close> whose address the code passes
  around: it is the entry of the region store at the address \<open>mmap_region_head\<close>.
\<close>

record kernel_struct =
  heap_start :: u64
  heap_size :: u64
  mmap_start :: u64
  mmap_size :: u64
  cur_mmap :: u64
  insecure_va_start :: u64
  insecure_pa_start :: u64
  insecure_pg_cnt :: u64
  device_map_start :: u64
  ks_sbrk :: u64
  ks_sbrk_base :: u64
  sh_sbrk :: u64
  sh_sbrk_base :: u64
  shared_region_size :: u64
  shared_heap_start :: u64
  shared_heap_size :: u64
  shared_mmap_start :: u64
  shared_mmap_size :: u64
  secure_frames :: kframe_alloc
  insecure_frames :: kframe_alloc
  secure_t :: translation_tables
  insecure_t :: translation_tables
  sys_table :: u64
  next_pid :: c_int
  process_head :: u64
  current :: u64
  mmap_region_head :: u64
  vma_allocation :: u64
  fd_head :: u64
  feat_ID_AA64ISAR0_EL1 :: u64
  feat_ID_AA64ISAR1_EL1 :: u64
  feat_ID_AA64MMFR0_EL1 :: u64
  feat_ID_AA64MMFR1_EL1 :: u64
  feat_ID_AA64PFR0_EL1 :: u64
  feat_ID_AA64PFR1_EL1 :: u64
  feat_ID_AA64DFR0_EL1 :: u64
  feat_ID_AA64DFR1_EL1 :: u64
  feat_MIDR_EL1 :: u64
  feat_MPIDR_EL1 :: u64
  feat_REVIDR_EL1 :: u64

record kst =
  ks :: kernel_struct
  bytes :: bytemem
  cells :: wordmem
  private_heap :: group_heap
  shared_heap :: group_heap
  regions :: "u64 \<Rightarrow> mem_region"
  fds :: "u64 \<Rightarrow> fd_table"
  procs :: "u64 \<Rightarrow> process"
  hc_mode :: c_int
  is_realm :: u64
  shared_bit :: u64
  requests :: "u8 list"
  sysreg :: "string \<Rightarrow> u64"
  pa_base :: u64
  pa_binary_end :: u64

definition KERNEL_VA_BASE :: u64 where "KERNEL_VA_BASE = 0xFFFFF00000000000"
definition KERNEL_PA_BASE :: u64 where "KERNEL_PA_BASE = 0x42000000"
definition KERNEL_HEAP_SIZE :: u64 where "KERNEL_HEAP_SIZE = 0x1000 * 0x1000"

text \<open>The sizes of the structures, as the AArch64 ABI lays them out.\<close>

definition sizeof_mem_chunk :: u64 where "sizeof_mem_chunk = 32"
definition sizeof_ptr :: u64 where "sizeof_ptr = 8"
definition sizeof_mem_region :: u64 where "sizeof_mem_region = 56"
definition sizeof_fd_table :: u64 where "sizeof_fd_table = 32"
definition sizeof_process :: u64 where "sizeof_process = 528"
definition sizeof_kernel_struct :: u64 where "sizeof_kernel_struct = 624"

text \<open>Structures filled with zero bytes, as \<open>kcalloc\<close> returns them.\<close>

definition zero_fd :: fd_table where
  "zero_fd = \<lparr>is_kernel_fd = 0, k_fd = 0, host_fd = 0, fd = 0, fd_pid = 0, fd_next = 0\<rparr>"

definition zero_region :: mem_region where
  "zero_region = \<lparr>va_base = 0, va_size = 0, perm = 0, is_mapped = 0, is_used = 0, is_device = 0,
     is_kernel = 0, is_secure = 0, is_page_table = 0, region_fd = 0, region_next = 0\<rparr>"

definition zero_tables :: translation_tables where
  "zero_tables = \<lparr>PGD = 0, PUD = 0, PMD = 0, PT3 = 0, start_va = 0, start_pa = 0, tt_length = 0,
     tt_flags = 0, va_PGD = 0, va_PUD = 0, va_PMD = 0, va_PT3 = 0\<rparr>"

definition zero_context :: context_t where
  "zero_context = \<lparr>spsr_el1 = 0, elr_el1 = 0, esr_el1 = 0, ctx_zero = 0, ctx_x = replicate 32 0,
     ctx_far = 0, ctx_sp = 0\<rparr>"

definition zero_process :: process where
  "zero_process = \<lparr>pid = 0, tid = 0, open_files = 0, path = 0, cmd_line = 0, page_table = 0,
     stack_base = 0, p_state = NONE, stack_size = 0, entry = 0, p_sbrk = 0, head_region = 0,
     ctx = zero_context, p_fd_table = zero_fd, p_t = zero_tables, proc_next = 0\<rparr>"

subsection \<open>Error numbers (errno.h) and mmap flags (vma.h)\<close>

definition ENOENT :: c_int where "ENOENT = 2"
definition ENOEXEC :: c_int where "ENOEXEC = 8"
definition ENOMEM :: c_int where "ENOMEM = 12"
definition EEXIST :: c_int where "EEXIST = 17"
definition EINVAL :: c_int where "EINVAL = 22"
definition ENOSYS :: c_int where "ENOSYS = 88"

definition MAP_FAILED :: u64 where "MAP_FAILED = -1"
definition MAP_FIXED :: c_int where "MAP_FIXED = 1"

text \<open>An \<open>int\<close> converted to \<open>uint64_t\<close> or \<open>size_t\<close>.\<close>

definition to_u64 :: "c_int \<Rightarrow> u64" where "to_u64 i = scast i"

subsection \<open>The two frame allocators\<close>

text \<open>The wrappers pass one of the two allocators of \<open>kernel_struct\<close>.\<close>

definition kframe_allocate_fixed_insecure :: "u64 \<Rightarrow> u64 \<Rightarrow> kst \<Rightarrow> u64 \<times> kst" where
  "kframe_allocate_fixed_insecure start count s =
     (let (r, m, fa) = kframe_allocate_fixed (bytes s) (insecure_frames (ks s)) start count
      in (r, s\<lparr>bytes := m, ks := (ks s)\<lparr>insecure_frames := fa\<rparr>\<rparr>))"

definition kframe_allocate_insecure :: "u64 \<Rightarrow> u64 \<Rightarrow> kst \<Rightarrow> u64 \<times> kst" where
  "kframe_allocate_insecure start count s =
     (let (r, m, fa) = kframe_allocate_range (bytes s) (insecure_frames (ks s)) count
      in (r, s\<lparr>bytes := m, ks := (ks s)\<lparr>insecure_frames := fa\<rparr>\<rparr>))"

definition kframe_allocator_init_insecure :: "u64 \<Rightarrow> u64 \<Rightarrow> u64 \<Rightarrow> u64 \<Rightarrow> kst \<Rightarrow> c_int \<times> kst" where
  "kframe_allocator_init_insecure bitmap bitmap_size start sz s =
     (let (r, m, fa) = kframe_allocator_init (bytes s) (insecure_frames (ks s)) bitmap bitmap_size start sz
      in (r, s\<lparr>bytes := m, ks := (ks s)\<lparr>insecure_frames := fa\<rparr>\<rparr>))"

definition kframe_free_insecure :: "u64 \<Rightarrow> kst \<Rightarrow> kst" where
  "kframe_free_insecure address s =
     (let (m, fa) = kframe_free (bytes s) (insecure_frames (ks s)) address
      in s\<lparr>bytes := m, ks := (ks s)\<lparr>insecure_frames := fa\<rparr>\<rparr>)"

definition kframe_allocate_fixed_secure :: "u64 \<Rightarrow> u64 \<Rightarrow> kst \<Rightarrow> u64 \<times> kst" where
  "kframe_allocate_fixed_secure start count s =
     (let (r, m, fa) = kframe_allocate_fixed (bytes s) (secure_frames (ks s)) start count
      in (r, s\<lparr>bytes := m, ks := (ks s)\<lparr>secure_frames := fa\<rparr>\<rparr>))"

definition kframe_allocate_secure :: "u64 \<Rightarrow> kst \<Rightarrow> u64 \<times> kst" where
  "kframe_allocate_secure count s =
     (let (r, m, fa) = kframe_allocate_range (bytes s) (secure_frames (ks s)) count
      in (r, s\<lparr>bytes := m, ks := (ks s)\<lparr>secure_frames := fa\<rparr>\<rparr>))"

definition kframe_allocator_init_secure :: "u64 \<Rightarrow> u64 \<Rightarrow> u64 \<Rightarrow> u64 \<Rightarrow> kst \<Rightarrow> c_int \<times> kst" where
  "kframe_allocator_init_secure bitmap bitmap_size start sz s =
     (let (r, m, fa) = kframe_allocator_init (bytes s) (secure_frames (ks s)) bitmap bitmap_size start sz
      in (r, s\<lparr>bytes := m, ks := (ks s)\<lparr>secure_frames := fa\<rparr>\<rparr>))"

definition kframe_free_secure :: "u64 \<Rightarrow> kst \<Rightarrow> kst" where
  "kframe_free_secure address s =
     (let (m, fa) = kframe_free (bytes s) (secure_frames (ks s)) address
      in s\<lparr>bytes := m, ks := (ks s)\<lparr>secure_frames := fa\<rparr>\<rparr>)"

text \<open>Mapping a page in the current memory.\<close>

definition kst_map :: "translation_tables \<Rightarrow> u64 \<Rightarrow> u64 \<Rightarrow> c_int \<Rightarrow> c_int \<Rightarrow> kst \<Rightarrow> (c_int \<times> kst) option" where
  "kst_map t va pa flags is_dev s =
     map_option (\<lambda>(r, w). (r, s\<lparr>cells := w\<rparr>)) (page_table_map t va pa flags is_dev (cells s))"

definition kst_map_kernel :: "translation_tables \<Rightarrow> u64 \<Rightarrow> u64 \<Rightarrow> c_int \<Rightarrow> kst \<Rightarrow> (c_int \<times> kst) option" where
  "kst_map_kernel t va pa flags s =
     map_option (\<lambda>(r, w). (r, s\<lparr>cells := w\<rparr>)) (page_table_map_kernel t va pa flags (cells s))"

definition kst_map_user :: "translation_tables \<Rightarrow> u64 \<Rightarrow> u64 \<Rightarrow> c_int \<Rightarrow> kst \<Rightarrow> (c_int \<times> kst) option" where
  "kst_map_user t va pa flags s =
     map_option (\<lambda>(r, w). (r, s\<lparr>cells := w\<rparr>)) (page_table_map_user t va pa flags (cells s))"

definition kst_map_device :: "translation_tables \<Rightarrow> u64 \<Rightarrow> u64 \<Rightarrow> c_int \<Rightarrow> kst \<Rightarrow> (c_int \<times> kst) option" where
  "kst_map_device t va pa flags s =
     map_option (\<lambda>(r, w). (r, s\<lparr>cells := w\<rparr>)) (page_table_map_device t va pa flags (cells s))"

subsection \<open>The current process (execve.c)\<close>

definition set_current_process :: "u64 \<Rightarrow> kst \<Rightarrow> kst" where
  "set_current_process p s = s\<lparr>ks := (ks s)\<lparr>current := p\<rparr>\<rparr>"

definition get_current_process_pid :: "kst \<Rightarrow> c_int" where
  "get_current_process_pid s = (if current (ks s) = 0 then -1 else pid (procs s (current (ks s))))"

subsection \<open>The lists of the kernel\<close>

text \<open>The \<open>next\<close> fields of the three stores satisfy the laws of a linked store.\<close>

definition set_fd_next :: "u64 \<Rightarrow> u64 \<Rightarrow> (u64 \<Rightarrow> fd_table) \<Rightarrow> u64 \<Rightarrow> fd_table" where
  "set_fd_next p q st = st(p := (st p)\<lparr>fd_next := q\<rparr>)"

definition set_region_next :: "u64 \<Rightarrow> u64 \<Rightarrow> (u64 \<Rightarrow> mem_region) \<Rightarrow> u64 \<Rightarrow> mem_region" where
  "set_region_next p q st = st(p := (st p)\<lparr>region_next := q\<rparr>)"

definition set_proc_next :: "u64 \<Rightarrow> u64 \<Rightarrow> (u64 \<Rightarrow> process) \<Rightarrow> u64 \<Rightarrow> process" where
  "set_proc_next p q st = st(p := (st p)\<lparr>proc_next := q\<rparr>)"

interpretation fdl: linked_store "\<lambda>st p. fd_next (st p)" set_fd_next
  by unfold_locales (simp_all add: set_fd_next_def)

interpretation rgl: linked_store "\<lambda>st p. region_next (st p)" set_region_next
  by unfold_locales (simp_all add: set_region_next_def)

interpretation prl: linked_store "\<lambda>st p. proc_next (st p)" set_proc_next
  by unfold_locales (simp_all add: set_proc_next_def)

subsection \<open>The state at load time\<close>

text \<open>
  All of \<open>kernel_struct\<close> and of the heaps is zero when the kernel is loaded, and the hypercall mode
  is \<open>HVC_SYSCALL_IO\<close>; the instances of the properties start from this state.
\<close>

definition zero_frames :: kframe_alloc where
  "zero_frames = \<lparr>frame_count = 0, frame_start = 0, bitmap_frame = 0, bitmap_count = 0,
     frame_lock = 0, available_frame_count = 0\<rparr>"

definition zero_ks :: kernel_struct where
  "zero_ks = \<lparr>heap_start = 0, heap_size = 0, mmap_start = 0, mmap_size = 0, cur_mmap = 0,
     insecure_va_start = 0, insecure_pa_start = 0, insecure_pg_cnt = 0, device_map_start = 0,
     ks_sbrk = 0, ks_sbrk_base = 0, sh_sbrk = 0, sh_sbrk_base = 0, shared_region_size = 0,
     shared_heap_start = 0, shared_heap_size = 0, shared_mmap_start = 0, shared_mmap_size = 0,
     secure_frames = zero_frames, insecure_frames = zero_frames, secure_t = zero_tables,
     insecure_t = zero_tables, sys_table = 0, next_pid = 0, process_head = 0, current = 0,
     mmap_region_head = 0, vma_allocation = 0, fd_head = 0, feat_ID_AA64ISAR0_EL1 = 0,
     feat_ID_AA64ISAR1_EL1 = 0, feat_ID_AA64MMFR0_EL1 = 0, feat_ID_AA64MMFR1_EL1 = 0,
     feat_ID_AA64PFR0_EL1 = 0, feat_ID_AA64PFR1_EL1 = 0, feat_ID_AA64DFR0_EL1 = 0,
     feat_ID_AA64DFR1_EL1 = 0, feat_MIDR_EL1 = 0, feat_MPIDR_EL1 = 0, feat_REVIDR_EL1 = 0\<rparr>"

definition zero_kst :: kst where
  "zero_kst = \<lparr>ks = zero_ks, bytes = (\<lambda>_. 0), cells = (\<lambda>_. 0),
     private_heap = \<lparr>heap_head = 0, heap_tail = 0\<rparr>, shared_heap = \<lparr>heap_head = 0, heap_tail = 0\<rparr>,
     regions = (\<lambda>_. zero_region), fds = (\<lambda>_. zero_fd), procs = (\<lambda>_. zero_process),
     hc_mode = 1, is_realm = 0, shared_bit = 0, requests = [], sysreg = (\<lambda>_. 0),
     pa_base = KERNEL_PA_BASE, pa_binary_end = KERNEL_PA_BASE\<rparr>"

end
