(* ===== verification/Sbrk.thy ===== *)
theory Sbrk
  imports Kernel
begin

text \<open>
  The program breaks of \<open>kernel/vma.c\<close>: \<open>k_sbrk\<close>/\<open>k_brk\<close> for the private heap,
  \<open>shared_sbrk\<close>/\<open>shared_brk\<close> for the shared one, and \<open>generic_sbrk\<close>, which maps new frames behind a
  region. A length is an \<open>int64_t\<close>, held in a 64-bit word and compared with \<open><s\<close>. The locale
  \<open>program_break\<close> is the contract both breaks satisfy; it is interpreted twice.
\<close>

subsection \<open>The operations\<close>

definition k_sbrk :: "u64 \<Rightarrow> kernel_struct \<Rightarrow> u64 \<times> kernel_struct" where
  "k_sbrk len k =
     (if len <s 0 then
        let len = 0 - len; b = ks_sbrk k - len; b = (if b < ks_sbrk_base k then ks_sbrk_base k else b)
        in (b, k\<lparr>ks_sbrk := b\<rparr>)
      else if len = 0 then (ks_sbrk k, k)
      else if len + ks_sbrk k > heap_start k + heap_size k then (to_u64 (- ENOMEM), k)
      else (ks_sbrk k + len, k\<lparr>ks_sbrk := ks_sbrk k + len\<rparr>))"

definition k_brk :: "u64 \<Rightarrow> kernel_struct \<Rightarrow> c_int \<times> kernel_struct" where
  "k_brk address k =
     (if ks_sbrk_base k \<noteq> 0 then (-1, k)
      else if address < heap_start k \<or> address > heap_start k + heap_size k then (- ENOMEM, k)
      else (0, k\<lparr>ks_sbrk_base := address, ks_sbrk := address\<rparr>))"

definition shared_sbrk :: "u64 \<Rightarrow> kernel_struct \<Rightarrow> u64 \<times> kernel_struct" where
  "shared_sbrk len k =
     (if len <s 0 then
        let len = 0 - len; b = sh_sbrk k - len; b = (if b < sh_sbrk_base k then sh_sbrk_base k else b)
        in (b, k\<lparr>sh_sbrk := b\<rparr>)
      else if len = 0 then (sh_sbrk k, k)
      else if len + sh_sbrk k > shared_heap_start k + shared_heap_size k then (to_u64 (- ENOMEM), k)
      else if len + sh_sbrk k < shared_heap_start k then (sh_sbrk_base k, k\<lparr>sh_sbrk := sh_sbrk_base k\<rparr>)
      else (sh_sbrk k + len, k\<lparr>sh_sbrk := sh_sbrk k + len\<rparr>))"

definition shared_brk :: "u64 \<Rightarrow> kernel_struct \<Rightarrow> c_int \<times> kernel_struct" where
  "shared_brk address k =
     (if sh_sbrk_base k \<noteq> 0 then (-1, k)
      else if address < shared_heap_start k \<or> address > shared_heap_start k + shared_heap_size k
      then (- ENOMEM, k)
      else (0, k\<lparr>sh_sbrk_base := address, sh_sbrk := address\<rparr>))"

text \<open>
  \<open>generic_sbrk\<close> on the region list at \<open>head\<close>; \<open>brk\<close> is \<open>*sbrk\<close>, returned updated. The mapping loop
  runs \<open>new_end / PAGE_SIZE_4KB + 1\<close> times; each round takes one frame.
\<close>

fun gs_map_loop ::
  "nat \<Rightarrow> u64 \<Rightarrow> translation_tables \<Rightarrow> u64 \<Rightarrow> u64 \<Rightarrow> bool \<Rightarrow> kst \<Rightarrow> (bool \<times> kst) option" where
  "gs_map_loop 0 i t ptr cur_end kern s = Some (True, s)"
| "gs_map_loop (Suc n) i t ptr cur_end kern s =
     (let (frame, s) = kframe_allocate_secure 1 s in
      if frame = MAP_FAILED then Some (False, s)
      else do {
        (r, s) \<leftarrow> (if kern then kst_map_kernel else kst_map_user)
                    t (cur_end + i * PAGE_SIZE_4KB) frame (PROT_R OR PROT_W) s;
        let s = (if to_u64 r \<noteq> MAP_FAILED
                 then s\<lparr>regions := (regions s)(ptr := (regions s ptr)\<lparr>va_size := va_size (regions s ptr) + PAGE_SIZE_4KB\<rparr>)\<rparr>
                 else s);
        gs_map_loop n (i + 1) t ptr cur_end kern s })"

definition generic_sbrk ::
  "translation_tables \<Rightarrow> u64 \<Rightarrow> u64 \<Rightarrow> u64 \<Rightarrow> bool \<Rightarrow> kst \<Rightarrow> (u64 \<times> u64 \<times> kst) option" where
  "generic_sbrk t head brk len kern s = do {
     ptr \<leftarrow> node_search (\<lambda>p. va_base (regions s p) \<le> brk \<and> va_base (regions s p) + va_size (regions s p) \<ge> brk)
              (\<lambda>p. region_next (regions s p)) head;
     if ptr = 0 then Some (-1, brk, s)
     else
       let new_end = brk + len;
           cur_end = va_base (regions s ptr) + va_size (regions s ptr)
       in if new_end < cur_end then Some (new_end, new_end, s)
          else
            let unused_space = cur_end - brk;
                new_end = PAGE_UP (len - unused_space)
            in do {
              (ok, s) \<leftarrow> gs_map_loop (unat (new_end div PAGE_SIZE_4KB) + 1) 0 t ptr cur_end kern s;
              if ok then Some (brk + len, brk + len, s) else Some (MAP_FAILED, brk, s) } }"

subsection \<open>The contract of a program break\<close>

text \<open>
  \<open>move n s\<close> is one call of the \<open>sbrk\<close> function with the signed length \<open>n\<close>; \<open>brk\<close> is the current
  break, which stays between \<open>low\<close> and \<open>high\<close>.
\<close>

locale program_break =
  fixes move :: "u64 \<Rightarrow> 's \<Rightarrow> u64 \<times> 's"
    and brk low high :: "'s \<Rightarrow> u64"
    and inv :: "'s \<Rightarrow> bool"
  assumes inv_range: "inv s \<Longrightarrow> low s \<le> brk s \<and> brk s \<le> high s \<and> 0x8000000000000000 \<le> unat (low s)"
    and move_zero: "inv s \<Longrightarrow> move 0 s = (brk s, s)"
    and move_up: "inv s \<Longrightarrow> 0 <s n \<Longrightarrow> unat (brk s) + unat n \<le> unat (high s) \<Longrightarrow> move n s = (r, s') \<Longrightarrow>
          r = brk s + n \<and> brk s' = brk s + n \<and> inv s' \<and> low s' = low s \<and> high s' = high s"
    and move_full: "inv s \<Longrightarrow> 0 <s n \<Longrightarrow> unat (high s) < unat (brk s) + unat n \<Longrightarrow>
          unat (brk s) + unat n < 18446744073709551616 \<Longrightarrow> move n s = (to_u64 (- ENOMEM), s)"
    and move_down: "inv s \<Longrightarrow> n <s 0 \<Longrightarrow> move n s = (r, s') \<Longrightarrow>
          r = brk s' \<and> unat (brk s') = max (unat (low s)) (unat (brk s) - unat (- n)) \<and>
          inv s' \<and> low s' = low s \<and> high s' = high s"
begin

text \<open>Every call with a length that does not make the break wrap around keeps the bounds.\<close>

lemma move_inv:
  assumes "inv s" "n <s 0 \<or> unat (brk s) + unat n < 18446744073709551616" "move n s = (r, s')"
  shows "inv s' \<and> low s' = low s \<and> high s' = high s"
proof (cases "n <s 0 \<or> n = 0")
  case True
  then show ?thesis using assms move_down [OF assms(1) _ assms(3)] move_zero [OF assms(1)] by auto
next
  case False
  then have pos: "0 <s n" by (simp add: neg_u64_iff pos_u64_iff unat_gt_0)
  show ?thesis
  proof (cases "unat (brk s) + unat n \<le> unat (high s)")
    case True
    then show ?thesis using move_up [OF assms(1) pos _ assms(3)] by simp
  next
    case False
    then show ?thesis using move_full [OF assms(1) pos] assms \<open>\<not> (n <s 0 \<or> n = 0)\<close>
      by simp
  qed
qed

text \<open>A successful grow returns an address above the space it added, never its start.\<close>

lemma grow_returns_end:
  assumes "inv s" "0 <s n" "unat (brk s) + unat n \<le> unat (high s)" "move n s = (r, s')"
  shows "r = brk s'" "unat r = unat (brk s) + unat n"
proof -
  have "r = brk s + n" "brk s' = brk s + n" using move_up [OF assms] by auto
  moreover have "unat (brk s) + unat n < 18446744073709551616"
    using assms(3) unat_less_2p64 [of "high s"] by linarith
  ultimately show "r = brk s'" "unat r = unat (brk s) + unat n" by (simp_all add: unat_add_nowrap)
qed

lemma grow_shrink:
  assumes "inv s" "0 <s n" "unat (brk s) + unat n \<le> unat (high s)"
    and "move n s = (r, s1)" "move (- n) s1 = (r', s2)"
  shows "brk s2 = brk s" "inv s2"
proof -
  note U = move_up [OF assms(1-4)] and G = grow_returns_end [OF assms(1-4)]
  have neg: "- n <s 0"
  proof -
    have "0 < unat n" "unat n < 0x8000000000000000" using assms(2) by (simp_all add: pos_u64_iff)
    then have "unat (- n) = 0x10000000000000000 - unat n" by (auto simp: unat_neg_u64)
    then show ?thesis using \<open>unat n < 0x8000000000000000\<close> unfolding neg_u64_iff by linarith
  qed
  have D: "unat (brk s2) = max (unat (low s1)) (unat (brk s1) - unat n)" "inv s2"
    using move_down [OF _ neg assms(5)] U by auto
  have "unat (low s) \<le> unat (brk s)" using inv_range [OF assms(1)] by (simp add: word_le_nat_alt)
  then have "unat (brk s2) = unat (brk s)" using D(1) G U by simp
  then show "brk s2 = brk s" "inv s2" using D(2) by (auto intro: unat_eqI)
qed

end

subsection \<open>Both breaks satisfy the contract\<close>

definition k_brk_inv :: "kernel_struct \<Rightarrow> bool" where
  "k_brk_inv k \<longleftrightarrow> heap_start k \<le> ks_sbrk_base k \<and> ks_sbrk_base k \<le> ks_sbrk k \<and>
     ks_sbrk k \<le> heap_start k + heap_size k \<and> 0x8000000000000000 \<le> unat (ks_sbrk_base k)"

definition shared_brk_inv :: "kernel_struct \<Rightarrow> bool" where
  "shared_brk_inv k \<longleftrightarrow> shared_heap_start k \<le> sh_sbrk_base k \<and> sh_sbrk_base k \<le> sh_sbrk k \<and>
     sh_sbrk k \<le> shared_heap_start k + shared_heap_size k \<and> 0x8000000000000000 \<le> unat (sh_sbrk_base k)"

text \<open>The two downward moves compute the same clamped subtraction.\<close>

lemma break_down:
  fixes b n base :: u64
  assumes "n <s 0" "base \<le> b" "0x8000000000000000 \<le> unat base"
  defines "r \<equiv> (if b - (0 - n) < base then base else b - (0 - n))"
  shows "unat r = max (unat base) (unat b - unat (- n))" "base \<le> r" "r \<le> b"
proof -
  have le: "unat (- n) \<le> 0x8000000000000000"
    using assms(1) unfolding neg_u64_iff unat_neg_u64 by auto
  also have "\<dots> \<le> unat b" using assms(2,3) by (simp add: word_le_nat_alt)
  finally have "- n \<le> b" by (simp add: word_le_nat_alt)
  then have "unat (b - (0 - n)) = unat b - unat (- n)" by (simp only: unat_sub_le diff_0)
  then have "unat r = (if unat b - unat (- n) < unat base then unat base else unat b - unat (- n))"
    by (simp add: r_def word_less_nat_alt)
  then show R: "unat r = max (unat base) (unat b - unat (- n))" by simp
  then show "base \<le> r" "r \<le> b" using assms(2) by (simp_all add: word_le_nat_alt)
qed

interpretation kb: program_break k_sbrk ks_sbrk ks_sbrk_base "\<lambda>k. heap_start k + heap_size k" k_brk_inv
proof unfold_locales
  fix k k' :: kernel_struct and n r :: u64
  assume I: "k_brk_inv k"
  show "ks_sbrk_base k \<le> ks_sbrk k \<and> ks_sbrk k \<le> heap_start k + heap_size k \<and>
      0x8000000000000000 \<le> unat (ks_sbrk_base k)"
    using I by (simp add: k_brk_inv_def)
  show "k_sbrk 0 k = (ks_sbrk k, k)" by (simp add: k_sbrk_def)
  { assume n: "0 <s n" and le: "unat (ks_sbrk k) + unat n \<le> unat (heap_start k + heap_size k)"
      and m: "k_sbrk n k = (r, k')"
    have nn: "\<not> n <s 0" "n \<noteq> 0" using n by (auto simp: neg_u64_iff pos_u64_iff)
    have u: "unat (ks_sbrk k + n) = unat (ks_sbrk k) + unat n"
      using le unat_less_2p64 [of "heap_start k + heap_size k"] by (intro unat_add_nowrap) linarith
    have "\<not> n + ks_sbrk k > heap_start k + heap_size k"
      using u le by (simp add: word_less_nat_alt add.commute)
    then have "r = ks_sbrk k + n" "k' = k\<lparr>ks_sbrk := ks_sbrk k + n\<rparr>"
      using m nn by (auto simp: k_sbrk_def)
    moreover have "ks_sbrk_base k \<le> ks_sbrk k + n" "ks_sbrk k + n \<le> heap_start k + heap_size k"
      using u le I by (simp_all add: word_le_nat_alt k_brk_inv_def)
    ultimately show "r = ks_sbrk k + n \<and> ks_sbrk k' = ks_sbrk k + n \<and> k_brk_inv k' \<and>
        ks_sbrk_base k' = ks_sbrk_base k \<and> heap_start k' + heap_size k' = heap_start k + heap_size k"
      using I by (simp add: k_brk_inv_def) }
  { assume n: "0 <s n" and gt: "unat (heap_start k + heap_size k) < unat (ks_sbrk k) + unat n"
      and w: "unat (ks_sbrk k) + unat n < 18446744073709551616"
    have "unat (n + ks_sbrk k) = unat (ks_sbrk k) + unat n"
      using w by (simp add: unat_add_nowrap add.commute)
    then show "k_sbrk n k = (to_u64 (- ENOMEM), k)"
      using n gt by (auto simp: k_sbrk_def neg_u64_iff pos_u64_iff word_less_nat_alt) }
  { assume n: "n <s 0" and m: "k_sbrk n k = (r, k')"
    note D = break_down [OF n, of "ks_sbrk_base k" "ks_sbrk k"]
    show "r = ks_sbrk k' \<and> unat (ks_sbrk k') = max (unat (ks_sbrk_base k)) (unat (ks_sbrk k) - unat (- n)) \<and>
        k_brk_inv k' \<and> ks_sbrk_base k' = ks_sbrk_base k \<and>
        heap_start k' + heap_size k' = heap_start k + heap_size k"
      using I m n D by (auto simp: k_sbrk_def k_brk_inv_def Let_def) }
qed

interpretation sb: program_break shared_sbrk sh_sbrk sh_sbrk_base
  "\<lambda>k. shared_heap_start k + shared_heap_size k" shared_brk_inv
proof unfold_locales
  fix k k' :: kernel_struct and n r :: u64
  assume I: "shared_brk_inv k"
  have lo: "unat (shared_heap_start k) \<le> unat (sh_sbrk k)"
    using I by (simp add: shared_brk_inv_def word_le_nat_alt)
  show "sh_sbrk_base k \<le> sh_sbrk k \<and> sh_sbrk k \<le> shared_heap_start k + shared_heap_size k \<and>
      0x8000000000000000 \<le> unat (sh_sbrk_base k)"
    using I by (simp add: shared_brk_inv_def)
  show "shared_sbrk 0 k = (sh_sbrk k, k)" by (simp add: shared_sbrk_def)
  { assume n: "0 <s n" and le: "unat (sh_sbrk k) + unat n \<le> unat (shared_heap_start k + shared_heap_size k)"
      and m: "shared_sbrk n k = (r, k')"
    have nn: "\<not> n <s 0" "n \<noteq> 0" using n by (auto simp: neg_u64_iff pos_u64_iff)
    have u: "unat (sh_sbrk k + n) = unat (sh_sbrk k) + unat n"
      using le unat_less_2p64 [of "shared_heap_start k + shared_heap_size k"]
      by (intro unat_add_nowrap) linarith
    have "\<not> n + sh_sbrk k > shared_heap_start k + shared_heap_size k" "\<not> n + sh_sbrk k < shared_heap_start k"
      using u le lo by (simp_all add: word_less_nat_alt add.commute [of n])
    then have "r = sh_sbrk k + n" "k' = k\<lparr>sh_sbrk := sh_sbrk k + n\<rparr>"
      using m nn by (auto simp: shared_sbrk_def)
    moreover have "sh_sbrk_base k \<le> sh_sbrk k + n"
      "sh_sbrk k + n \<le> shared_heap_start k + shared_heap_size k"
      using u le I by (simp_all add: word_le_nat_alt shared_brk_inv_def)
    ultimately show "r = sh_sbrk k + n \<and> sh_sbrk k' = sh_sbrk k + n \<and> shared_brk_inv k' \<and>
        sh_sbrk_base k' = sh_sbrk_base k \<and>
        shared_heap_start k' + shared_heap_size k' = shared_heap_start k + shared_heap_size k"
      using I by (simp add: shared_brk_inv_def) }
  { assume n: "0 <s n" and gt: "unat (shared_heap_start k + shared_heap_size k) < unat (sh_sbrk k) + unat n"
      and w: "unat (sh_sbrk k) + unat n < 18446744073709551616"
    have "unat (n + sh_sbrk k) = unat (sh_sbrk k) + unat n"
      using w by (simp add: unat_add_nowrap add.commute)
    then show "shared_sbrk n k = (to_u64 (- ENOMEM), k)"
      using n gt by (auto simp: shared_sbrk_def neg_u64_iff pos_u64_iff word_less_nat_alt) }
  { assume n: "n <s 0" and m: "shared_sbrk n k = (r, k')"
    note D = break_down [OF n, of "sh_sbrk_base k" "sh_sbrk k"]
    show "r = sh_sbrk k' \<and> unat (sh_sbrk k') = max (unat (sh_sbrk_base k)) (unat (sh_sbrk k) - unat (- n)) \<and>
        shared_brk_inv k' \<and> sh_sbrk_base k' = sh_sbrk_base k \<and>
        shared_heap_start k' + shared_heap_size k' = shared_heap_start k + shared_heap_size k"
      using I m n D by (auto simp: shared_sbrk_def shared_brk_inv_def Let_def) }
qed

subsection \<open>Sequences of calls\<close>

definition k_sbrk_run :: "u64 list \<Rightarrow> kernel_struct \<Rightarrow> kernel_struct" where
  "k_sbrk_run ns k = fold (\<lambda>n k. snd (k_sbrk n k)) ns k"

text \<open>C24. From \<open>k_brk\<close> at an address of the heap region on, the private break stays between that
  address and the end of the region, whatever sequence of lengths \<open>k_sbrk\<close> is called with, as
  long as no positive length is so large that it wraps around the address space.\<close>

theorem k_sbrk_stays_in_heap:
  assumes "ks_sbrk_base k = 0" "heap_start k \<le> a" "a \<le> heap_start k + heap_size k"
    "0x8000000000000000 \<le> unat a"
    and "\<forall>n \<in> set ns. n <s 0 \<or> unat (heap_start k + heap_size k) + unat n < 18446744073709551616"
  shows "fst (k_brk a k) = 0 \<and>
     a \<le> ks_sbrk (k_sbrk_run ns (snd (k_brk a k))) \<and>
     ks_sbrk (k_sbrk_run ns (snd (k_brk a k))) \<le> heap_start k + heap_size k"
proof -
  let ?H = "heap_start k + heap_size k"
  have k1: "k_brk a k = (0, k\<lparr>ks_sbrk_base := a, ks_sbrk := a\<rparr>)"
    using assms(1-3) by (simp add: k_brk_def not_less [symmetric])
  define k1 where "k1 = k\<lparr>ks_sbrk_base := a, ks_sbrk := a\<rparr>"
  have I1: "k_brk_inv k1" "ks_sbrk_base k1 = a" "heap_start k1 + heap_size k1 = ?H"
    using assms(2-4) by (simp_all add: k1_def k_brk_inv_def)
  have "k_brk_inv (k_sbrk_run ms k2) \<and> ks_sbrk_base (k_sbrk_run ms k2) = a \<and>
      heap_start (k_sbrk_run ms k2) + heap_size (k_sbrk_run ms k2) = ?H"
    if "k_brk_inv k2" "ks_sbrk_base k2 = a" "heap_start k2 + heap_size k2 = ?H"
      "\<forall>n \<in> set ms. n <s 0 \<or> unat ?H + unat n < 18446744073709551616" for ms k2
    using that
  proof (induction ms arbitrary: k2)
    case Nil
    then show ?case by (simp add: k_sbrk_run_def)
  next
    case (Cons n ms)
    obtain r k3 where m: "k_sbrk n k2 = (r, k3)" by (metis surj_pair)
    have "unat (ks_sbrk k2) \<le> unat ?H"
      using kb.inv_range [OF Cons.prems(1)] Cons.prems(3) by (simp add: word_le_nat_alt)
    then have "n <s 0 \<or> unat (ks_sbrk k2) + unat n < 18446744073709551616"
      using Cons.prems(4) by auto
    note M = kb.move_inv [OF Cons.prems(1) this m]
    have "k_sbrk_run (n # ms) k2 = k_sbrk_run ms k3" by (simp add: k_sbrk_run_def m)
    then show ?case using Cons.IH [of k3] M Cons.prems by simp
  qed
  from this [OF I1 assms(5)] have R: "k_brk_inv (k_sbrk_run ns k1)" "ks_sbrk_base (k_sbrk_run ns k1) = a"
    "heap_start (k_sbrk_run ns k1) + heap_size (k_sbrk_run ns k1) = ?H" by auto
  then have "a \<le> ks_sbrk (k_sbrk_run ns k1) \<and> ks_sbrk (k_sbrk_run ns k1) \<le> ?H"
    using kb.inv_range [OF R(1)] by simp
  then show ?thesis by (simp add: k1 k1_def)
qed

text \<open>A length large enough to wrap around the address space is not refused: \<open>k_sbrk\<close> moves the
  break below the heap, and \<open>shared_sbrk\<close> resets the shared break to its base, so that memory
  already handed out is handed out again.\<close>

lemma sbrk_huge_length:
  assumes "k_brk_inv k" "shared_brk_inv k" "0 <s n"
    and "18446744073709551616 \<le> unat (ks_sbrk k) + unat n"
    and "18446744073709551616 \<le> unat (sh_sbrk k) + unat n"
    and "0x8000000000000000 \<le> unat (heap_start k)" "0x8000000000000000 \<le> unat (shared_heap_start k)"
  shows "k_sbrk n k = (ks_sbrk k + n, k\<lparr>ks_sbrk := ks_sbrk k + n\<rparr>) \<and> ks_sbrk k + n < heap_start k \<and>
         \<not> k_brk_inv (snd (k_sbrk n k)) \<and>
         shared_sbrk n k = (sh_sbrk_base k, k\<lparr>sh_sbrk := sh_sbrk_base k\<rparr>)"
proof -
  have n: "\<not> n <s 0" "n \<noteq> 0" "unat n < 0x8000000000000000"
    using assms(3) by (auto simp: neg_u64_iff pos_u64_iff)
  have wrap: "unat (b + n) < 0x8000000000000000" if "18446744073709551616 \<le> unat b + unat n" for b :: u64
  proof -
    have "unat (b + n) = unat b + unat n - 18446744073709551616"
      using that n(3) unat_less_2p64 [of b] unat_plus_u64 [of b n] by (simp add: mod_if)
    then show ?thesis using n(3) unat_less_2p64 [of b] by linarith
  qed
  have K: "ks_sbrk k + n < heap_start k" "\<not> heap_start k + heap_size k < n + ks_sbrk k"
    and S: "n + sh_sbrk k < shared_heap_start k" "\<not> shared_heap_start k + shared_heap_size k < n + sh_sbrk k"
    using wrap [OF assms(4)] wrap [OF assms(5)] assms(1,2,6,7)
    by (auto simp: word_less_nat_alt word_le_nat_alt add.commute [of n] k_brk_inv_def shared_brk_inv_def)
  have "k_sbrk n k = (ks_sbrk k + n, k\<lparr>ks_sbrk := ks_sbrk k + n\<rparr>)" using n K by (simp add: k_sbrk_def)
  moreover have "\<not> k_brk_inv (k\<lparr>ks_sbrk := ks_sbrk k + n\<rparr>)"
    using K by (auto simp: k_brk_inv_def)
  ultimately show ?thesis using n K S by (simp add: shared_sbrk_def)
qed

subsection \<open>Instances\<close>

text \<open>Heap regions as \<open>enable_mmap\<close> sets them up: 16 MB private, 1 MB shared, in the upper half.\<close>

definition ex_ks :: kernel_struct where
  "ex_ks = zero_ks\<lparr>heap_start := 0xFFFFF00000400000, heap_size := 0x1000000,
     shared_heap_start := 0xFFFFF00000200000, shared_heap_size := 0x100000\<rparr>"

definition ex_ks_brk :: kernel_struct where
  "ex_ks_brk = ex_ks\<lparr>ks_sbrk_base := 0xFFFFF00000400000, ks_sbrk := 0xFFFFF00000400000,
     sh_sbrk_base := 0xFFFFF00000200000, sh_sbrk := 0xFFFFF00000200000\<rparr>"

theorem k_sbrk_stays_in_heap_witness:
  "fst (k_brk 0xFFFFF00000400000 ex_ks) = 0 \<and>
   0xFFFFF00000400000 \<le> ks_sbrk (k_sbrk_run [0x2000, 0x5000, - 0x9000] (snd (k_brk 0xFFFFF00000400000 ex_ks))) \<and>
   ks_sbrk (k_sbrk_run [0x2000, 0x5000, - 0x9000] (snd (k_brk 0xFFFFF00000400000 ex_ks)))
     \<le> heap_start ex_ks + heap_size ex_ks"
  by (rule k_sbrk_stays_in_heap) (simp_all add: ex_ks_def zero_ks_def word_sless_alt)

lemma sbrk_huge_length_witness:
  "k_sbrk 0x100000000000 ex_ks_brk =
     (ks_sbrk ex_ks_brk + 0x100000000000, ex_ks_brk\<lparr>ks_sbrk := ks_sbrk ex_ks_brk + 0x100000000000\<rparr>) \<and>
   ks_sbrk ex_ks_brk + 0x100000000000 < heap_start ex_ks_brk \<and>
   \<not> k_brk_inv (snd (k_sbrk 0x100000000000 ex_ks_brk)) \<and>
   shared_sbrk 0x100000000000 ex_ks_brk =
     (sh_sbrk_base ex_ks_brk, ex_ks_brk\<lparr>sh_sbrk := sh_sbrk_base ex_ks_brk\<rparr>)"
  by (rule sbrk_huge_length)
    (simp_all add: ex_ks_brk_def ex_ks_def zero_ks_def k_brk_inv_def shared_brk_inv_def pos_u64_iff)

end
