(* ===== verification/Memops.thy ===== *)
theory Memops
  imports Prelude
begin

text \<open>
  Byte memory operations: \<open>memops.c\<close> (\<open>memset\<close>, \<open>memcmp\<close>, \<open>memcpy\<close>). \<open>memset\<close> writes single
  bytes up to an 8-byte boundary, then 64-bit words, then the rest; its three loops are the three
  functions below, composed as the code composes them.
\<close>

subsection \<open>memset\<close>

text \<open>A 64-bit little-endian store.\<close>

definition store64 :: "bytemem \<Rightarrow> u64 \<Rightarrow> u64 \<Rightarrow> bytemem" where
  "store64 m p v = (\<lambda>x. if unat (x - p) < 8 then ucast (drop_bit (8 * unat (x - p)) v) else m x)"

lemma and_7: "unat ((x::u64) AND 7) = unat x mod 8"
proof -
  have "x AND 7 = take_bit 3 x" by (simp add: take_bit_eq_mask mask_eq_exp_minus_1)
  then have "x AND 7 = x mod 8" by (simp add: take_bit_eq_mod)
  then show ?thesis by (simp add: unat_mod)
qed

lemma and_7_step:
  assumes "(p::u64) AND 7 \<noteq> 0"
  shows "unat ((- (p + 1)) AND 7) < unat ((- p) AND 7)"
proof -
  have a: "unat p mod 8 \<noteq> 0" using assms and_7 [of p] by (metis unat_eq_0)
  then have p: "p \<noteq> 0" by auto
  have p1: "unat (p + 1) = unat p + 1 \<or> p + 1 = 0"
    using unat_less_2p64 [of p] by (auto simp: unat_plus_u64 unat_eq_0 [symmetric] mod_if)
  have n: "unat (- p) = 18446744073709551616 - unat p" using p by (simp add: unat_neg_u64)
  show ?thesis
  proof (cases "p + 1 = 0")
    case True
    then have "p = -1" by (simp add: eq_neg_iff_add_eq_0)
    then show ?thesis by simp
  next
    case False
    then have n1: "unat (- (p + 1)) = 18446744073709551616 - (unat p + 1)"
      using p1 unfolding unat_neg_u64 by (simp del: minus_add_distrib)
    define q r where "q = unat p div 8" and "r = unat p mod 8"
    have u: "unat p = 8 * q + r" and r: "0 < r" "r < 8"
      using a by (simp_all add: q_def r_def)
    have q: "q < 2305843009213693952" using u unat_less_2p64 [of p] by linarith
    have "18446744073709551616 - unat p = 8 * (2305843009213693951 - q) + (8 - r)"
      "18446744073709551616 - (unat p + 1) = 8 * (2305843009213693951 - q) + (7 - r)"
      using u q r by linarith+
    note E = this
    have M: "(8 * x + y) mod 8 = y" if "y < 8" for x y :: nat using that by simp
    have "(18446744073709551616 - unat p) mod 8 = 8 - r"
      "(18446744073709551616 - (unat p + 1)) mod 8 = 7 - r"
      unfolding E using r by (simp_all only: M diff_less zero_less_numeral less_imp_diff_less)
    then show ?thesis unfolding and_7 n n1 using r by linarith
  qed
qed

function memset_head :: "bytemem \<Rightarrow> u64 \<Rightarrow> u8 \<Rightarrow> u64 \<Rightarrow> bytemem \<times> u64 \<times> u64" where
  "memset_head m ptr val count =
     (if ptr AND 7 \<noteq> 0 then
        let m = m(ptr := val); ptr = ptr + 1; count = count - 1
        in if count = 0 then (m, ptr, count) else memset_head m ptr val count
      else (m, ptr, count))"
  by pat_completeness auto
termination
  by (relation "measure (\<lambda>(m, ptr, val, count). unat ((- ptr) AND 7))")
    (auto intro: and_7_step simp del: minus_add_distrib)

function memset_words :: "bytemem \<Rightarrow> u64 \<Rightarrow> u64 \<Rightarrow> u64 \<Rightarrow> bytemem \<times> u64 \<times> u64" where
  "memset_words m ptr64 fill count =
     (if count \<ge> 8 then memset_words (store64 m ptr64 fill) (ptr64 + 8) fill (count - 8)
      else (m, ptr64, count))"
  by pat_completeness auto
termination
  by (relation "measure (\<lambda>(m, ptr, fill, count). unat count)")
    (auto simp: unat_sub word_le_nat_alt)

function memset_tail :: "bytemem \<Rightarrow> u64 \<Rightarrow> u8 \<Rightarrow> u64 \<Rightarrow> bytemem" where
  "memset_tail m ptr val count =
     (if count > 0 then memset_tail (m(ptr := val)) (ptr + 1) val (count - 1) else m)"
  by pat_completeness auto
termination
  by (relation "measure (\<lambda>(m, ptr, val, count). unat count)")
    (auto simp: unat_dec_less)

declare memset_head.simps [simp del] memset_words.simps [simp del] memset_tail.simps [simp del]

definition memset :: "bytemem \<Rightarrow> u64 \<Rightarrow> c_int \<Rightarrow> u64 \<Rightarrow> u64 \<times> bytemem" where
  "memset m dst val count =
     (let fill = ucast (ucast val :: u8) :: u64 in
      if count = 0 then (dst, m)
      else
        let (m, ptr, count) = memset_head m dst (ucast val) count in
        if count = 0 then (dst, m)
        else
          let fill = fill OR push_bit 8 fill;
              fill = fill OR push_bit 16 fill;
              fill = fill OR push_bit 32 fill;
              (m, ptr, count) = memset_words m ptr fill count
          in (dst, memset_tail m ptr (ucast val) count))"

text \<open>The memory with the \<open>n\<close> bytes from \<open>a\<close> on set to \<open>v\<close>.\<close>

definition mem_fill :: "bytemem \<Rightarrow> u64 \<Rightarrow> nat \<Rightarrow> u8 \<Rightarrow> bytemem" where
  "mem_fill m a n v = (\<lambda>x. if unat (x - a) < n then v else m x)"

lemma mem_fill_0 [simp]: "mem_fill m a 0 v = m"
  by (simp add: mem_fill_def)

lemma mem_fill_add:
  assumes "i + n < 18446744073709551616"
  shows "mem_fill (mem_fill m a i v) (a + of_nat i) n v = mem_fill m a (i + n) v"
proof
  fix x :: u64
  have i: "unat (of_nat i :: u64) = i" using assms by (intro unat_of_nat_u64) simp
  define d where "d = x - a"
  have e: "x - (a + of_nat i) = d - of_nat i" by (simp add: d_def)
  have "unat d < i \<or> unat (d - of_nat i) < n \<longleftrightarrow> unat d < i + n"
  proof (cases "unat d < i")
    case False
    then have "unat (d - of_nat i) = unat d - i" using i by (simp add: unat_sub word_le_nat_alt)
    then show ?thesis using False by auto
  qed simp
  then show "mem_fill (mem_fill m a i v) (a + of_nat i) n v x = mem_fill m a (i + n) v x"
    unfolding mem_fill_def e d_def [symmetric] by auto
qed

lemma mem_fill_1: "m(a := v) = mem_fill m a 1 v"
  by (auto simp: mem_fill_def fun_eq_iff unat_eq_0)

lemma memset_tail_fill:
  "memset_tail m ptr val count = mem_fill m ptr (unat count) val"
proof (induction m ptr val count rule: memset_tail.induct)
  case (1 m ptr val count)
  show ?case
  proof (cases "count > 0")
    case True
    then have c: "1 + unat (count - 1) = unat count" using unat_dec [of count] by simp
    have "memset_tail m ptr val count = mem_fill (mem_fill m ptr 1 val) (ptr + of_nat 1) (unat (count - 1)) val"
      using 1 True by (simp add: memset_tail.simps [of m] mem_fill_1)
    also have "\<dots> = mem_fill m ptr (1 + unat (count - 1)) val"
      by (rule mem_fill_add) (use c unat_less_2p64 [of count] in linarith)
    finally show ?thesis by (simp only: c)
  next
    case False
    then show ?thesis by (simp add: memset_tail.simps [of m] word_less_nat_alt)
  qed
qed

lemma memset_head_fill:
  "count \<noteq> 0 \<Longrightarrow> memset_head m ptr val count = (m', ptr', count') \<Longrightarrow>
   \<exists>i. m' = mem_fill m ptr i val \<and> ptr' = ptr + of_nat i \<and> i + unat count' = unat count"
proof (induction m ptr val count arbitrary: m' ptr' count' rule: memset_head.induct)
  case (1 m ptr val count)
  have c: "1 + unat (count - 1) = unat count"
    using 1(2) unat_dec [of count] by simp
  show ?case
  proof (cases "ptr AND 7 \<noteq> 0")
    case False
    then show ?thesis using 1(3) by (auto simp: memset_head.simps [of m] intro!: exI [of _ 0])
  next
    case True
    show ?thesis
    proof (cases "count - 1 = 0")
      case True
      have "memset_head m ptr val count = (m(ptr := val), ptr + 1, 0)"
        using True \<open>ptr AND 7 \<noteq> 0\<close> by (subst memset_head.simps) (simp add: Let_def)
      then have e: "m' = m(ptr := val)" "ptr' = ptr + of_nat 1" "count' = 0" using 1(3) by auto
      have "m' = mem_fill m ptr 1 val" using e(1) mem_fill_1 by (rule trans)
      moreover have "1 + unat count' = unat count" using c True e(3) by simp
      ultimately show ?thesis using e(2) by blast
    next
      case False
      then have "memset_head (m(ptr := val)) (ptr + 1) val (count - 1) = (m', ptr', count')"
        using 1(3) True by (subst (asm) memset_head.simps) (simp add: Let_def)
      from 1(1) [OF True refl refl refl False False this] obtain i where
        i: "m' = mem_fill (m(ptr := val)) (ptr + 1) i val" "ptr' = ptr + 1 + of_nat i"
          "i + unat count' = unat (count - 1)" by blast
      have "mem_fill (mem_fill m ptr 1 val) (ptr + of_nat 1) i val = mem_fill m ptr (1 + i) val"
        by (rule mem_fill_add) (use i(3) c unat_less_2p64 [of count] in linarith)
      then have "m' = mem_fill m ptr (1 + i) val" using i(1) by (simp only: mem_fill_1 of_nat_1)
      moreover have "ptr' = ptr + of_nat (1 + i)" "1 + i + unat count' = unat count"
        using i(2,3) c by simp_all
      ultimately show ?thesis by blast
    qed
  qed
qed

text \<open>The word that repeats a byte, and one 64-bit store of it.\<close>

definition fill64 :: "u8 \<Rightarrow> u64" where
  "fill64 v =
     (let fill = ucast v; fill = fill OR push_bit 8 fill; fill = fill OR push_bit 16 fill
      in fill OR push_bit 32 fill)"

lemma fill64_byte: "k < 8 \<Longrightarrow> (ucast (drop_bit (8 * k) (fill64 v)) :: u8) = v"
proof -
  have hi: "\<not> bit v n" if "8 \<le> n" for n using that bit_imp_le_length [of v n] by auto
  assume "k < 8"
  then consider "k = 0" | "k = 1" | "k = 2" | "k = 3" | "k = 4" | "k = 5" | "k = 6" | "k = 7"
    by linarith
  then show ?thesis
    by cases (rule bit_word_eqI, force simp: fill64_def Let_def bit_simps hi)+
qed

lemma store64_fill: "store64 m p (fill64 v) = mem_fill m p 8 v"
  by (auto simp: store64_def mem_fill_def fun_eq_iff fill64_byte)

lemma memset_words_fill:
  "memset_words m ptr (fill64 val) count = (m', ptr', count') \<Longrightarrow>
   \<exists>i. m' = mem_fill m ptr i val \<and> ptr' = ptr + of_nat i \<and> i + unat count' = unat count"
proof (induction m ptr "fill64 val" count arbitrary: m' ptr' count' rule: memset_words.induct)
  case (1 m ptr count)
  show ?case
  proof (cases "count \<ge> 8")
    case False
    then have "m' = mem_fill m ptr 0 val" "ptr' = ptr + of_nat 0" "0 + unat count' = unat count"
      using 1(2) by (simp_all add: memset_words.simps [of m])
    then show ?thesis by blast
  next
    case True
    then have "memset_words (store64 m ptr (fill64 val)) (ptr + 8) (fill64 val) (count - 8) = (m', ptr', count')"
      using 1(2) by (subst (asm) memset_words.simps) simp
    from 1(1) [OF True this] obtain i where
      i: "m' = mem_fill (mem_fill m ptr 8 val) (ptr + of_nat 8) i val" "ptr' = ptr + 8 + of_nat i"
        "i + unat count' = unat (count - 8)" by (auto simp: store64_fill)
    have c: "8 + unat (count - 8) = unat count"
      using True by (simp add: unat_sub_le word_le_nat_alt)
    have "mem_fill (mem_fill m ptr 8 val) (ptr + of_nat 8) i val = mem_fill m ptr (8 + i) val"
      by (rule mem_fill_add) (use i(3) c unat_less_2p64 [of count] in linarith)
    then have "m' = mem_fill m ptr (8 + i) val" using i(1) by simp
    moreover have "ptr' = ptr + of_nat (8 + i)" "8 + i + unat count' = unat count"
      using i(2,3) c by simp_all
    ultimately show ?thesis by blast
  qed
qed

lemma memset_fill_aux: "memset m dst val count = (dst, mem_fill m dst (unat count) (ucast val))"
proof (cases "count = 0")
  case True
  then show ?thesis by (simp add: memset_def)
next
  case False
  let ?v = "ucast val :: u8"
  obtain m1 p1 c1 where H: "memset_head m dst ?v count = (m1, p1, c1)" by (metis prod_cases3)
  from memset_head_fill [OF False H] obtain i where
    i: "m1 = mem_fill m dst i ?v" "p1 = dst + of_nat i" "i + unat c1 = unat count" by blast
  show ?thesis
  proof (cases "c1 = 0")
    case True
    then show ?thesis using i False by (simp add: memset_def H)
  next
    case c1: False
    obtain m2 p2 c2 where W: "memset_words m1 p1 (fill64 ?v) c1 = (m2, p2, c2)" by (metis prod_cases3)
    from memset_words_fill [OF W] obtain j where
      j: "m2 = mem_fill m1 p1 j ?v" "p2 = p1 + of_nat j" "j + unat c2 = unat c1" by blast
    have lt: "unat count < 18446744073709551616" by (rule unat_less_2p64)
    have "mem_fill m2 p2 (unat c2) ?v = mem_fill m1 p1 (j + unat c2) ?v"
      unfolding j(1,2) by (rule mem_fill_add) (use i(3) j(3) lt in linarith)
    also have "\<dots> = mem_fill m dst (i + (j + unat c2)) ?v"
      unfolding i(1,2) by (rule mem_fill_add) (use i(3) j(3) lt in linarith)
    finally have "mem_fill m2 p2 (unat c2) ?v = mem_fill m dst (unat count) ?v"
      using i(3) j(3) by simp
    moreover have "memset m dst val count = (dst, memset_tail m2 p2 ?v c2)"
      using False c1 W by (simp add: memset_def H fill64_def Let_def)
    ultimately show ?thesis by (simp add: memset_tail_fill)
  qed
qed

text \<open>C22. The word-at-a-time \<open>memset\<close> is bytewise \<open>memset\<close> for every address, alignment and count:
  it returns \<open>dst\<close> and sets exactly the \<open>count\<close> bytes from \<open>dst\<close> on to the low byte of \<open>val\<close>.\<close>

theorem memset_is_fill:
  "memset m dst val count =
     (dst, \<lambda>x. if unat (x - dst) < unat count then ucast val else m x)"
  by (simp add: memset_fill_aux mem_fill_def)

subsection \<open>memcmp and memcpy\<close>

text \<open>\<open>do { if (*p1++ != *p2++) return ...; } while (--n != 0)\<close>, for \<open>n\<close> not zero.\<close>

function memcmp_loop :: "bytemem \<Rightarrow> u64 \<Rightarrow> u64 \<Rightarrow> u64 \<Rightarrow> c_int" where
  "memcmp_loop m p1 p2 n =
     (if m p1 \<noteq> m p2 then ucast (m p1) - ucast (m p2)
      else if n - 1 \<noteq> 0 \<and> n \<noteq> 0 then memcmp_loop m (p1 + 1) (p2 + 1) (n - 1) else 0)"
  by pat_completeness auto
termination
  by (relation "measure (\<lambda>(m, p1, p2, n). unat n)") (auto simp: unat_dec_less)

declare memcmp_loop.simps [simp del]

definition memcmp :: "bytemem \<Rightarrow> u64 \<Rightarrow> u64 \<Rightarrow> u64 \<Rightarrow> c_int" where
  "memcmp m s1 s2 n = (if n \<noteq> 0 then memcmp_loop m s1 s2 n else 0)"

function memcpy_loop :: "bytemem \<Rightarrow> u64 \<Rightarrow> u64 \<Rightarrow> u64 \<Rightarrow> bytemem" where
  "memcpy_loop m t f n = (if n > 0 then memcpy_loop (m(t := m f)) (t + 1) (f + 1) (n - 1) else m)"
  by pat_completeness auto
termination
  by (relation "measure (\<lambda>(m, t, f, n). unat n)") (auto simp: unat_dec_less)

declare memcpy_loop.simps [simp del]

definition memcpy :: "bytemem \<Rightarrow> u64 \<Rightarrow> u64 \<Rightarrow> u64 \<Rightarrow> u64 \<times> bytemem" where
  "memcpy m s1 s2 n = (s1, memcpy_loop m s1 s2 n)"

lemma memcmp_loop_zero:
  "n \<noteq> 0 \<Longrightarrow> memcmp_loop m p1 p2 n = 0 \<longleftrightarrow> (\<forall>i < unat n. m (p1 + of_nat i) = m (p2 + of_nat i))"
proof (induction m p1 p2 n rule: memcmp_loop.induct)
  case (1 m p1 p2 n)
  have U: "unat n = Suc (unat (n - 1))" using unat_dec [OF 1(2)] by simp
  have D: "(ucast a - ucast b :: c_int) = 0 \<longleftrightarrow> a = b" for a b :: u8
    by (simp add: u8_c_int_eq_iff)
  show ?case
  proof (cases "m p1 = m p2")
    case False
    then show ?thesis using D by (auto simp: memcmp_loop.simps [of m p1] U intro!: exI [of _ 0])
  next
    case True
    show ?thesis
    proof (cases "n - 1 = 0")
      case True
      then show ?thesis using \<open>m p1 = m p2\<close> U by (subst memcmp_loop.simps) auto
    next
      case False
      then have "memcmp_loop m p1 p2 n = memcmp_loop m (p1 + 1) (p2 + 1) (n - 1)"
        using True 1(2) by (subst memcmp_loop.simps) simp
      moreover have "(\<forall>i < unat n. m (p1 + of_nat i) = m (p2 + of_nat i)) \<longleftrightarrow>
          (\<forall>i < unat (n - 1). m (p1 + 1 + of_nat i) = m (p2 + 1 + of_nat i))"
        using True by (simp add: U All_less_Suc2 add.assoc)
      ultimately show ?thesis using 1(1) [OF _ _ False] True False 1(2) by auto
    qed
  qed
qed

lemma memcpy_loop_copy:
  "unat n \<le> unat (t - f) \<or> t = f \<Longrightarrow>
   memcpy_loop m t f n = (\<lambda>x. if unat (x - t) < unat n then m (f + (x - t)) else m x)"
proof (induction m t f n rule: memcpy_loop.induct)
  case (1 m t f n)
  show ?case
  proof (cases "n > 0")
    case False
    then show ?thesis by (simp add: memcpy_loop.simps [of m] word_less_nat_alt)
  next
    case True
    then have n: "unat n = Suc (unat (n - 1))" using unat_dec [of n] by simp
    let ?m = "m(t := m f)"
    have "unat (n - 1) \<le> unat ((t + 1) - (f + 1)) \<or> t + 1 = f + 1" using 1(2) n by auto
    from 1(1) [OF True this]
    have "memcpy_loop m t f n =
        (\<lambda>x. if unat (x - (t + 1)) < unat (n - 1) then ?m (f + 1 + (x - (t + 1))) else ?m x)"
      using True by (subst memcpy_loop.simps) (simp del: fun_upd_apply)
    moreover have "(if unat (x - (t + 1)) < unat (n - 1) then ?m (f + 1 + (x - (t + 1))) else ?m x) =
        (if unat (x - t) < unat n then m (f + (x - t)) else m x)" for x
    proof (cases "x = t")
      case True
      then have "unat (x - (t + 1)) = 18446744073709551615" by simp
      then show ?thesis using True n unat_less_2p64 [of n] by simp
    next
      case False
      then have d: "Suc (unat (x - t - 1)) = unat (x - t)" by (intro unat_dec) simp
      have e: "x - (t + 1) = x - t - 1" "f + 1 + (x - (t + 1)) = f + (x - t)" by simp_all
      have "f + (x - t) = t \<Longrightarrow> x - t = t - f" by (simp add: algebra_simps)
      then have "unat (x - t) < unat n \<Longrightarrow> f + (x - t) \<noteq> t" using 1(2) False by auto
      then show ?thesis unfolding e using False d n by auto
    qed
    ultimately show ?thesis by simp
  qed
qed

text \<open>C29. \<open>memcpy\<close> copies exactly \<open>n\<close> bytes and nothing else whenever the destination does not
  start inside the source, so in particular for disjoint buffers and for copies towards lower
  addresses; afterwards \<open>memcmp\<close> of disjoint source and destination is 0, and \<open>memcmp\<close> is 0
  exactly for equal contents.\<close>

theorem memcpy_memcmp:
  assumes "unat n \<le> unat (t - f)"
  shows "memcpy m t f n = (t, \<lambda>x. if unat (x - t) < unat n then m (f + (x - t)) else m x) \<and>
         (memcmp m t f n = 0 \<longleftrightarrow> (\<forall>i < unat n. m (t + of_nat i) = m (f + of_nat i))) \<and>
         (unat n \<le> unat (f - t) \<longrightarrow> memcmp (snd (memcpy m t f n)) t f n = 0)"
proof -
  have C: "memcpy m t f n = (t, \<lambda>x. if unat (x - t) < unat n then m (f + (x - t)) else m x)"
    using memcpy_loop_copy [of n t f m] assms by (simp add: memcpy_def)
  have Z: "memcmp m' t f n = 0 \<longleftrightarrow> (\<forall>i < unat n. m' (t + of_nat i) = m' (f + of_nat i))" for m'
    by (cases "n = 0") (simp_all add: memcmp_def memcmp_loop_zero)
  have "memcmp (snd (memcpy m t f n)) t f n = 0" if d: "unat n \<le> unat (f - t)"
    unfolding Z C snd_conv
  proof (intro allI impI)
    fix i assume i: "i < unat n"
    then have u: "unat (of_nat i :: u64) = i"
      using unat_less_2p64 [of n] by (intro unat_of_nat_u64) linarith
    have "\<not> unat (f + of_nat i - t) < unat n"
    proof
      assume lt: "unat (f + of_nat i - t) < unat n"
      have tf: "unat (t - f) = 18446744073709551616 - unat (f - t)" if "f \<noteq> t"
        using unat_neg_u64 [of "f - t"] that by simp
      have "f \<noteq> t" using d i by auto
      have "f + of_nat i - t = (f - t) + of_nat i" by simp
      then have "unat (f + of_nat i - t) = (unat (f - t) + i) mod 18446744073709551616"
        using u by (simp only: unat_plus_u64)
      moreover have "unat (f - t) + i < 18446744073709551616"
        using tf [OF \<open>f \<noteq> t\<close>] assms i unat_less_2p64 [of "f - t"] by linarith
      ultimately show False using lt d by simp
    qed
    then show "(if unat (t + of_nat i - t) < unat n then m (f + (t + of_nat i - t)) else m (t + of_nat i)) =
        (if unat (f + of_nat i - t) < unat n then m (f + (f + of_nat i - t)) else m (f + of_nat i))"
      using i u by simp
  qed
  with C Z show ?thesis by blast
qed

text \<open>A small memory: byte \<open>n\<close> holds \<open>n\<close>.\<close>

theorem memcpy_memcmp_witness:
  "memcpy ucast 0x100 0x40 0x20 =
     (0x100, \<lambda>x. if unat (x - 0x100) < unat (0x20::u64) then ucast (0x40 + (x - 0x100)) else ucast x) \<and>
   memcmp (snd (memcpy ucast 0x100 0x40 0x20)) 0x100 0x40 0x20 = 0"
proof -
  have a: "unat (0x20::u64) \<le> unat ((0x100::u64) - 0x40)" "unat (0x20::u64) \<le> unat ((0x40::u64) - 0x100)"
    by simp_all
  show ?thesis using memcpy_memcmp [OF a(1), of ucast] a(2) by blast
qed

end
