(* ===== verification/Heap.thy ===== *)
theory Heap
  imports Sbrk Memops
begin

text \<open>
  The kernel heap of \<open>kernel/heap.c\<close>: a list of chunks, each a 32-byte header
  (\<open>size\<close>, \<open>used\<close>, \<open>address\<close>, \<open>next\<close>) followed by its payload, in the 64-bit cells. There is a
  private heap (\<open>kmalloc\<close>, \<open>kcalloc\<close>, \<open>kfree\<close>) behind \<open>k_sbrk\<close> and a shared one (\<open>smalloc\<close>,
  \<open>scalloc\<close>, \<open>sfree\<close>) behind \<open>shared_sbrk\<close>.
\<close>

subsection \<open>Chunk headers\<close>

definition HEAP_MIN_SIZE :: u64 where "HEAP_MIN_SIZE = 0x2000"
definition MIN_HEAP_ALLOC :: u64 where "MIN_HEAP_ALLOC = sizeof_ptr + sizeof_mem_chunk"

definition ck_size :: "wordmem \<Rightarrow> u64 \<Rightarrow> u64" where "ck_size m p = m p"
definition ck_used :: "wordmem \<Rightarrow> u64 \<Rightarrow> u64" where "ck_used m p = m (p + 8)"
definition ck_address :: "wordmem \<Rightarrow> u64 \<Rightarrow> u64" where "ck_address m p = m (p + 16)"
definition ck_next :: "wordmem \<Rightarrow> u64 \<Rightarrow> u64" where "ck_next m p = m (p + 24)"

definition set_size :: "u64 \<Rightarrow> u64 \<Rightarrow> wordmem \<Rightarrow> wordmem" where "set_size p v m = m(p := v)"
definition set_used :: "u64 \<Rightarrow> u64 \<Rightarrow> wordmem \<Rightarrow> wordmem" where "set_used p v m = m(p + 8 := v)"
definition set_address :: "u64 \<Rightarrow> u64 \<Rightarrow> wordmem \<Rightarrow> wordmem" where "set_address p v m = m(p + 16 := v)"
definition set_next :: "u64 \<Rightarrow> u64 \<Rightarrow> wordmem \<Rightarrow> wordmem" where "set_next p v m = m(p + 24 := v)"

lemmas ck_defs = ck_size_def ck_used_def ck_address_def ck_next_def
  set_size_def set_used_def set_address_def set_next_def

subsection \<open>The operations\<close>

text \<open>\<open>align\<close> ignores its second argument and always rounds to the size of a pointer.\<close>

definition align :: "u64 \<Rightarrow> u64 \<Rightarrow> u64" where
  "align n sz = (n + sizeof_ptr - 1) AND NOT (sizeof_ptr - 1)"

definition split :: "u64 \<Rightarrow> u64 \<Rightarrow> wordmem \<Rightarrow> c_int \<times> wordmem" where
  "split ptr start_size m =
     (if ck_used m ptr \<noteq> 0 then (0, m)
      else
        let total_size = 2 * sizeof_mem_chunk;
            total_size = align total_size sizeof_ptr + start_size
        in if ck_size m ptr \<le> total_size then (0, m)
           else
             let start_size = start_size + sizeof_mem_chunk;
                 start_size = align start_size sizeof_ptr;
                 tmp = ptr + start_size;
                 m = set_size tmp (ck_size m ptr - start_size) m;
                 m = set_next tmp (ck_next m ptr) m;
                 m = set_used tmp 0 m;
                 m = set_size ptr start_size m;
                 m = set_next ptr tmp m
             in (1, m))"

text \<open>The end of \<open>_malloc\<close>: the label \<open>success\<close>.\<close>

definition malloc_success :: "u64 \<Rightarrow> group_heap \<Rightarrow> wordmem \<Rightarrow> u64 \<times> group_heap \<times> wordmem" where
  "malloc_success tmp heap m =
     (let m = set_used tmp 1 m;
          m = set_address tmp (tmp + sizeof_mem_chunk) m;
          heap = (if tmp = heap_tail heap
                  then heap\<lparr>heap_tail := (if ck_next m tmp = 0 then tmp else ck_next m tmp)\<rparr> else heap)
      in (ck_address m tmp, heap, m))"

text \<open>\<open>_malloc\<close>; \<open>None\<close> when the search of the list does not return.\<close>

definition heap_malloc ::
  "group_heap \<Rightarrow> u64 \<Rightarrow> bool \<Rightarrow> wordmem \<Rightarrow> kernel_struct \<Rightarrow>
   (u64 \<times> group_heap \<times> wordmem \<times> kernel_struct) option" where
  "heap_malloc heap sz shared m k =
     (if sz = 0 then Some (0, heap, m, k)
      else
        let alloc_size = align (sz + sizeof_mem_chunk) sizeof_ptr in do {
        tmp \<leftarrow> node_search (\<lambda>p. ck_used m p = 0 \<and> ck_size m p \<ge> alloc_size) (ck_next m) (heap_head heap);
        if tmp \<noteq> 0 then
          let (ok, m) = (if ck_size m tmp > alloc_size + MIN_HEAP_ALLOC then split tmp sz m else (1, m))
          in if ok = 0 then Some (0, heap, m, k)
             else let (r, heap, m) = malloc_success tmp heap m in Some (r, heap, m, k)
        else
          let (tmp, k) = (if shared then shared_sbrk alloc_size k else k_sbrk alloc_size k) in
          if tmp = 0 then Some (0, heap, m, k)
          else
            let m = set_size tmp alloc_size m;
                m = set_next tmp 0 m;
                m = set_used tmp 0 m;
                m = set_address tmp 0 m;
                heap = heap\<lparr>heap_tail := tmp\<rparr>;
                (r, heap, m) = malloc_success tmp heap m
            in Some (r, heap, m, k) })"

text \<open>The search loop of \<open>_free\<close> with its two variables \<open>prev\<close> and \<open>ptr\<close>.\<close>

partial_function (option) free_search :: "wordmem \<Rightarrow> u64 \<Rightarrow> u64 \<Rightarrow> u64 \<Rightarrow> (u64 \<times> u64) option" where
  "free_search m addr prev ptr =
     (if ptr = 0 then Some (prev, 0)
      else if ck_address m ptr = addr then Some (prev, ptr)
      else free_search m addr ptr (ck_next m ptr))"

text \<open>The two coalescing steps: \<open>ptr\<close> absorbs its successor, and \<open>prev\<close> absorbs \<open>ptr\<close>.\<close>

definition coalesce_next :: "u64 \<Rightarrow> wordmem \<Rightarrow> wordmem" where
  "coalesce_next ptr m =
     (if ck_next m ptr \<noteq> 0 \<and> ck_used m (ck_next m ptr) = 0 then
        let m = set_size ptr (ck_size m ptr + ck_size m (ck_next m ptr)) m
        in set_next ptr (ck_next m (ck_next m ptr)) m
      else m)"

definition coalesce_prev :: "u64 \<Rightarrow> u64 \<Rightarrow> wordmem \<Rightarrow> wordmem" where
  "coalesce_prev prev ptr m =
     (if ptr \<noteq> prev \<and> ck_used m prev = 0 then
        let m = set_size prev (ck_size m prev + ck_size m ptr) m;
            m = set_address prev 0 m
        in set_next prev (ck_next m ptr) m
      else m)"

definition heap_free :: "group_heap \<Rightarrow> u64 \<Rightarrow> wordmem \<Rightarrow> wordmem option" where
  "heap_free heap addr m = do {
     (prev, ptr) \<leftarrow> free_search m addr (heap_head heap) (heap_head heap);
     Some (if ptr \<noteq> 0 then coalesce_prev prev ptr (coalesce_next ptr m) else m) }"

definition heap_init_one :: "u64 \<Rightarrow> u64 \<Rightarrow> wordmem \<Rightarrow> wordmem" where
  "heap_init_one head fin m =
     (let m = set_size head (HEAP_MIN_SIZE + PAGE_UP ((fin + 1) - head)) m;
          m = set_used head 0 m
      in set_next head 0 m)"

definition heap_init :: "kst \<Rightarrow> c_int \<times> kst" where
  "heap_init s =
     (let (h, k) = k_sbrk 0 (ks s);
          s = s\<lparr>ks := k, private_heap := \<lparr>heap_head = h, heap_tail = h\<rparr>\<rparr>;
          (fin, k) = k_sbrk HEAP_MIN_SIZE (ks s);
          s = s\<lparr>ks := k\<rparr>
      in if fin = 0 then (0, s)
         else
           let s = s\<lparr>cells := heap_init_one h fin (cells s)\<rparr>;
               (h, k) = shared_sbrk 0 (ks s);
               s = s\<lparr>ks := k, shared_heap := \<lparr>heap_head = h, heap_tail = h\<rparr>\<rparr>;
               (fin, k) = shared_sbrk HEAP_MIN_SIZE (ks s);
               s = s\<lparr>ks := k\<rparr>
           in if fin = 0 then (0, s) else (1, s\<lparr>cells := heap_init_one h fin (cells s)\<rparr>))"

definition smalloc :: "u64 \<Rightarrow> kst \<Rightarrow> (u64 \<times> kst) option" where
  "smalloc sz s = do {
     (r, h, m, k) \<leftarrow> heap_malloc (shared_heap s) sz True (cells s) (ks s);
     Some (r, s\<lparr>shared_heap := h, cells := m, ks := k\<rparr>) }"

definition kmalloc :: "u64 \<Rightarrow> kst \<Rightarrow> (u64 \<times> kst) option" where
  "kmalloc sz s = do {
     (r, h, m, k) \<leftarrow> heap_malloc (private_heap s) sz False (cells s) (ks s);
     Some (r, s\<lparr>private_heap := h, cells := m, ks := k\<rparr>) }"

definition scalloc :: "u64 \<Rightarrow> u64 \<Rightarrow> kst \<Rightarrow> (u64 \<times> kst) option" where
  "scalloc nmeb count s =
     (let alloc_size = nmeb * count in
      if alloc_size = 0 then Some (0, s)
      else do {
        (ptr, s) \<leftarrow> smalloc alloc_size s;
        if ptr = 0 then Some (0, s)
        else Some (ptr, s\<lparr>bytes := snd (memset (bytes s) ptr 0 alloc_size)\<rparr>) })"

definition kcalloc :: "u64 \<Rightarrow> u64 \<Rightarrow> kst \<Rightarrow> (u64 \<times> kst) option" where
  "kcalloc nmeb count s =
     (let alloc_size = nmeb * count in
      if alloc_size = 0 then Some (0, s)
      else do {
        (ptr, s) \<leftarrow> kmalloc alloc_size s;
        if ptr = 0 then Some (0, s)
        else Some (ptr, s\<lparr>bytes := snd (memset (bytes s) ptr 0 alloc_size)\<rparr>) })"

definition sfree :: "u64 \<Rightarrow> kst \<Rightarrow> kst option" where
  "sfree addr s = map_option (\<lambda>m. s\<lparr>cells := m\<rparr>) (heap_free (shared_heap s) addr (cells s))"

definition kfree :: "u64 \<Rightarrow> kst \<Rightarrow> kst option" where
  "kfree addr s = map_option (\<lambda>m. s\<lparr>cells := m\<rparr>) (heap_free (private_heap s) addr (cells s))"

end
