(* ===== verification/Heap_Layout.thy ===== *)
theory Heap_Layout
  imports Heap
begin

text \<open>
  The heap as a list of consecutive chunks. \<open>layout m a xs e\<close> reads the chunk headers from address
  \<open>a\<close> on as the list \<open>xs\<close> of sizes and used flags, each chunk linked to the one right behind it
  and the last one to \<open>e\<close>. \<open>first_fit\<close> is the specification of an allocation on this list.
\<close>

subsection \<open>Layouts\<close>

definition extent :: "(nat \<times> bool) list \<Rightarrow> nat" where
  "extent xs = sum_list (map fst xs)"

lemma extent_simps [simp]:
  "extent [] = 0" "extent ((n, u) # xs) = n + extent xs" "extent (xs @ ys) = extent xs + extent ys"
  by (simp_all add: extent_def)

fun layout :: "wordmem \<Rightarrow> nat \<Rightarrow> (nat \<times> bool) list \<Rightarrow> u64 \<Rightarrow> bool" where
  "layout m a [] e \<longleftrightarrow> True"
| "layout m a ((n, u) # xs) e \<longleftrightarrow>
     0 < a \<and> 32 \<le> n \<and> 8 dvd n \<and> a + n < 18446744073709551616 \<and>
     m (of_nat a) = of_nat n \<and> (m (of_nat (a + 8)) \<noteq> 0 \<longleftrightarrow> u) \<and>
     m (of_nat (a + 24)) = (if xs = [] then e else of_nat (a + n)) \<and>
     layout m (a + n) xs e"

lemma layout_append:
  "layout m a (xs @ ys) e \<longleftrightarrow>
     layout m a xs (if ys = [] then e else of_nat (a + extent xs)) \<and> layout m (a + extent xs) ys e"
proof (induction xs arbitrary: a)
  case (Cons x xs)
  obtain n u where x: "x = (n, u)" by (cases x)
  show ?case
    by (cases "xs = []") (auto simp: x Cons add.assoc)
qed simp

lemma layout_bound: "layout m a xs e \<Longrightarrow> xs \<noteq> [] \<Longrightarrow> 0 < a \<and> a + extent xs < 18446744073709551616"
proof (induction xs arbitrary: a)
  case (Cons x xs)
  obtain n u where x: "x = (n, u)" by (cases x)
  show ?case
    using Cons.IH [of "a + n"] Cons.prems by (cases "xs = []") (auto simp: x add.assoc)
qed simp

lemma layout_cong:
  "(\<And>c. a \<le> c \<Longrightarrow> c < a + extent xs \<Longrightarrow> m (of_nat c) = m' (of_nat c)) \<Longrightarrow>
   layout m a xs e \<Longrightarrow> layout m' a xs e"
proof (induction xs arbitrary: a)
  case (Cons x xs)
  obtain n u where x: "x = (n, u)" by (cases x)
  have n: "32 \<le> n" using Cons.prems(2) x by simp
  have "m (of_nat a) = m' (of_nat a)" by (rule Cons.prems(1)) (use n x in simp_all)
  moreover have "m (of_nat (a + 8)) = m' (of_nat (a + 8))" by (rule Cons.prems(1)) (use n x in simp_all)
  moreover have "m (of_nat (a + 24)) = m' (of_nat (a + 24))" by (rule Cons.prems(1)) (use n x in simp_all)
  moreover have "layout m' (a + n) xs e"
    by (rule Cons.IH) (use Cons.prems x in \<open>simp_all add: add.assoc\<close>)
  ultimately show ?case using Cons.prems(2) by (simp add: x)
qed simp

text \<open>A store to the cell at \<open>c\<close>, read at the cell at \<open>d\<close>.\<close>

lemma cell_upd:
  "c < 18446744073709551616 \<Longrightarrow> d < 18446744073709551616 \<Longrightarrow>
   (m(of_nat c := v :: u64)) (of_nat d :: u64) = (if d = c then v else m (of_nat d))"
  by (simp add: of_nat_eq_u64_iff)

fun chunk_addrs :: "nat \<Rightarrow> (nat \<times> bool) list \<Rightarrow> nat list" where
  "chunk_addrs a [] = []"
| "chunk_addrs a ((n, u) # xs) = a # chunk_addrs (a + n) xs"

lemma layout_seg:
  "layout m a xs e \<Longrightarrow>
   chain_seg (ck_next m) (if xs = [] then e else of_nat a) (map of_nat (chunk_addrs a xs)) e"
proof (induction xs arbitrary: a)
  case (Cons x xs)
  obtain n u where x: "x = (n, u)" by (cases x)
  have "(of_nat a :: u64) \<noteq> of_nat 0"
    using Cons.prems by (subst of_nat_eq_u64_iff) (auto simp: x)
  moreover have "ck_next m (of_nat a) = (if xs = [] then e else of_nat (a + n))"
    using Cons.prems by (simp add: x ck_next_def)
  ultimately show ?case using Cons.IH [of "a + n"] Cons.prems by (simp add: x)
qed simp

lemma chunk_addrs_append: "chunk_addrs a (xs @ ys) = chunk_addrs a xs @ chunk_addrs (a + extent xs) ys"
proof (induction xs arbitrary: a)
  case (Cons x xs)
  then show ?case by (cases x) (simp add: add.assoc)
qed simp

text \<open>What a search of the chunk list finds.\<close>

lemma layout_search_found:
  assumes L: "layout m a (bs @ (n, u) # cs) 0" and h: "heap_head h = of_nat a"
    and bs: "\<forall>p \<in> set (chunk_addrs a bs). \<not> P (of_nat p)" and P: "P (of_nat (a + extent bs))"
  shows "node_search P (ck_next m) (heap_head h) = Some (of_nat (a + extent bs))"
proof (rule node_search_found)
  show "chain (ck_next m) (heap_head h)
      (map of_nat (chunk_addrs a bs) @ of_nat (a + extent bs) # map of_nat (chunk_addrs (a + extent bs + n) cs))"
    using layout_seg [OF L] h by (simp add: chain_iff_seg chunk_addrs_append)
qed (use bs P in auto)

lemma layout_search_none:
  assumes L: "layout m a xs 0" and h: "heap_head h = of_nat a" "xs \<noteq> []"
    and P: "\<forall>p \<in> set (chunk_addrs a xs). \<not> P (of_nat p)"
  shows "node_search P (ck_next m) (heap_head h) = Some 0"
  by (rule node_search_none) (use layout_seg [OF L] h P in \<open>auto simp: chain_iff_seg\<close>)

lemma layout_chunk:
  assumes "layout m a (bs @ (n, u) # cs) e"
  shows "m (of_nat (a + extent bs)) = of_nat n" "m (of_nat (a + extent bs + 8)) \<noteq> 0 \<longleftrightarrow> u"
    "32 \<le> n" "8 dvd n" "0 < a + extent bs" "a + extent bs + n < 18446744073709551616"
    "m (of_nat (a + extent bs + 24)) = (if cs = [] then e else of_nat (a + extent bs + n))"
  using assms by (auto simp: layout_append)

subsection \<open>First fit\<close>

text \<open>
  \<open>need_of sz\<close>: the size of a chunk with a payload of \<open>sz\<close> bytes. A chunk is split when more than
  40 bytes would be left over.
\<close>

definition need_of :: "nat \<Rightarrow> nat" where
  "need_of sz = (sz + 39) div 8 * 8"

fun first_fit :: "nat \<Rightarrow> nat \<Rightarrow> (nat \<times> bool) list \<Rightarrow> (nat \<times> (nat \<times> bool) list) option" where
  "first_fit a need [] = None"
| "first_fit a need ((n, u) # xs) =
     (if \<not> u \<and> need \<le> n
      then Some (a, if need + 40 < n then (need, True) # (n - need, False) # xs else (n, True) # xs)
      else map_option (\<lambda>(p, ys). (p, (n, u) # ys)) (first_fit (a + n) need xs))"

lemma first_fit_Some:
  "first_fit a need xs = Some (p, ys) \<Longrightarrow>
   \<exists>bs n cs. xs = bs @ (n, False) # cs \<and> p = a + extent bs \<and> need \<le> n \<and>
     (\<forall>(k, u) \<in> set bs. u \<or> k < need) \<and>
     ys = bs @ (if need + 40 < n then [(need, True), (n - need, False)] else [(n, True)]) @ cs"
proof (induction a need xs arbitrary: p ys rule: first_fit.induct)
  case (2 a need n u xs)
  show ?case
  proof (cases "\<not> u \<and> need \<le> n")
    case True
    then show ?thesis using 2(2) by (intro exI [of _ "[]"] exI [of _ n] exI [of _ xs]) (auto split: if_splits)
  next
    case False
    then obtain zs where f: "first_fit (a + n) need xs = Some (p, zs)" "ys = (n, u) # zs"
      using 2(2) by auto
    from 2(1) [OF False f(1)] obtain bs k cs where
      "xs = bs @ (k, False) # cs" "p = a + n + extent bs" "need \<le> k" "\<forall>(k, u) \<in> set bs. u \<or> k < need"
      "zs = bs @ (if need + 40 < k then [(need, True), (k - need, False)] else [(k, True)]) @ cs"
      by blast
    with False f(2) show ?thesis
      by (intro exI [of _ "(n, u) # bs"] exI [of _ k] exI [of _ cs]) auto
  qed
qed simp

lemma first_fit_None: "first_fit a need xs = None \<Longrightarrow> \<forall>(k, u) \<in> set xs. u \<or> k < need"
  by (induction a need xs rule: first_fit.induct) (auto split: if_splits)

lemma unat_align:
  assumes "unat x + 7 < 18446744073709551616"
  shows "unat (align x sz) = (unat x + 7) div 8 * 8"
proof -
  have "align x sz = (x + 7) AND NOT (mask 3)"
    by (simp add: align_def sizeof_ptr_def mask_eq_exp_minus_1 add_diff_eq [symmetric])
  then have "unat (align x sz) = unat (x + 7) div 8 * 8" by (simp add: unat_and_not_mask)
  then show ?thesis using assms by (simp add: unat_add_nowrap)
qed

lemma align_need:
  assumes "unat sz + 39 < 18446744073709551616"
  shows "align (sz + sizeof_mem_chunk) x = of_nat (need_of (unat sz))"
    "unat (align (sz + sizeof_mem_chunk) x) = need_of (unat sz)"
proof -
  have u: "unat (sz + 32) = unat sz + 32" using assms by (simp add: unat_add_nowrap)
  show "unat (align (sz + sizeof_mem_chunk) x) = need_of (unat sz)"
    using assms by (simp add: unat_align sizeof_mem_chunk_def u need_of_def)
  then show "align (sz + sizeof_mem_chunk) x = of_nat (need_of (unat sz))"
    by (metis of_nat_unat ucast_id)
qed

lemma need_bounds: "sz + 32 \<le> need_of sz" "need_of sz \<le> sz + 39" "8 dvd need_of sz"
  unfolding need_of_def by presburger+ 

end
