(* ===== verification/Heap_Safety.thy ===== *)
theory Heap_Safety
  imports Heap_Layout
begin

text \<open>
  Properties of the kernel heap: an allocation from the chunk list is a first-fit allocation on
  the layout; what happens when the list has no fitting chunk; what \<open>_free\<close> does; and the layout
  that \<open>heap_init\<close> leaves.
\<close>

subsection \<open>Allocation from the list\<close>

text \<open>The stores of an allocation that splits the chunk at \<open>p\<close>, and of one that does not.\<close>

definition alloc_split_mem :: "nat \<Rightarrow> nat \<Rightarrow> nat \<Rightarrow> wordmem \<Rightarrow> wordmem" where
  "alloc_split_mem p need n m =
     m(of_nat (p + need) := of_nat (n - need), of_nat (p + need + 24) := m (of_nat (p + 24)),
       of_nat (p + need + 8) := 0, of_nat p := of_nat need, of_nat (p + 24) := of_nat (p + need),
       of_nat (p + 8) := 1, of_nat (p + 16) := of_nat (p + 32))"

definition alloc_whole_mem :: "nat \<Rightarrow> wordmem \<Rightarrow> wordmem" where
  "alloc_whole_mem p m = m(of_nat (p + 8) := 1, of_nat (p + 16) := of_nat (p + 32))"

lemma alloc_split_outside:
  assumes "p + n < 18446744073709551616" "32 \<le> need" "need + 32 \<le> n"
    and "c < 18446744073709551616" "c < p \<or> p + n \<le> c"
  shows "alloc_split_mem p need n m (of_nat c) = m (of_nat c)"
  using assms by (auto simp: alloc_split_mem_def cell_upd simp del: of_nat_add fun_upd_apply)

lemma alloc_whole_outside:
  assumes "p + n < 18446744073709551616" "32 \<le> n"
    and "c < 18446744073709551616" "c < p \<or> p + n \<le> c"
  shows "alloc_whole_mem p m (of_nat c) = m (of_nat c)"
  using assms by (auto simp: alloc_whole_mem_def cell_upd simp del: of_nat_add fun_upd_apply)

lemma alloc_split_inside:
  fixes m :: wordmem
  assumes "p + n < 18446744073709551616" "32 \<le> need" "need + 32 \<le> n"
  defines "m' \<equiv> alloc_split_mem p need n m"
  shows "m' (of_nat p) = of_nat need" "m' (of_nat (p + 8)) = 1" "m' (of_nat (p + 16)) = of_nat (p + 32)"
    "m' (of_nat (p + 24)) = of_nat (p + need)" "m' (of_nat (p + need)) = of_nat (n - need)"
    "m' (of_nat (p + need + 8)) = 0" "m' (of_nat (p + need + 24)) = m (of_nat (p + 24))"
  using assms(1-3) unfolding m'_def
  by (simp_all add: alloc_split_mem_def cell_upd del: of_nat_add fun_upd_apply)

lemma alloc_whole_inside:
  fixes m :: wordmem
  assumes "p + 32 < 18446744073709551616"
  defines "m' \<equiv> alloc_whole_mem p m"
  shows "m' (of_nat p) = m (of_nat p)" "m' (of_nat (p + 8)) = 1" "m' (of_nat (p + 16)) = of_nat (p + 32)"
    "m' (of_nat (p + 24)) = m (of_nat (p + 24))"
  using assms(1) unfolding m'_def
  by (simp_all add: alloc_whole_mem_def cell_upd del: of_nat_add fun_upd_apply)

lemma layout_replace:
  assumes L: "layout m a (bs @ (n, u) # cs) 0" and n: "extent mid = n" "mid \<noteq> []"
    and out: "\<And>c. c < 18446744073709551616 \<Longrightarrow> c < a + extent bs \<or> a + extent bs + n \<le> c \<Longrightarrow>
                m' (of_nat c) = m (of_nat c)"
    and mid: "layout m' (a + extent bs) mid (if cs = [] then 0 else of_nat (a + extent bs + n))"
  shows "layout m' a (bs @ mid @ cs) 0"
proof -
  have L2: "layout m a bs (of_nat (a + extent bs))" "layout m (a + extent bs + n) cs 0"
    and b: "a + extent bs + n < 18446744073709551616"
    using L by (auto simp: layout_append)
  have "layout m' a bs (of_nat (a + extent bs))"
    by (rule layout_cong [OF _ L2(1)]) (use out b in auto)
  moreover have "layout m' (a + extent bs + n) cs 0"
  proof (cases "cs = []")
    case False
    then have "a + extent bs + n + extent cs < 18446744073709551616"
      using layout_bound [OF L2(2)] by simp
    then show ?thesis by (intro layout_cong [OF _ L2(2)]) (use out in auto)
  qed simp
  ultimately show ?thesis using mid n by (auto simp: layout_append)
qed

lemma malloc_success_head [simp]:
  "malloc_success tmp h m = (r, h', m') \<Longrightarrow> heap_head h' = heap_head h"
  by (auto simp: malloc_success_def Let_def split: if_splits)

text \<open>A chunk that does not fit is passed over by the search of \<open>_malloc\<close>.\<close>

lemma layout_no_fit:
  assumes "layout m b zs e" and "q \<in> set (chunk_addrs b zs)" and "\<forall>(k, u) \<in> set zs. u \<or> k < need"
    and "need < 18446744073709551616"
  shows "\<not> (ck_used m (of_nat q) = 0 \<and> ck_size m (of_nat q) \<ge> of_nat need)"
  using assms
proof (induction zs arbitrary: b)
  case (Cons z zs)
  obtain k u where z: "z = (k, u)" by (cases z)
  have "unat (of_nat k :: u64) = k" using Cons.prems(1) by (auto simp: z intro!: unat_of_nat_u64)
  moreover have "unat (of_nat need :: u64) = need" using Cons.prems(4) by (rule unat_of_nat_u64)
  ultimately show ?case
    using Cons.prems Cons.IH [of "b + k"] by (auto simp: z ck_used_def ck_size_def word_le_nat_alt)
qed simp

text \<open>The search of \<open>_malloc\<close> finds the first chunk that fits.\<close>

lemma layout_fit_search:
  assumes L: "layout m a (bs @ (n, False) # cs) 0" and h: "heap_head h = of_nat a"
    and fit: "need \<le> n" and no: "\<forall>(k, u) \<in> set bs. u \<or> k < need"
  shows "node_search (\<lambda>q. ck_used m q = 0 \<and> ck_size m q \<ge> of_nat need) (ck_next m) (heap_head h) =
    Some (of_nat (a + extent bs))"
proof (rule layout_search_found [OF L h])
  note C = layout_chunk [OF L]
  have un: "unat (of_nat need :: u64) = need" "unat (of_nat n :: u64) = n"
    using C(6) fit by (auto intro!: unat_of_nat_u64)
  have "layout m a bs (of_nat (a + extent bs))" using L by (auto simp: layout_append)
  from layout_no_fit [OF this _ no] C(6) fit
  show "\<forall>q \<in> set (chunk_addrs a bs). \<not> (ck_used m (of_nat q) = 0 \<and> ck_size m (of_nat q) \<ge> of_nat need)" by auto
  show "ck_used m (of_nat (a + extent bs)) = 0 \<and> ck_size m (of_nat (a + extent bs)) \<ge> of_nat need"
    using C(1,2) fit un by (simp add: ck_used_def ck_size_def word_le_nat_alt)
qed

text \<open>\<open>_malloc\<close> on a layout in which a chunk fits.\<close>

lemma heap_malloc_mem:
  assumes L: "layout m a (bs @ (n, False) # cs) 0" and h: "heap_head h = of_nat a" and a: "40 \<le> a"
    and sz: "sz \<noteq> 0" "unat sz + 39 < 18446744073709551616" and need: "need = need_of (unat sz)"
    and fit: "need \<le> n" and no: "\<forall>(k, u) \<in> set bs. u \<or> k < need" and p: "p = a + extent bs"
  shows "\<exists>h'. heap_malloc h sz shared m k = Some (of_nat (p + 32), h',
             if need + 40 < n then alloc_split_mem p need n m else alloc_whole_mem p m, k) \<and>
           heap_head h' = heap_head h"
proof -
  note nb = need_bounds [of "unat sz", folded need]
  note C = layout_chunk [OF L, folded p]
  have al: "align (sz + sizeof_mem_chunk) sizeof_ptr = of_nat need"
    using align_need(1) [OF sz(2)] by (simp add: need)
  have un: "unat (of_nat need :: u64) = need" "unat (of_nat n :: u64) = n" "unat (of_nat p :: u64) = p"
    using C(6) fit by (auto intro!: unat_of_nat_u64)
  let ?P = "\<lambda>q. ck_used m q = 0 \<and> ck_size m q \<ge> of_nat need"
  have S: "node_search ?P (ck_next m) (heap_head h) = Some (of_nat p)"
    unfolding p by (rule layout_fit_search [OF L h fit no])
  have pn: "(of_nat p :: u64) \<noteq> 0" using C(5) un(3) by (metis unat_0 neq0_conv)
  have u40: "unat (of_nat need + MIN_HEAP_ALLOC) = need + 40"
  proof -
    have "need + 40 < 18446744073709551616" using C(6) fit a p by simp
    then show ?thesis using un(1)
      by (simp add: MIN_HEAP_ALLOC_def sizeof_ptr_def sizeof_mem_chunk_def unat_add_nowrap)
  qed
  have big: "ck_size m (of_nat p) > of_nat need + MIN_HEAP_ALLOC \<longleftrightarrow> need + 40 < n"
    using C(1) un(2) u40 by (simp add: ck_size_def word_less_nat_alt)
  show ?thesis
  proof (cases "need + 40 < n")
    case False
    let ?s = "malloc_success (of_nat p) h m"
    have "fst ?s = of_nat (p + 32) \<and> snd (snd ?s) = alloc_whole_mem p m"
      by (simp add: malloc_success_def Let_def ck_defs alloc_whole_mem_def sizeof_mem_chunk_def)
    then obtain h' where "?s = (of_nat (p + 32), h', alloc_whole_mem p m)"
      by (metis prod.collapse)
    then show ?thesis using False pn sz(1) S big malloc_success_head
      by (auto simp: heap_malloc_def al Let_def)
  next
    case True
    have nn: "n - need = unat (of_nat n - of_nat need :: u64)" using un fit by (simp add: unat_sub word_le_nat_alt)
    have al64: "align (2 * sizeof_mem_chunk) sizeof_ptr = 64"
      by (simp add: align_def sizeof_ptr_def sizeof_mem_chunk_def)
    have "unat (64 + sz) = 64 + unat sz" using True nb C(6) by (simp add: unat_add_nowrap)
    then have gt: "\<not> ck_size m (of_nat p) \<le> 64 + sz"
      using C(1) un(2) True nb by (simp add: ck_size_def word_le_nat_alt)
    define m1 where "m1 = m(of_nat (p + need) := of_nat (n - need),
       of_nat (p + need + 24) := m (of_nat (p + 24)), of_nat (p + need + 8) := 0,
       of_nat p := of_nat need, of_nat (p + 24) := of_nat (p + need))"
    have d: "(m(of_nat (p + need) := x)) (of_nat (p + 24)) = m (of_nat (p + 24))" for x
      using True C(6) nb by (subst cell_upd) auto
    have nn': "of_nat n - of_nat need = (of_nat (n - need) :: u64)" using fit by (simp add: of_nat_diff)
    have sp: "split (of_nat p) sz m = (1, m1)"
      using gt C(1,2) d [unfolded of_nat_add] unfolding split_def Let_def al al64 ck_defs
      by (simp add: m1_def nn' ck_size_def del: fun_upd_apply)
    let ?s = "malloc_success (of_nat p) h m1"
    have "fst ?s = of_nat (p + 32) \<and> snd (snd ?s) = alloc_split_mem p need n m"
      by (simp add: malloc_success_def Let_def ck_defs alloc_split_mem_def m1_def sizeof_mem_chunk_def)
    then obtain h' where "?s = (of_nat (p + 32), h', alloc_split_mem p need n m)"
      by (metis prod.collapse)
    then show ?thesis using True pn sz(1) S big malloc_success_head sp
      by (auto simp: heap_malloc_def al Let_def)
  qed
qed

lemma heap_malloc_fits_frame:
  assumes L: "layout m a xs 0" and h: "heap_head h = of_nat a" and a: "40 \<le> a"
    and sz: "sz \<noteq> 0" "unat sz + 39 < 18446744073709551616"
    and F: "first_fit a (need_of (unat sz)) xs = Some (p, ys)"
  shows "\<exists>h' m'. heap_malloc h sz shared m k = Some (of_nat (p + 32), h', m', k) \<and>
           layout m' a ys 0 \<and> heap_head h' = heap_head h \<and> (\<forall>x. unat x < a \<or> a + extent xs \<le> unat x \<longrightarrow> m' x = m x) \<and>
           (\<exists>bs n cs. xs = bs @ (n, False) # cs \<and> p = a + extent bs \<and> m' (of_nat (p + 16)) = of_nat (p + 32) \<and>
              (\<forall>x. unat x < p \<or> p + n \<le> unat x \<longrightarrow> m' x = m x))"
proof -
  define need where "need = need_of (unat sz)"
  note nb = need_bounds [of "unat sz", folded need_def]
  obtain bs n cs where xs: "xs = bs @ (n, False) # cs" and p: "p = a + extent bs" and fit: "need \<le> n"
    and no: "\<forall>(k, u) \<in> set bs. u \<or> k < need"
    and ys: "ys = bs @ (if need + 40 < n then [(need, True), (n - need, False)] else [(n, True)]) @ cs"
    using first_fit_Some [OF F] unfolding need_def by blast
  note C = layout_chunk [OF L [unfolded xs], folded p]
  define m' where "m' = (if need + 40 < n then alloc_split_mem p need n m else alloc_whole_mem p m)"
  obtain h' where R: "heap_malloc h sz shared m k = Some (of_nat (p + 32), h', m', k)" "heap_head h' = heap_head h"
    using heap_malloc_mem [OF L [unfolded xs] h a sz need_def fit no p] unfolding m'_def by blast
  have out: "m' x = m x" if "unat x < p \<or> p + n \<le> unat x" for x
  proof (cases "need + 40 < n")
    case True
    then have "32 \<le> need" "need + 32 \<le> n" using nb by auto
    then show ?thesis using alloc_split_outside [OF C(6) _ _ unat_less_2p64 that, of need m] True by (simp add: m'_def)
  next
    case False
    then show ?thesis using alloc_whole_outside [OF C(6,3) unat_less_2p64 that, of m] by (simp add: m'_def)
  qed
  have out': "m' (of_nat c) = m (of_nat c)" if "c < 18446744073709551616" "c < p \<or> p + n \<le> c" for c
    by (rule out) (use that in \<open>simp add: unat_of_nat_u64\<close>)
  have "layout m' a ys 0 \<and> m' (of_nat (p + 16)) = of_nat (p + 32)"
  proof (cases "need + 40 < n")
    case True
    have need: "32 \<le> need" "need + 32 \<le> n" using True nb by auto
    note I = alloc_split_inside [OF C(6) need, of m]
    have "8 dvd n - need" using C(4) nb(3) by (simp add: dvd_diff_nat)
    then have "layout m' p [(need, True), (n - need, False)] (if cs = [] then 0 else of_nat (p + n))"
      using I C(5,6,7) True nb need by (simp add: m'_def add.assoc del: of_nat_add)
    then have "layout m' a (bs @ [(need, True), (n - need, False)] @ cs) 0"
      using out' True need by (intro layout_replace [OF L [unfolded xs]]) (auto simp: p)
    then show ?thesis using True I(3) by (simp add: ys m'_def)
  next
    case False
    have "p + 32 < 18446744073709551616" using C(3,6) by simp
    note I = alloc_whole_inside [OF this, of m]
    have "layout m' p [(n, True)] (if cs = [] then 0 else of_nat (p + n))"
      using I C False by (simp add: m'_def del: of_nat_add)
    then have "layout m' a (bs @ [(n, True)] @ cs) 0"
      using out' False by (intro layout_replace [OF L [unfolded xs]]) (auto simp: p)
    then show ?thesis using False I(3) by (simp add: ys m'_def)
  qed
  moreover have "m' x = m x" if x: "unat x < a \<or> a + extent xs \<le> unat x" for x
    by (rule out) (use x in \<open>auto simp: xs p\<close>)
  ultimately show ?thesis using R out xs p by blast
qed

lemma heap_malloc_fits:
  assumes "layout m a xs 0" "heap_head h = of_nat a" "40 \<le> a" "sz \<noteq> 0" "unat sz + 39 < 18446744073709551616"
    and "first_fit a (need_of (unat sz)) xs = Some (p, ys)"
  shows "\<exists>h' m'. heap_malloc h sz shared m k = Some (of_nat (p + 32), h', m', k) \<and>
           layout m' a ys 0 \<and> heap_head h' = heap_head h"
  using heap_malloc_fits_frame [OF assms] by blast

text \<open>The chunks in use, as pairs of start address and size.\<close>

fun used_chunks :: "nat \<Rightarrow> (nat \<times> bool) list \<Rightarrow> (nat \<times> nat) set" where
  "used_chunks a [] = {}"
| "used_chunks a ((n, u) # xs) = (if u then {(a, n)} else {}) \<union> used_chunks (a + n) xs"

lemma used_chunks_append: "used_chunks a (xs @ ys) = used_chunks a xs \<union> used_chunks (a + extent xs) ys"
proof (induction xs arbitrary: a)
  case (Cons x xs)
  then show ?case by (cases x) (auto simp: add.assoc)
qed simp

lemma used_chunks_range: "(b, k) \<in> used_chunks a xs \<Longrightarrow> a \<le> b \<and> b + k \<le> a + extent xs"
proof (induction xs arbitrary: a)
  case (Cons x xs)
  then show ?case by (cases x) (fastforce split: if_splits)
qed simp

lemma first_fit_fresh:
  assumes "first_fit a need xs = Some (p, ys)"
  shows "a \<le> p \<and> p + need \<le> a + extent xs"
    and "(b, k) \<in> used_chunks a xs \<Longrightarrow> b + k \<le> p \<or> p + need \<le> b"
    and "\<exists>n \<ge> need. used_chunks a ys = insert (p, n) (used_chunks a xs)"
proof -
  obtain bs n cs where xs: "xs = bs @ (n, False) # cs" "p = a + extent bs" "need \<le> n"
    and ys: "ys = bs @ (if need + 40 < n then [(need, True), (n - need, False)] else [(n, True)]) @ cs"
    using first_fit_Some [OF assms] by blast
  show "a \<le> p \<and> p + need \<le> a + extent xs" using xs by simp
  show "b + k \<le> p \<or> p + need \<le> b" if "(b, k) \<in> used_chunks a xs"
    using that used_chunks_range [of b k a bs] used_chunks_range [of b k "a + extent bs + n" cs] xs
    by (auto simp: used_chunks_append)
  have "used_chunks a ys = insert (p, if need + 40 < n then need else n) (used_chunks a xs)"
    using xs by (auto simp: ys used_chunks_append)
  then show "\<exists>n \<ge> need. used_chunks a ys = insert (p, n) (used_chunks a xs)"
    using xs(3) by (intro exI [of _ "if need + 40 < n then need else n"]) simp
qed

text \<open>C11. While the private chunk list has a fitting chunk, \<open>kmalloc\<close> is first-fit allocation: the
  returned payload lies inside the heap and overlaps no chunk in use, the list then has exactly
  one more chunk in use, and the list stays a gapless chain of chunks. The break is not moved.\<close>

theorem kmalloc_first_fit:
  assumes "layout (cells s) a xs 0" and "heap_head (private_heap s) = of_nat a" and "40 \<le> a"
    and "sz \<noteq> 0" and "unat sz + 39 < 18446744073709551616"
    and "first_fit a (need_of (unat sz)) xs = Some (p, ys)"
  shows "\<exists>s' n. kmalloc sz s = Some (of_nat (p + 32), s') \<and> layout (cells s') a ys 0 \<and>
     heap_head (private_heap s') = of_nat a \<and> ks s' = ks s \<and>
     a \<le> p \<and> p + 32 + unat sz \<le> a + extent xs \<and>
     (\<forall>(b, k) \<in> used_chunks a xs. b + k \<le> p \<or> p + 32 + unat sz \<le> b) \<and>
     32 + unat sz \<le> n \<and> used_chunks a ys = insert (p, n) (used_chunks a xs)"
proof -
  obtain h' m' where R: "heap_malloc (private_heap s) sz False (cells s) (ks s) =
      Some (of_nat (p + 32), h', m', ks s)" "layout m' a ys 0" "heap_head h' = heap_head (private_heap s)"
    using heap_malloc_fits [OF assms, of False "ks s"] by blast
  note nb = need_bounds(1) [of "unat sz"]
  obtain n where n: "need_of (unat sz) \<le> n" "used_chunks a ys = insert (p, n) (used_chunks a xs)"
    using first_fit_fresh(3) [OF assms(6)] by blast
  have "\<forall>(b, k) \<in> used_chunks a xs. b + k \<le> p \<or> p + 32 + unat sz \<le> b"
    using first_fit_fresh(2) [OF assms(6)] nb by fastforce
  then show ?thesis
    using R assms(2) n nb first_fit_fresh(1) [OF assms(6)]
    by (intro exI [of _ "s\<lparr>private_heap := h', cells := m', ks := ks s\<rparr>"] exI [of _ n])
      (simp add: kmalloc_def)
qed

subsection \<open>Growing the heap\<close>

definition grown_mem :: "u64 \<Rightarrow> nat \<Rightarrow> wordmem \<Rightarrow> wordmem" where
  "grown_mem tmp need m = m(tmp := of_nat need, tmp + 24 := 0, tmp + 8 := 1, tmp + 16 := tmp + 32)"

lemma heap_malloc_grows:
  assumes L: "layout m a xs 0" and h: "heap_head h = of_nat a" and ne: "xs \<noteq> []"
    and sz: "sz \<noteq> 0" "unat sz + 39 < 18446744073709551616"
    and F: "first_fit a (need_of (unat sz)) xs = None"
    and B: "(if shared then shared_sbrk else k_sbrk) (of_nat (need_of (unat sz))) k = (tmp, k')" "tmp \<noteq> 0"
  shows "\<exists>h'. heap_malloc h sz shared m k = Some (tmp + 32, h', grown_mem tmp (need_of (unat sz)) m, k') \<and>
           heap_head h' = heap_head h"
proof -
  define need where "need = need_of (unat sz)"
  have al: "align (sz + sizeof_mem_chunk) sizeof_ptr = of_nat need"
    using align_need(1) [OF sz(2)] by (simp add: need_def)
  have un: "unat (of_nat need :: u64) = need"
    using need_bounds(2) [of "unat sz"] sz(2) by (intro unat_of_nat_u64) (simp add: need_def)
  let ?P = "\<lambda>q. ck_used m q = 0 \<and> ck_size m q \<ge> of_nat need"
  have S: "node_search ?P (ck_next m) (heap_head h) = Some 0"
  proof (rule layout_search_none [OF L h ne])
    have "need < 18446744073709551616" using need_bounds(2) [of "unat sz"] sz(2) by (simp add: need_def)
    with layout_no_fit [OF L _ first_fit_None [OF F, folded need_def]]
    show "\<forall>q \<in> set (chunk_addrs a xs). \<not> ?P (of_nat q)" by auto
  qed
  define m1 where "m1 = m(tmp := of_nat need, tmp + 24 := 0, tmp + 8 := 0, tmp + 16 := 0)"
  let ?h = "h\<lparr>heap_tail := tmp\<rparr>"
  let ?s = "malloc_success tmp ?h m1"
  have g: "m1(tmp + 8 := 1, tmp + 16 := tmp + 32) = grown_mem tmp need m"
    by (auto simp: m1_def grown_mem_def fun_eq_iff)
  have "fst ?s = tmp + 32 \<and> snd (snd ?s) = grown_mem tmp need m"
    using g by (simp add: malloc_success_def Let_def ck_defs sizeof_mem_chunk_def)
  then obtain h' where "?s = (tmp + 32, h', grown_mem tmp need m)" by (metis prod.collapse)
  moreover from malloc_success_head [OF this] have "heap_head h' = heap_head h" by simp
  moreover have "(if shared then shared_sbrk (of_nat need) k else k_sbrk (of_nat need) k) = (tmp, k')"
    using B(1) by (simp add: need_def split: if_splits)
  ultimately show ?thesis using sz(1) B(2) S
    by (auto simp: heap_malloc_def al Let_def ck_defs need_def [symmetric] m1_def [symmetric])
qed

lemma grown_mem_layout:
  assumes L: "layout m a xs 0" and d: "\<And>c. a \<le> c \<Longrightarrow> c < a + extent xs \<Longrightarrow> unat (of_nat c - tmp) \<ge> 32"
  shows "layout (grown_mem tmp need m) a xs 0"
proof (rule layout_cong [OF _ L])
  fix c assume "a \<le> c" "c < a + extent xs"
  from d [OF this] have "(of_nat c :: u64) \<notin> {tmp, tmp + 8, tmp + 16, tmp + 24}" by auto
  then show "m (of_nat c) = grown_mem tmp need m (of_nat c)" by (auto simp: grown_mem_def)
qed

text \<open>When no chunk of the private list fits, \<open>kmalloc\<close> raises the break, but \<open>k_sbrk\<close>
  returns the new break and not the old one: the chunk is placed behind the space that was just
  obtained, all of it beyond the break, and the space below it is lost. The new chunk is not
  linked into the list, so the list of chunks is what it was.\<close>

lemma kmalloc_beyond_break:
  assumes "layout (cells s) a xs 0" and "heap_head (private_heap s) = of_nat a" and "xs \<noteq> []"
    and "sz \<noteq> 0" and "unat sz + 39 < 0x8000000000000000"
    and "first_fit a (need_of (unat sz)) xs = None"
    and "k_brk_inv (ks s)"
    and "unat (ks_sbrk (ks s)) + need_of (unat sz) \<le> unat (heap_start (ks s) + heap_size (ks s))"
    and "a + extent xs \<le> unat (ks_sbrk (ks s)) + need_of (unat sz)" and "40 \<le> a"
  shows "\<exists>r s'. kmalloc sz s = Some (r, s') \<and>
     ks_sbrk (ks s') = ks_sbrk (ks s) + of_nat (need_of (unat sz)) \<and>
     r = ks_sbrk (ks s') + 32 \<and> layout (cells s') a xs 0 \<and> heap_head (private_heap s') = of_nat a"
proof -
  let ?need = "need_of (unat sz)"
  note nb = need_bounds [of "unat sz"]
  have un: "unat (of_nat ?need :: u64) = ?need"
    using nb(2) assms(5) by (intro unat_of_nat_u64) simp
  then have pos: "0 <s (of_nat ?need :: u64)" using nb assms(5) by (simp add: pos_u64_iff)
  obtain tmp k' where K: "k_sbrk (of_nat ?need) (ks s) = (tmp, k')" by (metis surj_pair)
  have M: "tmp = ks_sbrk (ks s) + of_nat ?need" "ks_sbrk k' = tmp"
    using kb.move_up [OF assms(7) pos _ K] assms(8) un by auto
  have ut: "unat tmp = unat (ks_sbrk (ks s)) + ?need"
    using kb.grow_returns_end(2) [OF assms(7) pos _ K] assms(8) un by simp
  then have "tmp \<noteq> 0" using nb(1) by auto
  then obtain h' where R: "heap_malloc (private_heap s) sz False (cells s) (ks s) =
      Some (tmp + 32, h', grown_mem tmp ?need (cells s), k')" "heap_head h' = heap_head (private_heap s)"
    using heap_malloc_grows [OF assms(1-4) _ assms(6), of False "ks s" tmp k'] K assms(5) by auto
  have "layout (grown_mem tmp ?need (cells s)) a xs 0"
  proof (rule grown_mem_layout [OF assms(1)])
    fix c assume c: "a \<le> c" "c < a + extent xs"
    have lt: "c < unat tmp" using c(2) assms(9) ut by simp
    then have uc: "unat (of_nat c :: u64) = c" using unat_less_2p64 [of tmp] by (intro unat_of_nat_u64) simp
    have "(of_nat c :: u64) \<noteq> tmp" using lt uc by auto
    then have "unat (of_nat c - tmp) = 18446744073709551616 - unat (tmp - of_nat c)"
      using unat_neg_u64 [of "tmp - of_nat c"] by auto
    moreover have "unat (tmp - of_nat c) = unat tmp - c" using lt uc by (simp add: unat_sub_le word_le_nat_alt)
    moreover have "unat tmp - c \<le> unat (heap_start (ks s) + heap_size (ks s)) - a" using ut assms(8) c(1) by linarith
    ultimately show "32 \<le> unat (of_nat c - tmp)"
      using unat_less_2p64 [of "heap_start (ks s) + heap_size (ks s)"] assms(10) by linarith
  qed
  then show ?thesis using R M assms(2)
    by (intro exI [of _ "tmp + 32"] exI [of _ "s\<lparr>private_heap := h', cells := grown_mem tmp ?need (cells s), ks := k'\<rparr>"])
      (simp add: kmalloc_def)
qed

text \<open>When the heap region is exhausted, \<open>kmalloc\<close> does not fail: \<open>k_sbrk\<close> reports the error as
  \<open>-ENOMEM\<close>, which is not null, so a chunk header is written at the top of the address space and the
  caller receives the pointer 20.\<close>

lemma kmalloc_exhausted:
  assumes "layout (cells s) a xs 0" and "heap_head (private_heap s) = of_nat a" and "xs \<noteq> []"
    and "sz \<noteq> 0" and "unat sz + 39 < 0x8000000000000000"
    and "first_fit a (need_of (unat sz)) xs = None"
    and "k_brk_inv (ks s)"
    and "unat (heap_start (ks s) + heap_size (ks s)) < unat (ks_sbrk (ks s)) + need_of (unat sz)"
    and "unat (ks_sbrk (ks s)) + need_of (unat sz) < 18446744073709551616"
  shows "\<exists>s'. kmalloc sz s = Some (20, s') \<and> ks s' = ks s \<and>
     cells s' 0xFFFFFFFFFFFFFFF4 = of_nat (need_of (unat sz))"
proof -
  let ?need = "need_of (unat sz)"
  note nb = need_bounds [of "unat sz"]
  have un: "unat (of_nat ?need :: u64) = ?need"
    using nb(2) assms(5) by (intro unat_of_nat_u64) simp
  then have pos: "0 <s (of_nat ?need :: u64)" using nb assms(5) by (simp add: pos_u64_iff)
  have e: "to_u64 (- ENOMEM) = 0xFFFFFFFFFFFFFFF4" by (simp add: to_u64_def ENOMEM_def)
  have K: "k_sbrk (of_nat ?need) (ks s) = (0xFFFFFFFFFFFFFFF4, ks s)"
    using kb.move_full [OF assms(7) pos] assms(8,9) un e by simp
  then obtain h' where "heap_malloc (private_heap s) sz False (cells s) (ks s) =
      Some (0xFFFFFFFFFFFFFFF4 + 32, h', grown_mem 0xFFFFFFFFFFFFFFF4 ?need (cells s), ks s)"
    using heap_malloc_grows [OF assms(1-4) _ assms(6), of False "ks s" "0xFFFFFFFFFFFFFFF4" "ks s"] assms(5)
    by auto
  then show ?thesis
    by (intro exI [of _ "s\<lparr>private_heap := h', cells := grown_mem 0xFFFFFFFFFFFFFFF4 ?need (cells s), ks := ks s\<rparr>"])
      (simp add: kmalloc_def grown_mem_def)
qed

subsection \<open>Freeing\<close>

text \<open>The specification of \<open>_free\<close> on a layout, for the chunk behind \<open>bs\<close>.\<close>

definition absorb_next :: "nat \<Rightarrow> (nat \<times> bool) list \<Rightarrow> nat \<times> (nat \<times> bool) list" where
  "absorb_next n cs = (case cs of (k, False) # cs' \<Rightarrow> (n + k, cs') | _ \<Rightarrow> (n, cs))"

lemma free_search_found:
  assumes L: "layout m a (bs @ (n, u) # cs) e" and "bs = [] \<or> last (chunk_addrs a bs) = q"
    and adr: "\<forall>b \<in> set (chunk_addrs a bs). ck_address m (of_nat b) \<noteq> addr"
    and hit: "ck_address m (of_nat (a + extent bs)) = addr"
  shows "free_search m addr r (of_nat a) =
    Some (if bs = [] then r else of_nat q, of_nat (a + extent bs))"
  using assms
proof (induction bs arbitrary: a r)
  case Nil
  have "(of_nat a :: u64) \<noteq> of_nat 0" using Nil.prems(1) by (subst of_nat_eq_u64_iff) auto
  then show ?case using Nil.prems by (subst free_search.simps) simp
next
  case (Cons b bs)
  obtain k v where b: "b = (k, v)" by (cases b)
  have "(of_nat a :: u64) \<noteq> of_nat 0" using Cons.prems(1) by (subst of_nat_eq_u64_iff) (auto simp: b)
  moreover have "ck_next m (of_nat a) = of_nat (a + k)"
    using Cons.prems(1) by (simp add: b ck_next_def)
  ultimately have "free_search m addr r (of_nat a) = free_search m addr (of_nat a) (of_nat (a + k))"
    using Cons.prems(3) by (subst free_search.simps) (simp add: b)
  moreover have "free_search m addr (of_nat a) (of_nat (a + k)) =
      Some (if bs = [] then of_nat a else of_nat q, of_nat (a + k + extent bs))"
  proof (rule Cons.IH)
    show "bs = [] \<or> last (chunk_addrs (a + k) bs) = q"
      using Cons.prems(2) by (cases bs) (auto simp: b)
  qed (use Cons.prems in \<open>simp_all add: b add.assoc\<close>)
  moreover have "bs = [] \<Longrightarrow> q = a" using Cons.prems(2) by (simp add: b)
  ultimately show ?case by (auto simp: b add.assoc)
qed

lemma absorb_next_cases:
  obtains (merge) k cs' where "cs = (k, False) # cs'" "absorb_next n cs = (n + k, cs')"
  | (keep) "absorb_next n cs = (n, cs)" "cs = [] \<or> (\<exists>k cs'. cs = (k, True) # cs')"
proof (cases "\<exists>k ds. cs = (k, False) # ds")
  case True
  then show ?thesis using merge by (auto simp: absorb_next_def)
next
  case False
  then have "cs = [] \<or> (\<exists>k ds. cs = (k, True) # ds)"
    by (cases cs) (auto simp: split_paired_all)
  then show ?thesis using keep by (auto simp: absorb_next_def)
qed

text \<open>Merging a chunk with its successor in the list, as both halves of \<open>_free\<close> do it.\<close>

lemma merge_layout:
  assumes L: "layout m a (bs @ (n, u) # (k, v) # ds) 0" and p: "p = a + extent bs"
    and own: "m' (of_nat p) = of_nat (n + k)" "m' (of_nat (p + 24)) = m (of_nat (p + n + 24))"
    and out: "\<And>c. c < 18446744073709551616 \<Longrightarrow> c \<noteq> p \<Longrightarrow> c \<noteq> p + 16 \<Longrightarrow> c \<noteq> p + 24 \<Longrightarrow>
                m' (of_nat c) = m (of_nat c)"
  shows "layout m' a (bs @ (n + k, u) # ds) 0"
proof -
  have L2: "layout m a ((bs @ [(n, u)]) @ (k, v) # ds) 0" using L by simp
  have ex: "a + extent (bs @ [(n, u)]) = p + n" by (simp add: p)
  note C = layout_chunk [OF L, folded p] and D = layout_chunk [OF L2, unfolded ex]
  have p8: "m' (of_nat (p + 8)) = m (of_nat (p + 8))" by (rule out) (use D(3,6) C(3) in auto)
  have "layout m' p [(n + k, u)] (if ds = [] then 0 else of_nat (p + n + k))"
    using own p8 C D by (simp add: dvd_add del: of_nat_add)
  moreover have Lb: "layout m a bs (of_nat p)" using L by (simp add: layout_append p)
  then have "layout m' a bs (of_nat p)"
    by (rule layout_cong [rotated], intro out [symmetric]) (use C(6) in \<open>simp_all add: p\<close>)
  moreover have "layout m' (p + n + k) ds 0"
  proof (cases "ds = []")
    case False
    have Ld: "layout m (p + n + k) ds 0" using L2 by (simp add: layout_append p add.assoc)
    then have "p + n + k + extent ds < 18446744073709551616"
      using layout_bound [OF Ld False] by simp
    then show ?thesis
      by (intro layout_cong [OF _ Ld] out [symmetric]) (use C(3) D(3) in simp_all)
  qed simp
  ultimately show ?thesis by (simp add: layout_append p add.assoc)
qed

lemma coalesce_next_merge:
  assumes L: "layout m a (bs @ (n, u) # (k, False) # ds) 0" and p: "p = a + extent bs"
  shows "coalesce_next (of_nat p) m = m(of_nat p := of_nat (n + k), of_nat (p + 24) := m (of_nat (p + n + 24)))"
proof -
  have L2: "layout m a ((bs @ [(n, u)]) @ (k, False) # ds) 0" using L by simp
  have ex: "a + extent (bs @ [(n, u)]) = p + n" by (simp add: p)
  note C = layout_chunk [OF L, folded p] and D = layout_chunk [OF L2, unfolded ex]
  have nx: "ck_next m (of_nat p) = of_nat (p + n)" using C(7) by (simp add: ck_next_def)
  have nz: "(of_nat (p + n) :: u64) \<noteq> of_nat 0"
    using C(5,6) by (subst of_nat_eq_u64_iff) auto
  have un: "ck_used m (of_nat (p + n)) = 0" using D(2) by (simp add: ck_used_def)
  have z: "ck_size m (of_nat p) + ck_size m (of_nat (p + n)) = of_nat (n + k)"
    using C(1) D(1) by (simp add: ck_size_def)
  have P24: "ck_next (set_size (of_nat p) w m) (of_nat p) = of_nat (p + n)" for w
  proof -
    have "(m(of_nat p := w)) (of_nat (p + 24)) = m (of_nat (p + 24))"
      using C(3,6) by (subst cell_upd) auto
    then show ?thesis using C(7) by (simp add: ck_next_def set_size_def del: fun_upd_apply)
  qed
  have y: "ck_next (set_size (of_nat p) (of_nat (n + k)) m) (of_nat (p + n)) = m (of_nat (p + n + 24))"
  proof -
    have "(m(of_nat p := of_nat (n + k))) (of_nat (p + n + 24)) = m (of_nat (p + n + 24))"
      using D(3,6) C(3) by (subst cell_upd) auto
    then show ?thesis by (simp add: ck_next_def set_size_def add.assoc del: fun_upd_apply)
  qed
  show ?thesis
    unfolding coalesce_next_def Let_def nx z P24 y using nz un
    by (simp add: set_next_def set_size_def)
qed

lemma coalesce_next_keep:
  assumes L: "layout m a (bs @ (n, u) # cs) 0" and "cs = [] \<or> (\<exists>k ds. cs = (k, True) # ds)"
  shows "coalesce_next (of_nat (a + extent bs)) m = m"
proof -
  note C = layout_chunk [OF L]
  have "\<not> (ck_next m (of_nat (a + extent bs)) \<noteq> 0 \<and> ck_used m (ck_next m (of_nat (a + extent bs))) = 0)"
  proof (cases "cs = []")
    case True
    then show ?thesis using C(7) by (simp add: ck_next_def)
  next
    case False
    then obtain k ds where cs: "cs = (k, True) # ds" using assms(2) by blast
    have "layout m a ((bs @ [(n, u)]) @ (k, True) # ds) 0" using L by (simp add: cs)
    from layout_chunk(2) [OF this] C(7) show ?thesis
      by (simp add: ck_next_def ck_used_def cs add.assoc)
  qed
  then show ?thesis unfolding coalesce_next_def by (rule if_not_P)
qed

text \<open>The first half of \<open>_free\<close>: the chunk behind \<open>bs\<close> absorbs a free successor.\<close>

lemma absorb_layout:
  assumes L: "layout m a (bs @ (n, u) # cs) 0" and A: "absorb_next n cs = (n', cs')"
  defines "p \<equiv> a + extent bs"
  defines "m' \<equiv> coalesce_next (of_nat p) m"
  shows "layout m' a (bs @ (n', u) # cs') 0"
    and "\<And>c. c < 18446744073709551616 \<Longrightarrow> c \<noteq> p \<Longrightarrow> c \<noteq> p + 24 \<Longrightarrow> m' (of_nat c) = m (of_nat c)"
proof -
  note C = layout_chunk [OF L, folded p_def]
  have "layout m' a (bs @ (n', u) # cs') 0 \<and>
      (\<forall>c < 18446744073709551616. c \<noteq> p \<longrightarrow> c \<noteq> p + 24 \<longrightarrow> m' (of_nat c) = m (of_nat c))"
  proof (rule absorb_next_cases [of cs n])
    fix k ds assume cs: "cs = (k, False) # ds" and "absorb_next n cs = (n + k, ds)"
    then have e: "n' = n + k" "cs' = ds" using A by auto
    have m': "m' = m(of_nat p := of_nat (n + k), of_nat (p + 24) := m (of_nat (p + n + 24)))"
      unfolding m'_def by (rule coalesce_next_merge [OF L [unfolded cs]]) (simp add: p_def)
    have out: "m' (of_nat c) = m (of_nat c)" if "c < 18446744073709551616" "c \<noteq> p" "c \<noteq> p + 24" for c
      using that C(3,6) by (simp add: m' cell_upd del: fun_upd_apply of_nat_add)
    have "layout m' a (bs @ (n + k, u) # ds) 0"
      by (rule merge_layout [OF L [unfolded cs] meta_eq_to_obj_eq [OF p_def]])
        (use C(3,6) out in \<open>simp_all add: m' cell_upd del: fun_upd_apply of_nat_add\<close>)
    then show ?thesis using out e by simp
  next
    assume K: "absorb_next n cs = (n, cs)" "cs = [] \<or> (\<exists>k ds. cs = (k, True) # ds)"
    then have "m' = m" unfolding m'_def p_def by (intro coalesce_next_keep [OF L])
    then show ?thesis using K(1) A L by simp
  qed
  then show "layout m' a (bs @ (n', u) # cs') 0"
    "\<And>c. c < 18446744073709551616 \<Longrightarrow> c \<noteq> p \<Longrightarrow> c \<noteq> p + 24 \<Longrightarrow> m' (of_nat c) = m (of_nat c)" by auto
qed

text \<open>The second half: a free predecessor absorbs the chunk.\<close>

lemma coalesce_prev_merge:
  assumes L: "layout m a (bs @ (n, False) # (k, v) # ds) 0" and p: "p = a + extent bs"
  shows "coalesce_prev (of_nat p) (of_nat (p + n)) m =
    m(of_nat p := of_nat (n + k), of_nat (p + 16) := 0, of_nat (p + 24) := m (of_nat (p + n + 24)))"
proof -
  have L2: "layout m a ((bs @ [(n, False)]) @ (k, v) # ds) 0" using L by simp
  have ex: "a + extent (bs @ [(n, False)]) = p + n" by (simp add: p)
  note C = layout_chunk [OF L, folded p] and D = layout_chunk [OF L2, unfolded ex]
  have "(of_nat (p + n) :: u64) \<noteq> of_nat p" "ck_used m (of_nat p) = 0"
    using C(2,3,6) by (subst of_nat_eq_u64_iff, auto simp: ck_used_def)
  moreover have "ck_size m (of_nat p) + ck_size m (of_nat (p + n)) = of_nat (n + k)"
    using C(1) D(1) by (simp add: ck_size_def)
  moreover have "(m(of_nat p := x, of_nat (p + 16) := y)) (of_nat (p + n + 24)) = m (of_nat (p + n + 24))" for x y
    using C(3) D(3,6) by (simp add: cell_upd del: of_nat_add fun_upd_apply)
  ultimately show ?thesis
    by (simp add: coalesce_prev_def Let_def ck_next_def set_next_def set_size_def set_address_def add.assoc
        del: fun_upd_apply)
qed

text \<open>C35. \<open>kfree\<close> never makes memory available when the predecessor of the freed chunk is in use or
  the chunk is the first: the chunk stays marked as used, it absorbs a free successor if there is
  one, and nothing that did not fit before fits afterwards.\<close>

theorem kfree_leaks:
  assumes "layout (cells s) a (bs @ (n, True) # cs) 0" and "heap_head (private_heap s) = of_nat a"
    and "bs = [] \<or> snd (last bs)"
    and "\<forall>b \<in> set (chunk_addrs a bs). ck_address (cells s) (of_nat b) \<noteq> addr"
    and "ck_address (cells s) (of_nat (a + extent bs)) = addr"
  shows "\<exists>s' n' cs'. kfree addr s = Some s' \<and> absorb_next n cs = (n', cs') \<and>
     layout (cells s') a (bs @ (n', True) # cs') 0 \<and>
     used_chunks a (bs @ (n, True) # cs) - {(a + extent bs, n)} \<subseteq> used_chunks a (bs @ (n', True) # cs') \<and>
     (\<forall>need. first_fit a need (bs @ (n, True) # cs) = None \<longrightarrow>
             first_fit a need (bs @ (n', True) # cs') = None)"
proof -
  let ?m = "cells s" and ?p = "a + extent bs"
  obtain n' cs' where A: "absorb_next n cs = (n', cs')" by (metis surj_pair)
  define m' where "m' = coalesce_next (of_nat ?p) ?m"
  note N = absorb_layout [OF assms(1) A, folded m'_def]
  define q where "q = last (chunk_addrs a bs)"
  have "free_search ?m addr (of_nat a) (of_nat a) =
      Some (if bs = [] then of_nat a else of_nat q, of_nat ?p)"
    by (rule free_search_found [OF assms(1) _ assms(4,5)]) (simp add: q_def)
  moreover have "(of_nat ?p :: u64) \<noteq> of_nat 0"
    using layout_chunk(5,6) [OF assms(1)] by (subst of_nat_eq_u64_iff) auto
  moreover
  have "\<not> (of_nat ?p \<noteq> (if bs = [] then of_nat a else of_nat q :: u64) \<and>
      ck_used m' (if bs = [] then of_nat a else of_nat q) = 0)"
  proof (cases bs rule: rev_cases)
    case Nil
    then show ?thesis by simp
  next
    case (snoc ds d)
    obtain k where d: "d = (k, True)" using assms(3) snoc by (cases d) auto
    have q: "q = a + extent ds" by (simp add: q_def snoc d chunk_addrs_append)
    have L: "layout ?m a (ds @ (k, True) # (n, True) # cs) 0" using assms(1) by (simp add: snoc d)
    note C = layout_chunk [OF L, folded q]
    have "m' (of_nat (q + 8)) = ?m (of_nat (q + 8))"
      using C(3,6) by (intro N(2)) (auto simp: snoc d q)
    then show ?thesis using C(2) snoc by (simp add: ck_used_def)
  qed
  then have P: "coalesce_prev (if bs = [] then of_nat a else of_nat q) (of_nat ?p) m' = m'"
    unfolding coalesce_prev_def by (rule if_not_P)
  ultimately have F: "kfree addr s = Some (s\<lparr>cells := m'\<rparr>)"
    unfolding kfree_def heap_free_def assms(2)
    by (simp add: m'_def [symmetric] del: of_nat_add)
  have U: "used_chunks a (bs @ (n, True) # cs) - {(?p, n)} \<subseteq> used_chunks a (bs @ (n', True) # cs')"
    using A by (cases rule: absorb_next_cases [of cs n]) (auto simp: used_chunks_append add.assoc)
  have f: "first_fit b need (bs @ (n', True) # cs') = None"
    if "first_fit b need (bs @ (n, True) # cs) = None" for need b
    using that
  proof (induction bs arbitrary: b)
    case Nil
    have tail: "first_fit b' need ys = None" if "first_fit c need ys = None" for b' c ys
      using that
    proof (induction ys arbitrary: b' c)
      case (Cons y ys)
      then show ?case by (cases y) (auto split: if_splits)
    qed simp
    show ?case using Nil A tail
      by (cases rule: absorb_next_cases [of cs n]) (auto split: if_splits)
  next
    case (Cons x xs)
    then show ?case by (cases x) (auto split: if_splits)
  qed
  show ?thesis using F A N(1) U f
    by (intro exI [of _ "s\<lparr>cells := m'\<rparr>"] exI [of _ n'] exI [of _ cs']) simp
qed

subsection \<open>The initial heap\<close>

lemma heap_init_one_cells:
  fixes m :: wordmem and h :: u64
  defines "m' \<equiv> heap_init_one h (h + HEAP_MIN_SIZE) m"
  shows "m' h = 0x5000" "m' (h + 8) = 0" "m' (h + 24) = 0"
    and "x \<noteq> h \<Longrightarrow> x \<noteq> h + 8 \<Longrightarrow> x \<noteq> h + 24 \<Longrightarrow> m' x = m x"
proof -
  have "h + HEAP_MIN_SIZE + 1 - h = 0x2001" by (simp add: HEAP_MIN_SIZE_def)
  then have "HEAP_MIN_SIZE + PAGE_UP (h + HEAP_MIN_SIZE + 1 - h) = 0x5000"
    by (simp only:) (simp add: HEAP_MIN_SIZE_def PAGE_UP_def)
  then show "m' h = 0x5000" "m' (h + 8) = 0" "m' (h + 24) = 0"
    "x \<noteq> h \<Longrightarrow> x \<noteq> h + 8 \<Longrightarrow> x \<noteq> h + 24 \<Longrightarrow> m' x = m x"
    unfolding m'_def heap_init_one_def Let_def by (simp_all add: ck_defs)
qed

lemma k_sbrk_grow:
  assumes "k_brk_inv k" "n < 0x8000000000000000" "0 < n"
    and "unat (ks_sbrk k) + n \<le> unat (heap_start k + heap_size k)"
  shows "\<exists>k'. k_sbrk (of_nat n) k = (ks_sbrk k + of_nat n, k') \<and> ks_sbrk k' = ks_sbrk k + of_nat n \<and>
    unat (ks_sbrk k') = unat (ks_sbrk k) + n \<and> k_brk_inv k' \<and>
    heap_start k' + heap_size k' = heap_start k + heap_size k \<and> k' = k\<lparr>ks_sbrk := ks_sbrk k'\<rparr>"
proof -
  have u: "unat (of_nat n :: u64) = n" using assms(2) by (intro unat_of_nat_u64) simp
  then have pos: "0 <s (of_nat n :: u64)" using assms(2,3) by (simp add: pos_u64_iff)
  obtain r k' where K: "k_sbrk (of_nat n) k = (r, k')" by (metis surj_pair)
  have le: "unat (ks_sbrk k) + unat (of_nat n :: u64) \<le> unat (heap_start k + heap_size k)"
    using assms(4) u by simp
  have "k' = k\<lparr>ks_sbrk := ks_sbrk k'\<rparr>"
    using K by (auto simp: k_sbrk_def Let_def split: if_splits)
  then show ?thesis
    using kb.move_up [OF assms(1) pos le K] kb.grow_returns_end [OF assms(1) pos le K] K u by auto
qed

lemma shared_sbrk_grow:
  assumes "shared_brk_inv k" "n < 0x8000000000000000" "0 < n"
    and "unat (sh_sbrk k) + n \<le> unat (shared_heap_start k + shared_heap_size k)"
  shows "\<exists>k'. shared_sbrk (of_nat n) k = (sh_sbrk k + of_nat n, k') \<and> k' = k\<lparr>sh_sbrk := sh_sbrk k + of_nat n\<rparr> \<and>
    unat (sh_sbrk k + of_nat n) = unat (sh_sbrk k) + n"
proof -
  have u: "unat (of_nat n :: u64) = n" using assms(2) by (intro unat_of_nat_u64) simp
  then have pos: "0 <s (of_nat n :: u64)" using assms(2,3) by (simp add: pos_u64_iff)
  obtain r k' where K: "shared_sbrk (of_nat n) k = (r, k')" by (metis surj_pair)
  have le: "unat (sh_sbrk k) + unat (of_nat n :: u64) \<le> unat (shared_heap_start k + shared_heap_size k)"
    using assms(4) u by simp
  have "k' = k\<lparr>sh_sbrk := sh_sbrk k'\<rparr>"
    using K by (auto simp: shared_sbrk_def Let_def split: if_splits)
  then show ?thesis
    using sb.move_up [OF assms(1) pos le K] sb.grow_returns_end [OF assms(1) pos le K] K u by auto
qed

lemma heap_init_layout:
  assumes I: "k_brk_inv (ks s)" "shared_brk_inv (ks s)"
    and H: "H = unat (ks_sbrk (ks s))" "H + 0x10000 \<le> unat (heap_start (ks s) + heap_size (ks s))"
    and S: "unat (sh_sbrk (ks s)) + 0x2000 \<le> unat (shared_heap_start (ks s) + shared_heap_size (ks s))"
      "unat (sh_sbrk (ks s)) + 0x5000 \<le> H"
  shows "\<exists>s1. heap_init s = (1, s1) \<and> ks_sbrk (ks s1) = of_nat (H + 0x2000) \<and>
    layout (cells s1) H [(0x5000, False)] 0 \<and> heap_head (private_heap s1) = of_nat H \<and>
    k_brk_inv (ks s1) \<and> heap_start (ks s1) + heap_size (ks s1) = heap_start (ks s) + heap_size (ks s)"
proof -
  let ?k = "ks s" and ?h = "ks_sbrk (ks s)" and ?g = "sh_sbrk (ks s)"
  have hH: "?h = of_nat H" by (simp add: H(1))
  have min: "HEAP_MIN_SIZE = of_nat 0x2000" by (simp add: HEAP_MIN_SIZE_def)
  obtain k1 where k1: "k_sbrk HEAP_MIN_SIZE ?k = (?h + HEAP_MIN_SIZE, k1)" "ks_sbrk k1 = ?h + HEAP_MIN_SIZE"
    "unat (ks_sbrk k1) = H + 0x2000" "k_brk_inv k1"
    "heap_start k1 + heap_size k1 = heap_start ?k + heap_size ?k" "k1 = ?k\<lparr>ks_sbrk := ks_sbrk k1\<rparr>"
    using k_sbrk_grow [OF I(1), of "0x2000"] H unfolding min by auto
  have sh: "sh_sbrk k1 = ?g" "shared_brk_inv k1"
    "shared_heap_start k1 + shared_heap_size k1 = shared_heap_start ?k + shared_heap_size ?k"
    using I(2) by (subst k1(6), simp add: shared_brk_inv_def)+
  obtain k2 where k2: "shared_sbrk HEAP_MIN_SIZE k1 = (?g + HEAP_MIN_SIZE, k2)"
    "k2 = k1\<lparr>sh_sbrk := ?g + HEAP_MIN_SIZE\<rparr>" "unat (?g + HEAP_MIN_SIZE) = unat ?g + 0x2000"
    using shared_sbrk_grow [OF sh(2), of "0x2000"] S(1) sh(1,3) unfolding min by auto
  have nz: "?h + HEAP_MIN_SIZE \<noteq> 0" "?g + HEAP_MIN_SIZE \<noteq> 0"
    using k1(2,3) k2(3) by (metis unat_0 add_is_0 zero_neq_numeral)+
  let ?m1 = "heap_init_one ?h (?h + HEAP_MIN_SIZE) (cells s)"
  let ?m2 = "heap_init_one ?g (?g + HEAP_MIN_SIZE) ?m1"
  let ?s1 = "s\<lparr>ks := k2, private_heap := \<lparr>heap_head = ?h, heap_tail = ?h\<rparr>,
      shared_heap := \<lparr>heap_head = ?g, heap_tail = ?g\<rparr>, cells := ?m2\<rparr>"
  have "heap_init s = (1, ?s1)"
    using nz by (simp add: heap_init_def Let_def kb.move_zero [OF I(1)] k1(1)
        sb.move_zero [OF sh(2)] sh(1) k2(1))
  moreover have "layout ?m2 H [(0x5000, False)] 0"
  proof -
    have far: "x \<noteq> ?g \<and> x \<noteq> ?g + 8 \<and> x \<noteq> ?g + 24" if "x = ?h \<or> x = ?h + 8 \<or> x = ?h + 24" for x
    proof -
      have "unat (?g + of_nat d) = unat ?g + d" "unat (?h + of_nat d) = H + d" if "d \<le> 24" for d
        using that S H unat_less_2p64 [of "heap_start ?k + heap_size ?k"]
        by (auto simp: unat_add_nowrap unat_of_nat_u64)
      from this [of 0] this [of 8] this [of 24]
      have "unat x \<ge> H" "unat ?g < H" "unat (?g + 8) < H" "unat (?g + 24) < H"
        using that S(2) by (auto simp: H(1))
      then show ?thesis by auto
    qed
    have "?m2 ?h = 0x5000" "?m2 (?h + 8) = 0" "?m2 (?h + 24) = 0"
      using far heap_init_one_cells(4) [of _ ?g ?m1] heap_init_one_cells(1-3) [of ?h "cells s"] by simp_all
    moreover have "H + 0x5000 < 18446744073709551616"
      using H(2) unat_less_2p64 [of "heap_start ?k + heap_size ?k"] by linarith
    moreover have "0 < H" using S(2) by simp
    ultimately show ?thesis by (simp add: H(1))
  qed
  moreover have "ks_sbrk (ks ?s1) = of_nat (H + 0x2000)"
    by (simp add: k2(2) k1(2) hH HEAP_MIN_SIZE_def)
  moreover have "k_brk_inv k2" "heap_start k2 + heap_size k2 = heap_start ?k + heap_size ?k"
    using k1(4,5) by (simp_all add: k2(2) k_brk_inv_def)
  ultimately show ?thesis by (intro exI [of _ ?s1]) (simp add: hH)
qed

text \<open>C36. \<open>heap_init\<close> obtains 0x2000 bytes from \<open>k_sbrk\<close> but describes the first chunk as 0x5000 bytes
  long. An allocation of 0x4F00 bytes is served from it, beyond the break, and the next one of
  0x1000 bytes, which moves the break, is placed inside the first allocation.\<close>

theorem heap_init_overlap:
  assumes "k_brk_inv (ks s)" and "shared_brk_inv (ks s)"
    and "H = unat (ks_sbrk (ks s))" and "H + 0x10000 \<le> unat (heap_start (ks s) + heap_size (ks s))"
    and "unat (sh_sbrk (ks s)) + 0x2000 \<le> unat (shared_heap_start (ks s) + shared_heap_size (ks s))"
    and "unat (sh_sbrk (ks s)) + 0x5000 \<le> H"
  shows "\<exists>s1 s2 s3. heap_init s = (1, s1) \<and> ks_sbrk (ks s1) = of_nat (H + 0x2000) \<and>
     layout (cells s1) H [(0x5000, False)] 0 \<and>
     kmalloc 0x4F00 s1 = Some (of_nat (H + 32), s2) \<and>
     kmalloc 0x1000 s2 = Some (of_nat (H + 0x3040), s3) \<and>
     H + 32 < H + 0x3040 \<and> H + 0x3040 + 0x1000 < H + 32 + 0x4F00"
proof -
  obtain s1 where s1: "heap_init s = (1, s1)" "ks_sbrk (ks s1) = of_nat (H + 0x2000)"
    "layout (cells s1) H [(0x5000, False)] 0" "heap_head (private_heap s1) = of_nat H"
    "k_brk_inv (ks s1)" "heap_start (ks s1) + heap_size (ks s1) = heap_start (ks s) + heap_size (ks s)"
    using heap_init_layout [OF assms] by blast
  have H: "40 \<le> H" "H + 0x10000 < 18446744073709551616"
    using assms(4,6) unat_less_2p64 [of "heap_start (ks s) + heap_size (ks s)"] by linarith+
  have need: "need_of (unat (0x4F00::u64)) = 0x4F20" "need_of (unat (0x1000::u64)) = 0x1020"
    by (simp_all add: need_of_def)
  have F1: "first_fit H (need_of (unat (0x4F00::u64))) [(0x5000, False)] =
      Some (H, [(0x4F20, True), (0xE0, False)])" by (simp add: need_of_def)
  obtain h2 m2 where A: "heap_malloc (private_heap s1) 0x4F00 False (cells s1) (ks s1) =
      Some (of_nat (H + 32), h2, m2, ks s1)" "layout m2 H [(0x4F20, True), (0xE0, False)] 0"
    "heap_head h2 = of_nat H"
    using heap_malloc_fits [OF s1(3,4) H(1) _ _ F1, of False "ks s1"] s1(4) by auto
  let ?s2 = "s1\<lparr>private_heap := h2, cells := m2, ks := ks s1\<rparr>"
  have F2: "first_fit H (need_of (unat (0x1000::u64))) [(0x4F20, True), (0xE0, False)] = None"
    by (simp add: need_of_def)
  have u: "unat (ks_sbrk (ks s1)) = H + 0x2000" using s1(2) H(2) by (simp only: unat_of_nat_u64)
  obtain k3 where K: "k_sbrk (of_nat 0x1020) (ks s1) = (ks_sbrk (ks s1) + of_nat 0x1020, k3)"
    "unat (ks_sbrk k3) = H + 0x3020" "ks_sbrk k3 = ks_sbrk (ks s1) + of_nat 0x1020"
    using k_sbrk_grow [OF s1(5), of "0x1020"] u assms(4) s1(6) by auto
  have "ks_sbrk (ks s1) + of_nat 0x1020 \<noteq> 0"
    using K(2,3) by (metis unat_0 add_is_0 zero_neq_numeral)
  then obtain h3 where B: "heap_malloc h2 0x1000 False m2 (ks s1) =
      Some (ks_sbrk (ks s1) + of_nat 0x1020 + 32, h3, grown_mem (ks_sbrk (ks s1) + of_nat 0x1020) 0x1020 m2, k3)"
    using heap_malloc_grows [OF A(2,3) _ _ _ F2, of False "ks s1"] K(1) by (auto simp: need_of_def)
  have "ks_sbrk (ks s1) + of_nat 0x1020 + 32 = of_nat (H + 0x3040)" by (simp add: s1(2))
  then show ?thesis using s1 A B
    by (intro exI [of _ s1] exI [of _ ?s2]
        exI [of _ "?s2\<lparr>private_heap := h3, cells := grown_mem (ks_sbrk (ks s1) + of_nat 0x1020) 0x1020 m2, ks := k3\<rparr>"])
      (simp add: kmalloc_def)
qed

subsection \<open>What the clients of the heap rely on\<close>

text \<open>An allocation of zeroed memory changes the private heap and the bytes, nothing else.\<close>

lemma heap_malloc_nonnull:
  assumes "layout m a xs 0" and "heap_head heap = of_nat a" and "40 \<le> a"
    and "sz \<noteq> 0" and "unat sz + 39 < 18446744073709551616"
    and "first_fit a (need_of (unat sz)) xs = Some (p, ys)"
  shows "\<exists>h m'. heap_malloc heap sz shared m k = Some (of_nat (p + 32), h, m', k) \<and>
     layout m' a ys 0 \<and> heap_head h = of_nat a \<and> (of_nat (p + 32) :: u64) \<noteq> 0 \<and>
     (\<forall>x. unat x < a \<or> a + extent xs \<le> unat x \<longrightarrow> m' x = m x)"
proof -
  obtain bs n cs where xs: "xs = bs @ (n, False) # cs" "p = a + extent bs"
    using first_fit_Some [OF assms(6)] by blast
  have b: "p + 32 < 18446744073709551616"
    using layout_chunk(3,6) [OF assms(1) [unfolded xs(1)]] by (simp add: xs(2))
  have nz: "(of_nat (p + 32) :: u64) \<noteq> 0"
  proof
    assume "(of_nat (p + 32) :: u64) = 0"
    then have "unat (of_nat (p + 32) :: u64) = 0" by (simp only: unat_0)
    with b show False by (simp add: unat_of_nat_u64 del: of_nat_add)
  qed
  with heap_malloc_fits_frame [OF assms, of shared k] assms(2) show ?thesis by auto
qed

lemma kmalloc_frame:
  assumes "layout (cells s) a xs 0" and "heap_head (private_heap s) = of_nat a" and "40 \<le> a"
    and "sz \<noteq> 0" and "unat sz + 39 < 18446744073709551616"
    and "first_fit a (need_of (unat sz)) xs = Some (p, ys)"
  shows "\<exists>h m. kmalloc sz s = Some (of_nat (p + 32), s\<lparr>private_heap := h, cells := m\<rparr>) \<and>
     layout m a ys 0 \<and> heap_head h = of_nat a \<and> (of_nat (p + 32) :: u64) \<noteq> 0 \<and>
     (\<forall>x. unat x < a \<or> a + extent xs \<le> unat x \<longrightarrow> m x = cells s x)"
proof -
  obtain h m where R: "heap_malloc (private_heap s) sz False (cells s) (ks s) = Some (of_nat (p + 32), h, m, ks s)"
    "layout m a ys 0" "heap_head h = of_nat a" "(of_nat (p + 32) :: u64) \<noteq> 0"
    "\<forall>x. unat x < a \<or> a + extent xs \<le> unat x \<longrightarrow> m x = cells s x"
    using heap_malloc_nonnull [OF assms, of False "ks s"] by blast
  then show ?thesis
    by (intro exI [of _ h] exI [of _ m]) (simp add: kmalloc_def del: of_nat_add)
qed

lemma kcalloc_frame:
  assumes "layout (cells s) a xs 0" and "heap_head (private_heap s) = of_nat a" and "40 \<le> a"
    and "nm * c \<noteq> 0" and "unat (nm * c) + 39 < 18446744073709551616"
    and "first_fit a (need_of (unat (nm * c))) xs = Some (p, ys)"
  shows "\<exists>h m b. kcalloc nm c s = Some (of_nat (p + 32), s\<lparr>private_heap := h, cells := m, bytes := b\<rparr>) \<and>
     layout m a ys 0 \<and> heap_head h = of_nat a \<and> (of_nat (p + 32) :: u64) \<noteq> 0 \<and>
     (\<forall>x. unat x < a \<or> a + extent xs \<le> unat x \<longrightarrow> m x = cells s x \<and> b x = bytes s x)"
proof -
  obtain h m where R: "kmalloc (nm * c) s = Some (of_nat (p + 32), s\<lparr>private_heap := h, cells := m\<rparr>)"
      "layout m a ys 0" "heap_head h = of_nat a" "(of_nat (p + 32) :: u64) \<noteq> 0"
      "\<forall>x. unat x < a \<or> a + extent xs \<le> unat x \<longrightarrow> m x = cells s x"
    using kmalloc_frame [OF assms] by blast
  let ?b = "snd (memset (bytes s) (of_nat (p + 32)) 0 (nm * c))"
  have p: "p + 32 + unat (nm * c) \<le> a + extent xs" "a \<le> p"
    using first_fit_fresh(1) [OF assms(6)] need_bounds(1) [of "unat (nm * c)"] by auto
  have top: "a + extent xs < 18446744073709551616"
    using layout_bound [OF assms(1)] assms(6) by (cases xs) auto
  have "?b x = bytes s x" if x: "unat x < a \<or> a + extent xs \<le> unat x" for x
  proof -
    have "\<not> unat (x - of_nat (p + 32)) < unat (nm * c)"
    proof
      assume d: "unat (x - of_nat (p + 32)) < unat (nm * c)"
      have u: "unat (of_nat (p + 32) :: u64) = p + 32" using p top by (intro unat_of_nat_u64) simp
      have "unat x = unat ((x - of_nat (p + 32)) + of_nat (p + 32))" by simp
      also have "\<dots> = unat (x - of_nat (p + 32)) + (p + 32)"
        using d p top by (subst unat_add_nowrap) (simp_all only: u)
      finally show False using x d p by linarith
    qed
    then show ?thesis by (simp add: memset_fill_aux mem_fill_def del: of_nat_add)
  qed
  with R show ?thesis using assms(4)
    by (intro exI [of _ h] exI [of _ m] exI [of _ ?b]) (simp add: kcalloc_def Let_def del: of_nat_add)
qed

lemma kcalloc_fits:
  assumes "layout (cells s) a xs 0" and "heap_head (private_heap s) = of_nat a" and "40 \<le> a"
    and "nm * c \<noteq> 0" and "unat (nm * c) + 39 < 18446744073709551616"
    and "first_fit a (need_of (unat (nm * c))) xs = Some (p, ys)"
  shows "\<exists>h m b. kcalloc nm c s = Some (of_nat (p + 32), s\<lparr>private_heap := h, cells := m, bytes := b\<rparr>) \<and>
     layout m a ys 0 \<and> heap_head h = of_nat a \<and> (of_nat (p + 32) :: u64) \<noteq> 0"
proof -
  obtain h m where R: "heap_malloc (private_heap s) (nm * c) False (cells s) (ks s) =
      Some (of_nat (p + 32), h, m, ks s)" "layout m a ys 0" "heap_head h = of_nat a"
      "(of_nat (p + 32) :: u64) \<noteq> 0"
    using heap_malloc_nonnull [OF assms, of False "ks s"] by blast
  then have "kcalloc nm c s = Some (of_nat (p + 32), s\<lparr>private_heap := h, cells := m,
      bytes := snd (memset (bytes s) (of_nat (p + 32)) 0 (nm * c))\<rparr>)"
    using assms(4) by (simp add: kcalloc_def kmalloc_def Let_def)
  with R show ?thesis by blast
qed

lemma smalloc_fits:
  assumes "layout (cells s) a xs 0" and "heap_head (shared_heap s) = of_nat a" and "40 \<le> a"
    and "sz \<noteq> 0" and "unat sz + 39 < 18446744073709551616"
    and "first_fit a (need_of (unat sz)) xs = Some (p, ys)"
  shows "\<exists>h m. smalloc sz s = Some (of_nat (p + 32), s\<lparr>shared_heap := h, cells := m\<rparr>) \<and>
     layout m a ys 0 \<and> heap_head h = of_nat a \<and> (of_nat (p + 32) :: u64) \<noteq> 0"
proof -
  obtain h m where R: "heap_malloc (shared_heap s) sz True (cells s) (ks s) =
      Some (of_nat (p + 32), h, m, ks s)" "layout m a ys 0" "heap_head h = of_nat a"
      "(of_nat (p + 32) :: u64) \<noteq> 0"
    using heap_malloc_nonnull [OF assms, of True "ks s"] by blast
  then have "smalloc sz s = Some (of_nat (p + 32), s\<lparr>shared_heap := h, cells := m\<rparr>)"
    by (simp add: smalloc_def)
  with R show ?thesis by blast
qed

lemma scalloc_fits:
  assumes "layout (cells s) a xs 0" and "heap_head (shared_heap s) = of_nat a" and "40 \<le> a"
    and "nm * c \<noteq> 0" and "unat (nm * c) + 39 < 18446744073709551616"
    and "first_fit a (need_of (unat (nm * c))) xs = Some (p, ys)"
  shows "\<exists>h m b. scalloc nm c s = Some (of_nat (p + 32), s\<lparr>shared_heap := h, cells := m, bytes := b\<rparr>) \<and>
     layout m a ys 0 \<and> heap_head h = of_nat a \<and> (of_nat (p + 32) :: u64) \<noteq> 0"
proof -
  obtain h m where R: "smalloc (nm * c) s = Some (of_nat (p + 32), s\<lparr>shared_heap := h, cells := m\<rparr>)"
      "layout m a ys 0" "heap_head h = of_nat a" "(of_nat (p + 32) :: u64) \<noteq> 0"
    using smalloc_fits [OF assms] by blast
  then have "scalloc nm c s = Some (of_nat (p + 32), s\<lparr>shared_heap := h, cells := m,
      bytes := snd (memset (bytes s) (of_nat (p + 32)) 0 (nm * c))\<rparr>)"
    using assms(4) by (simp add: scalloc_def Let_def)
  with R show ?thesis by blast
qed

lemma free_search_total:
  "chain (ck_next m) p ps \<Longrightarrow> \<exists>r. free_search m addr q p = Some r"
  by (induction ps arbitrary: p q) (auto simp: free_search.simps)

lemma heap_free_total:
  assumes "layout m a xs 0" and "heap_head heap = of_nat a" and "xs \<noteq> []"
  shows "\<exists>m'. heap_free heap addr m = Some m'"
proof -
  have "chain (ck_next m) (of_nat a) (map of_nat (chunk_addrs a xs))"
    using layout_seg [OF assms(1)] assms(3) by (simp add: chain_iff_seg)
  then obtain r where "free_search m addr (of_nat a) (of_nat a) = Some r"
    using free_search_total by blast
  then show ?thesis by (cases r) (simp add: heap_free_def assms(2))
qed

lemma kfree_total:
  assumes "layout (cells s) a xs 0" and "heap_head (private_heap s) = of_nat a" and "xs \<noteq> []"
  shows "\<exists>m. kfree addr s = Some (s\<lparr>cells := m\<rparr>)"
  using heap_free_total [OF assms, of addr] unfolding kfree_def by auto

lemma sfree_total:
  assumes "layout (cells s) a xs 0" and "heap_head (shared_heap s) = of_nat a" and "xs \<noteq> []"
  shows "\<exists>m. sfree addr s = Some (s\<lparr>cells := m\<rparr>)"
  using heap_free_total [OF assms, of addr] unfolding sfree_def by auto

subsection \<open>Instances\<close>

text \<open>The private heap right after \<open>heap_init\<close>, on the regions of \<open>ex_ks\<close>.\<close>

definition ex_heap :: "u64 \<Rightarrow> kst" where
  "ex_heap brk = zero_kst\<lparr>ks := ex_ks_brk\<lparr>ks_sbrk := brk\<rparr>,
     cells := (\<lambda>_. 0)(0xFFFFF00000400000 := 0x5000),
     private_heap := \<lparr>heap_head = 0xFFFFF00000400000, heap_tail = 0xFFFFF00000400000\<rparr>\<rparr>"

lemma ex_heap_layout: "layout (cells (ex_heap brk)) 0xFFFFF00000400000 [(0x5000, False)] 0"
  by (simp add: ex_heap_def)

lemma ex_heap_head: "heap_head (private_heap (ex_heap brk)) = of_nat 0xFFFFF00000400000"
  by (simp add: ex_heap_def)

theorem kmalloc_first_fit_witness:
  "\<exists>s' n. kmalloc 100 (ex_heap 0xFFFFF00000402000) = Some (of_nat (0xFFFFF00000400000 + 32), s') \<and>
     layout (cells s') 0xFFFFF00000400000 [(136, True), (0x5000 - 136, False)] 0 \<and>
     heap_head (private_heap s') = of_nat 0xFFFFF00000400000 \<and> ks s' = ks (ex_heap 0xFFFFF00000402000) \<and>
     (0xFFFFF00000400000 :: nat) \<le> 0xFFFFF00000400000 \<and>
     0xFFFFF00000400000 + 32 + unat (100::u64) \<le> 0xFFFFF00000400000 + extent [(0x5000, False)] \<and>
     (\<forall>(b, k) \<in> used_chunks 0xFFFFF00000400000 [(0x5000, False)].
        b + k \<le> 0xFFFFF00000400000 \<or> 0xFFFFF00000400000 + 32 + unat (100::u64) \<le> b) \<and>
     32 + unat (100::u64) \<le> n \<and>
     used_chunks 0xFFFFF00000400000 [(136, True), (0x5000 - 136, False)] =
       insert (0xFFFFF00000400000, n) (used_chunks 0xFFFFF00000400000 [(0x5000, False)])"
  by (rule kmalloc_first_fit [OF ex_heap_layout ex_heap_head]) (simp_all add: need_of_def)

lemma ex_heap_brk_inv:
  "0xFFFFF00000400000 \<le> brk \<Longrightarrow> brk \<le> 0xFFFFF00001400000 \<Longrightarrow> k_brk_inv (ks (ex_heap brk))"
  by (simp add: k_brk_inv_def ex_heap_def ex_ks_brk_def ex_ks_def)

lemma kmalloc_beyond_break_witness:
  "\<exists>r s'. kmalloc 0x6000 (ex_heap 0xFFFFF00000402000) = Some (r, s') \<and>
     ks_sbrk (ks s') = ks_sbrk (ks (ex_heap 0xFFFFF00000402000)) + of_nat (need_of (unat (0x6000::u64))) \<and>
     r = ks_sbrk (ks s') + 32 \<and> layout (cells s') 0xFFFFF00000400000 [(0x5000, False)] 0 \<and>
     heap_head (private_heap s') = of_nat 0xFFFFF00000400000"
  by (rule kmalloc_beyond_break [OF ex_heap_layout ex_heap_head])
    (simp_all add: need_of_def ex_heap_brk_inv, simp_all add: ex_heap_def ex_ks_brk_def ex_ks_def)

lemma kmalloc_exhausted_witness:
  "\<exists>s'. kmalloc 0x6000 (ex_heap 0xFFFFF000013FF000) = Some (20, s') \<and>
     ks s' = ks (ex_heap 0xFFFFF000013FF000) \<and>
     cells s' 0xFFFFFFFFFFFFFFF4 = of_nat (need_of (unat (0x6000::u64)))"
  by (rule kmalloc_exhausted [OF ex_heap_layout ex_heap_head])
    (simp_all add: need_of_def ex_heap_brk_inv, simp_all add: ex_heap_def ex_ks_brk_def ex_ks_def)

theorem heap_init_overlap_witness:
  "\<exists>s1 s2 s3. heap_init (zero_kst\<lparr>ks := ex_ks_brk\<rparr>) = (1, s1) \<and>
     ks_sbrk (ks s1) = of_nat (0xFFFFF00000400000 + 0x2000) \<and>
     layout (cells s1) 0xFFFFF00000400000 [(0x5000, False)] 0 \<and>
     kmalloc 0x4F00 s1 = Some (of_nat (0xFFFFF00000400000 + 32), s2) \<and>
     kmalloc 0x1000 s2 = Some (of_nat (0xFFFFF00000400000 + 0x3040), s3) \<and>
     (0xFFFFF00000400000 :: nat) + 32 < 0xFFFFF00000400000 + 0x3040 \<and>
     (0xFFFFF00000400000 :: nat) + 0x3040 + 0x1000 < 0xFFFFF00000400000 + 32 + 0x4F00"
  by (rule heap_init_overlap)
    (simp_all add: ex_ks_brk_def ex_ks_def zero_kst_def zero_ks_def k_brk_inv_def shared_brk_inv_def)

definition ex_heap_used :: kst where
  "ex_heap_used = zero_kst\<lparr>ks := ex_ks_brk, cells := (\<lambda>_. 0)(0x1000 := 64, 0x1008 := 1, 0x1010 := 0x1020,
     0x1018 := 0x1040, 0x1040 := 0x800), private_heap := \<lparr>heap_head = 0x1000, heap_tail = 0x1040\<rparr>\<rparr>"

theorem kfree_leaks_witness:
  "\<exists>s' n' cs'. kfree 0x1020 ex_heap_used = Some s' \<and> absorb_next 64 [(0x800, False)] = (n', cs') \<and>
     layout (cells s') 0x1000 ([] @ (n', True) # cs') 0 \<and>
     used_chunks 0x1000 ([] @ (64, True) # [(0x800, False)]) - {(0x1000 + extent [], 64)}
       \<subseteq> used_chunks 0x1000 ([] @ (n', True) # cs') \<and>
     (\<forall>need. first_fit 0x1000 need ([] @ (64, True) # [(0x800, False)]) = None \<longrightarrow>
             first_fit 0x1000 need ([] @ (n', True) # cs') = None)"
  by (rule kfree_leaks) (simp_all add: ex_heap_used_def zero_kst_def ck_address_def)

end
