(* ===== verification/Heap_Session.thy ===== *)
theory Heap_Session
  imports Heap_Safety
begin

text \<open>
  Sessions of the private heap, from \<open>heap_init\<close> on: allocations served from the chunk list or by moving the break, frees
  of any address, and stores of the clients into the blocks they hold. The invariant \<open>heap_ok\<close> relates the chunk
  list to the blocks in it and to what was stored in them, \<open>far_ok\<close> is about the blocks behind the list.
\<close>

subsection \<open>Chunks in use\<close>

lemma used_chunk_split:
  "(p, n) \<in> used_chunks a xs \<Longrightarrow> \<exists>bs cs. xs = bs @ (n, True) # cs \<and> p = a + extent bs"
proof (induction xs arbitrary: a)
  case (Cons x xs)
  obtain k u where x: "x = (k, u)" by (cases x)
  show ?case
  proof (cases "(p, n) \<in> used_chunks (a + k) xs")
    case True
    from Cons.IH [OF this] obtain bs cs where "xs = bs @ (n, True) # cs" "p = a + k + extent bs" by blast
    then show ?thesis by (intro exI [of _ "(k, u) # bs"] exI [of _ cs]) (simp add: x)
  next
    case False
    then show ?thesis using Cons.prems by (intro exI [of _ "[]"] exI [of _ xs]) (auto simp: x split: if_splits)
  qed
qed simp

lemma used_chunks_disjoint:
  "(p, n) \<in> used_chunks a xs \<Longrightarrow> (q, k) \<in> used_chunks a xs \<Longrightarrow> (p, n) \<noteq> (q, k) \<Longrightarrow> p + n \<le> q \<or> q + k \<le> p"
proof (induction xs arbitrary: a)
  case (Cons x xs)
  obtain l u where x: "x = (l, u)" by (cases x)
  show ?case
    using Cons.prems Cons.IH [of "a + l"] used_chunks_range [of p n "a + l" xs] used_chunks_range [of q k "a + l" xs]
    by (auto simp: x split: if_splits)
qed simp

lemma chunk_addrs_range: "layout m a xs e \<Longrightarrow> q \<in> set (chunk_addrs a xs) \<Longrightarrow> a \<le> q \<and> q + 32 \<le> a + extent xs"
proof (induction xs arbitrary: a)
  case (Cons x xs)
  obtain l u where x: "x = (l, u)" by (cases x)
  show ?case using Cons.prems Cons.IH [of "a + l"] by (auto simp: x)
qed simp

text \<open>The payload of a chunk in use contains no chunk header.\<close>

lemma payload_no_header:
  assumes L: "layout m a xs e" and U: "(p, n) \<in> used_chunks a xs" and q: "q \<in> set (chunk_addrs a xs)"
  shows "q + 32 \<le> p + 32 \<or> p + n \<le> q"
proof -
  obtain bs cs where xs: "xs = bs @ (n, True) # cs" "p = a + extent bs" using used_chunk_split [OF U] by blast
  have "layout m a bs (of_nat p)" "layout m (p + n) cs e" using L by (auto simp: xs layout_append)
  from chunk_addrs_range [OF this(1)] chunk_addrs_range [OF this(2)] q show ?thesis
    by (fastforce simp: xs chunk_addrs_append)
qed

lemma used_chunk_bounds:
  assumes "layout m a xs e" "(p, n) \<in> used_chunks a xs"
  shows "32 \<le> n" "0 < p" "p + n < 18446744073709551616" "p \<in> set (chunk_addrs a xs)"
proof -
  obtain bs cs where xs: "xs = bs @ (n, True) # cs" "p = a + extent bs"
    using used_chunk_split [OF assms(2)] by blast
  show "32 \<le> n" "0 < p" "p + n < 18446744073709551616"
    using layout_chunk(3,5,6) [OF assms(1) [unfolded xs(1)]] by (simp_all add: xs(2))
  show "p \<in> set (chunk_addrs a xs)" by (simp add: xs chunk_addrs_append)
qed

text \<open>A layout depends on the headers of its chunks only.\<close>

lemma layout_headers_cong:
  "layout m a xs e \<Longrightarrow>
   (\<And>q d. q \<in> set (chunk_addrs a xs) \<Longrightarrow> d < 32 \<Longrightarrow> m' (of_nat (q + d)) = m (of_nat (q + d))) \<Longrightarrow>
   layout m' a xs e"
proof (induction xs arbitrary: a)
  case (Cons x xs)
  obtain n u where x: "x = (n, u)" by (cases x)
  have "m' (of_nat (a + d)) = m (of_nat (a + d))" if "d < 32" for d
    by (rule Cons.prems(2)) (use that in \<open>simp_all add: x\<close>)
  from this [of 0] this [of 8] this [of 24]
  have "m' (of_nat a) = m (of_nat a)" "m' (of_nat (a + 8)) = m (of_nat (a + 8))"
    "m' (of_nat (a + 24)) = m (of_nat (a + 24))" by simp_all
  moreover have "layout m' (a + n) xs e"
    by (rule Cons.IH) (use Cons.prems in \<open>simp_all add: x del: of_nat_add\<close>)
  ultimately show ?case using Cons.prems(1) by (simp add: x del: of_nat_add)
qed simp

subsection \<open>The effect of a free\<close>

text \<open>What the search of \<open>_free\<close> finds: the first chunk with the address, or the end of the list.\<close>

lemma free_search_layout:
  assumes "layout m a xs 0" and "xs \<noteq> []"
  shows "(\<exists>q. free_search m addr r (of_nat a) = Some (q, 0)) \<or>
    (\<exists>bs n u cs. xs = bs @ (n, u) # cs \<and> ck_address m (of_nat (a + extent bs)) = addr \<and>
       free_search m addr r (of_nat a) =
         Some (if bs = [] then r else of_nat (last (chunk_addrs a bs)), of_nat (a + extent bs)))"
  using assms
proof (induction xs arbitrary: a r)
  case (Cons x xs)
  obtain n u where x: "x = (n, u)" by (cases x)
  have nz: "(of_nat a :: u64) \<noteq> 0" using Cons.prems(1) of_nat_eq_u64_iff [of a 0] by (auto simp: x)
  have nx: "ck_next m (of_nat a) = (if xs = [] then 0 else of_nat (a + n))"
    using Cons.prems(1) by (simp add: x ck_next_def)
  show ?case
  proof (cases "ck_address m (of_nat a) = addr")
    case True
    then have "free_search m addr r (of_nat a) = Some (r, of_nat a)" using nz by (simp add: free_search.simps)
    then show ?thesis using True by (intro disjI2 exI [of _ "[]"] exI [of _ n] exI [of _ u] exI [of _ xs]) (simp add: x)
  next
    case False
    then have step: "free_search m addr r (of_nat a) = free_search m addr (of_nat a) (ck_next m (of_nat a))"
      using nz by (subst free_search.simps) simp
    show ?thesis
    proof (cases "xs = []")
      case True
      then show ?thesis using step nx by (simp add: free_search.simps)
    next
      case ne: False
      have "layout m (a + n) xs 0" using Cons.prems(1) by (simp add: x)
      from Cons.IH [OF this ne, of "of_nat a"] consider
        q where "free_search m addr (of_nat a) (of_nat (a + n)) = Some (q, 0)" |
        bs k v cs where "xs = bs @ (k, v) # cs" "ck_address m (of_nat (a + n + extent bs)) = addr"
          "free_search m addr (of_nat a) (of_nat (a + n)) =
            Some (if bs = [] then of_nat a else of_nat (last (chunk_addrs (a + n) bs)), of_nat (a + n + extent bs))"
        by blast
      then show ?thesis
      proof cases
        case 1
        then show ?thesis using step nx ne by simp
      next
        case 2
        have "chunk_addrs (a + n) bs = [] \<longleftrightarrow> bs = []" by (cases "(a + n, bs)" rule: chunk_addrs.cases) auto
        with 2 show ?thesis using step nx ne
          by (intro disjI2 exI [of _ "(n, u) # bs"] exI [of _ k] exI [of _ v] exI [of _ cs])
            (auto simp: x add.assoc)
      qed
    qed
  qed
qed simp

text \<open>The address field of a chunk in use is the start of its payload.\<close>

definition addrs_ok :: "wordmem \<Rightarrow> nat \<Rightarrow> (nat \<times> bool) list \<Rightarrow> bool" where
  "addrs_ok m a xs \<longleftrightarrow> (\<forall>(p, n) \<in> used_chunks a xs. m (of_nat (p + 16)) = of_nat (p + 32))"

text \<open>The payloads of the chunks in use, kept by a change of the memory.\<close>

definition payload_kept :: "wordmem \<Rightarrow> wordmem \<Rightarrow> (nat \<times> nat) set \<Rightarrow> bool" where
  "payload_kept m m' U \<longleftrightarrow> (\<forall>(p, n) \<in> U. \<forall>c. p + 32 \<le> c \<longrightarrow> c < p + n \<longrightarrow> m' (of_nat c) = m (of_nat c))"

lemma payload_keptI:
  assumes "layout m a xs e" and "p0 \<in> set (chunk_addrs a xs)" and "q0 \<in> set (chunk_addrs a xs)"
    and "\<And>c. c < 18446744073709551616 \<Longrightarrow> \<not> (p0 \<le> c \<and> c < p0 + 32) \<Longrightarrow> \<not> (q0 \<le> c \<and> c < q0 + 32) \<Longrightarrow>
           m' (of_nat c) = m (of_nat c)"
  shows "payload_kept m m' (used_chunks a xs)"
  unfolding payload_kept_def
proof (intro ballI, clarify)
  fix p n c assume U: "(p, n) \<in> used_chunks a xs" and c: "p + 32 \<le> c" "c < p + n"
  note P = payload_no_header [OF assms(1) U assms(2)] and Q = payload_no_header [OF assms(1) U assms(3)]
  show "m' (of_nat c) = m (of_nat c)"
    by (rule assms(4)) (use P Q c used_chunk_bounds(3) [OF assms(1) U] in linarith)+
qed

lemma chunk_addrs_apart:
  "layout m a xs e \<Longrightarrow> q \<in> set (chunk_addrs a xs) \<Longrightarrow> q' \<in> set (chunk_addrs a xs) \<Longrightarrow>
   q = q' \<or> q + 32 \<le> q' \<or> q' + 32 \<le> q"
proof (induction xs arbitrary: a)
  case (Cons x xs)
  obtain n u where x: "x = (n, u)" by (cases x)
  have "32 \<le> n" "layout m (a + n) xs e" using Cons.prems(1) by (auto simp: x)
  with Cons.prems(2,3) Cons.IH [OF this(2)] chunk_addrs_range [OF this(2)] show ?case
    by (fastforce simp: x)
qed simp

lemma addrs_ok_step:
  assumes ok: "addrs_ok m a xs" and L: "layout m a xs e"
    and sub: "\<And>b k. (b, k) \<in> used_chunks a ys \<Longrightarrow> \<exists>k'. (b, k') \<in> used_chunks a xs"
    and kept: "\<And>b k. (b, k) \<in> used_chunks a ys \<Longrightarrow> b + 16 < 18446744073709551616 \<Longrightarrow>
                 b \<in> set (chunk_addrs a xs) \<Longrightarrow> m' (of_nat (b + 16)) = m (of_nat (b + 16))"
  shows "addrs_ok m' a ys"
  unfolding addrs_ok_def
proof (intro ballI, clarify)
  fix b k assume bk: "(b, k) \<in> used_chunks a ys"
  then obtain k' where k': "(b, k') \<in> used_chunks a xs" using sub by blast
  then have "m (of_nat (b + 16)) = of_nat (b + 32)" using ok by (fastforce simp: addrs_ok_def)
  then show "m' (of_nat (b + 16)) = of_nat (b + 32)"
    using kept [OF bk] used_chunk_bounds [OF L k'] by simp
qed

lemma used_absorb:
  assumes "absorb_next n cs = (n', cs')"
  shows "used_chunks (b + n') cs' = used_chunks (b + n) cs" "n' + extent cs' = n + extent cs"
  using assms by (cases rule: absorb_next_cases [of cs n]; auto simp: add.assoc)+

text \<open>The two halves of a free, on the invariants.\<close>

lemma free_next_effect:
  assumes L: "layout m a (bs @ (n, u) # cs) 0" and ok: "addrs_ok m a (bs @ (n, u) # cs)"
    and A: "absorb_next n cs = (n', cs')" and p: "p = a + extent bs"
    and m': "m' = coalesce_next (of_nat p) m"
  shows "layout m' a (bs @ (n', u) # cs') 0 \<and> addrs_ok m' a (bs @ (n', u) # cs') \<and>
    payload_kept m m' (used_chunks a (bs @ (n, u) # cs)) \<and>
    used_chunks a (bs @ (n, u) # cs) - {(p, n)} \<subseteq> used_chunks a (bs @ (n', u) # cs')"
proof -
  note N = absorb_layout [OF L A, folded p, folded m']
  have in_p: "p \<in> set (chunk_addrs a (bs @ (n, u) # cs))" by (simp add: p chunk_addrs_append)
  have used: "used_chunks a (bs @ (n', u) # cs') =
      used_chunks a bs \<union> (if u then {(p, n')} else {}) \<union> used_chunks (p + n) cs"
    using used_absorb(1) [OF A, of p] by (simp add: used_chunks_append p)
  have "addrs_ok m' a (bs @ (n', u) # cs')"
  proof (rule addrs_ok_step [OF ok L])
    show "\<exists>k'. (b, k') \<in> used_chunks a (bs @ (n, u) # cs)" if "(b, k) \<in> used_chunks a (bs @ (n', u) # cs')" for b k
      using that unfolding used by (auto simp: used_chunks_append p split: if_splits)
    show "m' (of_nat (b + 16)) = m (of_nat (b + 16))"
      if "b + 16 < 18446744073709551616" "b \<in> set (chunk_addrs a (bs @ (n, u) # cs))" for b
      by (rule N(2) [OF that(1)]) (use chunk_addrs_apart [OF L that(2) in_p] in linarith)+
  qed
  moreover have "payload_kept m m' (used_chunks a (bs @ (n, u) # cs))"
    by (rule payload_keptI [OF L in_p in_p]) (intro N(2); linarith)
  ultimately show ?thesis using N(1) unfolding used by (auto simp: used_chunks_append p)
qed

lemma free_prev_effect:
  assumes L: "layout m a (ds @ (j, False) # (n, u) # cs) 0" and ok: "addrs_ok m a (ds @ (j, False) # (n, u) # cs)"
    and q: "q = a + extent ds" and m': "m' = coalesce_prev (of_nat q) (of_nat (q + j)) m"
  shows "layout m' a (ds @ (j + n, False) # cs) 0 \<and> addrs_ok m' a (ds @ (j + n, False) # cs) \<and>
    payload_kept m m' (used_chunks a (ds @ (j, False) # (n, u) # cs)) \<and>
    used_chunks a (ds @ (j, False) # (n, u) # cs) - {(q + j, n)} \<subseteq> used_chunks a (ds @ (j + n, False) # cs)"
proof -
  let ?xs = "ds @ (j, False) # (n, u) # cs"
  have L2: "layout m a ((ds @ [(j, False)]) @ (n, u) # cs) 0" using L by simp
  note C = layout_chunk [OF L, folded q]
  have m'eq: "m' = m(of_nat q := of_nat (j + n), of_nat (q + 16) := 0, of_nat (q + 24) := m (of_nat (q + j + 24)))"
    unfolding m' by (rule coalesce_prev_merge [OF L q])
  have out: "m' (of_nat c) = m (of_nat c)"
    if "c < 18446744073709551616" "c \<noteq> q" "c \<noteq> q + 16" "c \<noteq> q + 24" for c
    using that C(3,6) by (simp add: m'eq cell_upd del: of_nat_add fun_upd_apply)
  have lay: "layout m' a (ds @ (j + n, False) # cs) 0"
    by (rule merge_layout [OF L q])
      (use C(3,6) out in \<open>simp_all add: m'eq cell_upd del: of_nat_add fun_upd_apply\<close>)
  have in_q: "q \<in> set (chunk_addrs a ?xs)" by (simp add: q chunk_addrs_append)
  have free_q: "b \<noteq> q" if "(b, k) \<in> used_chunks a (ds @ (j + n, False) # cs)" for b k
  proof
    assume "b = q"
    with that obtain k' where k': "(q, k') \<in> used_chunks a ?xs"
      by (auto simp: used_chunks_append q add.assoc split: if_splits)
    then have "32 \<le> k'" using used_chunk_bounds(1) [OF L] by blast
    with k' show False
      using used_chunks_range [of q k' a ds] used_chunks_range [of q k' "a + (extent ds + j)" "(n, u) # cs"] C(3)
      by (auto simp: used_chunks_append q add.assoc)
  qed
  have "addrs_ok m' a (ds @ (j + n, False) # cs)"
  proof (rule addrs_ok_step [OF ok L])
    show "\<exists>k'. (b, k') \<in> used_chunks a ?xs" if "(b, k) \<in> used_chunks a (ds @ (j + n, False) # cs)" for b k
      using that by (auto simp: used_chunks_append add.assoc)
    show "m' (of_nat (b + 16)) = m (of_nat (b + 16))"
      if "(b, k) \<in> used_chunks a (ds @ (j + n, False) # cs)" "b + 16 < 18446744073709551616"
        "b \<in> set (chunk_addrs a ?xs)" for b k
      by (rule out [OF that(2)]) (use chunk_addrs_apart [OF L that(3) in_q] free_q [OF that(1)] in linarith)+
  qed
  moreover have "payload_kept m m' (used_chunks a ?xs)"
    by (rule payload_keptI [OF L in_q in_q]) (intro out; linarith)
  ultimately show ?thesis using lay by (auto simp: used_chunks_append q add.assoc)
qed

text \<open>A free of any address keeps the list, and every chunk in use with another address.\<close>

lemma payload_kept_mono: "payload_kept m m' U \<Longrightarrow> V \<subseteq> U \<Longrightarrow> payload_kept m m' V"
  by (auto simp: payload_kept_def)

lemma payload_kept_trans: "payload_kept m m1 U \<Longrightarrow> payload_kept m1 m' U \<Longrightarrow> payload_kept m m' U"
  by (fastforce simp: payload_kept_def)

definition other_chunks :: "u64 \<Rightarrow> nat \<Rightarrow> (nat \<times> bool) list \<Rightarrow> (nat \<times> nat) set" where
  "other_chunks addr a xs = {(p, n) \<in> used_chunks a xs. of_nat (p + 32) \<noteq> addr}"

lemma heap_free_effect:
  assumes L: "layout m a xs 0" and h: "heap_head heap = of_nat a" and ne: "xs \<noteq> []" and ok: "addrs_ok m a xs"
  shows "\<exists>m' ys. heap_free heap addr m = Some m' \<and> layout m' a ys 0 \<and> ys \<noteq> [] \<and> extent ys = extent xs \<and>
    addrs_ok m' a ys \<and> payload_kept m m' (other_chunks addr a xs) \<and> other_chunks addr a xs \<subseteq> used_chunks a ys"
proof -
  let ?K = "other_chunks addr a xs"
  consider q where "free_search m addr (of_nat a) (of_nat a) = Some (q, 0)" |
    bs n u cs where "xs = bs @ (n, u) # cs" "ck_address m (of_nat (a + extent bs)) = addr"
      "free_search m addr (of_nat a) (of_nat a) =
         Some (if bs = [] then of_nat a else of_nat (last (chunk_addrs a bs)), of_nat (a + extent bs))"
    using free_search_layout [OF L ne] by blast
  then show ?thesis
  proof cases
    case 1
    then have "heap_free heap addr m = Some m" by (simp add: heap_free_def h)
    then show ?thesis using L ne ok
      by (intro exI [of _ m] exI [of _ xs]) (auto simp: payload_kept_def other_chunks_def)
  next
    case 2
    define p where "p = a + extent bs"
    obtain n' cs' where A: "absorb_next n cs = (n', cs')" by (metis surj_pair)
    define m1 where "m1 = coalesce_next (of_nat p) m"
    let ?ys = "bs @ (n', u) # cs'"
    note E = free_next_effect [OF L [unfolded 2(1)] ok [unfolded 2(1)] A p_def m1_def, folded 2(1)]
    note C = layout_chunk [OF L [unfolded 2(1)], folded p_def]
    have ext: "extent ?ys = extent xs" using used_absorb(2) [OF A] by (simp add: 2(1))
    have Kp: "b \<noteq> p" if "(b, k) \<in> ?K" for b k
      using that ok 2(2) by (fastforce simp: other_chunks_def addrs_ok_def ck_address_def p_def)
    have K1: "?K \<subseteq> used_chunks a xs - {(p, n)}" using Kp by (auto simp: other_chunks_def)
    have nz: "(of_nat p :: u64) \<noteq> 0" using C(5,6) of_nat_eq_u64_iff [of p 0] by auto
    define prev :: u64 where "prev = (if bs = [] then of_nat a else of_nat (last (chunk_addrs a bs)))"
    have R: "heap_free heap addr m = Some (coalesce_prev prev (of_nat p) m1)"
      using 2(3) nz by (simp add: heap_free_def h m1_def p_def prev_def del: of_nat_add)
    have kept1: "payload_kept m m1 ?K" using payload_kept_mono E K1 by blast
    have stop: ?thesis if "coalesce_prev prev (of_nat p) m1 = m1"
      using R that E K1 ext kept1 by (intro exI [of _ m1] exI [of _ ?ys]) auto
    show ?thesis
    proof (cases bs rule: rev_cases)
      case Nil
      then show ?thesis by (intro stop) (simp add: coalesce_prev_def prev_def p_def)
    next
      case (snoc ds d)
      obtain j w where d: "d = (j, w)" by (cases d)
      define q where "q = a + extent ds"
      have qp: "prev = of_nat q" "p = q + j" by (simp_all add: prev_def p_def q_def snoc d chunk_addrs_append)
      have L1: "layout m1 a (ds @ (j, w) # (n', u) # cs') 0" "addrs_ok m1 a (ds @ (j, w) # (n', u) # cs')"
        using E by (simp_all add: snoc d)
      show ?thesis
      proof (cases w)
        case True
        then show ?thesis
          using layout_chunk(2) [OF L1(1)] by (intro stop) (simp add: coalesce_prev_def qp ck_used_def q_def)
      next
        case False
        let ?m = "coalesce_prev prev (of_nat p) m1" and ?zs = "ds @ (j + n', False) # cs'"
        have L2: "layout m1 a (ds @ (j, False) # (n', u) # cs') 0" "addrs_ok m1 a (ds @ (j, False) # (n', u) # cs')"
          using L1 False by simp_all
        note F = free_prev_effect [OF L2 q_def refl, folded qp]
        have "?K \<subseteq> used_chunks a ?ys - {(p, n')}" using E K1 Kp by blast
        then have K2: "?K \<subseteq> used_chunks a ?zs" "?K \<subseteq> used_chunks a (ds @ (j, False) # (n', u) # cs')"
          using F False by (auto simp: snoc d)
        have "payload_kept m ?m ?K"
          by (rule payload_kept_trans [OF kept1]) (use F K2(2) payload_kept_mono in blast)
        then show ?thesis using R F K2(1) ext
          by (intro exI [of _ ?m] exI [of _ ?zs]) (auto simp: snoc d)
      qed
    qed
  qed
qed

lemma heap_free_frame:
  assumes L: "layout m a xs 0" and h: "heap_head heap = of_nat a" and ne: "xs \<noteq> []" and R: "heap_free heap addr m = Some m'"
    and x: "unat x < a \<or> a + extent xs \<le> unat x"
  shows "m' x = m x"
proof -
  have far: "x \<noteq> of_nat q + of_nat d" if q: "q \<in> set (chunk_addrs a xs)" and d: "d < 32" for q d
  proof
    assume e: "x = of_nat q + of_nat d"
    have q: "a \<le> q \<and> q + 32 \<le> a + extent xs" by (rule chunk_addrs_range [OF L q])
    then have "unat (of_nat (q + d) :: u64) = q + d"
      using d layout_bound [OF L ne] by (intro unat_of_nat_u64) simp
    then show False using x q d by (simp add: e)
  qed
  have keep: "coalesce_next (of_nat q) m1 x = m1 x" "coalesce_prev (of_nat q) r m1 x = m1 x" if "q \<in> set (chunk_addrs a xs)" for q r m1
    using far [OF that, of 0] far [OF that, of 16] far [OF that, of 24]
    by (simp_all add: coalesce_next_def coalesce_prev_def ck_defs Let_def)
  consider q where "free_search m addr (of_nat a) (of_nat a) = Some (q, 0)" |
    bs n u cs where "xs = bs @ (n, u) # cs"
      "free_search m addr (of_nat a) (of_nat a) =
         Some (if bs = [] then of_nat a else of_nat (last (chunk_addrs a bs)), of_nat (a + extent bs))"
    using free_search_layout [OF L ne] by blast
  then show ?thesis
  proof cases
    case 1
    then show ?thesis using R by (simp add: heap_free_def h)
  next
    case 2
    have ca: "chunk_addrs c ys = [] \<longleftrightarrow> ys = []" for c ys by (cases "(c, ys)" rule: chunk_addrs.cases) auto
    have p: "a + extent bs \<in> set (chunk_addrs a xs)" by (simp add: 2(1) chunk_addrs_append)
    have "(if bs = [] then a else last (chunk_addrs a bs)) \<in> set (chunk_addrs a xs)"
      using last_in_set [of "chunk_addrs a bs"] ca [of a bs] by (auto simp: 2(1) chunk_addrs_append)
    moreover have "(if bs = [] then of_nat a else of_nat (last (chunk_addrs a bs)) :: u64) =
        of_nat (if bs = [] then a else last (chunk_addrs a bs))" by simp
    ultimately obtain q where q: "q \<in> set (chunk_addrs a xs)"
      "(if bs = [] then of_nat a else of_nat (last (chunk_addrs a bs)) :: u64) = of_nat q" by blast
    then have "m' = (if (of_nat (a + extent bs) :: u64) \<noteq> 0
        then coalesce_prev (of_nat q) (of_nat (a + extent bs)) (coalesce_next (of_nat (a + extent bs)) m) else m)"
      using R 2(2) by (auto simp: heap_free_def h simp del: of_nat_add)
    then show ?thesis using keep(1) [OF p] keep(2) [OF q(1)] by (simp del: of_nat_add)
  qed
qed

subsection \<open>The effect of an allocation\<close>

text \<open>The search of \<open>_malloc\<close> finds a chunk, so that the break is not moved.\<close>

definition chunk_fits :: "u64 \<Rightarrow> kst \<Rightarrow> bool" where
  "chunk_fits sz s \<longleftrightarrow>
     (let alloc_size = align (sz + sizeof_mem_chunk) sizeof_ptr in
      case node_search (\<lambda>p. ck_used (cells s) p = 0 \<and> ck_size (cells s) p \<ge> alloc_size) (ck_next (cells s))
             (heap_head (private_heap s)) of
        Some p \<Rightarrow> p \<noteq> 0 | None \<Rightarrow> False)"

lemma chunk_fits_first_fit:
  assumes L: "layout (cells s) a xs 0" and h: "heap_head (private_heap s) = of_nat a" and ne: "xs \<noteq> []"
    and sz: "unat sz + 39 < 18446744073709551616" and fit: "chunk_fits sz s"
  obtains p ys where "first_fit a (need_of (unat sz)) xs = Some (p, ys)"
proof (cases "first_fit a (need_of (unat sz)) xs")
  case None
  let ?P = "\<lambda>p. ck_used (cells s) p = 0 \<and> ck_size (cells s) p \<ge> of_nat (need_of (unat sz))"
  have "need_of (unat sz) < 18446744073709551616" using need_bounds(2) [of "unat sz"] sz by simp
  with layout_no_fit [OF L _ first_fit_None [OF None]]
  have "node_search ?P (ck_next (cells s)) (heap_head (private_heap s)) = Some 0"
    by (intro layout_search_none [OF L h ne]) blast
  with fit show ?thesis by (simp add: chunk_fits_def Let_def align_need(1) [OF sz])
qed (use that in auto)

lemma first_fit_chunk_fits:
  assumes L: "layout (cells s) a xs 0" and h: "heap_head (private_heap s) = of_nat a"
    and sz: "unat sz + 39 < 18446744073709551616" and F: "first_fit a (need_of (unat sz)) xs \<noteq> None"
  shows "chunk_fits sz s"
proof -
  obtain bs n cs where xs: "xs = bs @ (n, False) # cs" "need_of (unat sz) \<le> n"
    "\<forall>(k, u) \<in> set bs. u \<or> k < need_of (unat sz)"
    using F first_fit_Some by (metis not_None_eq surj_pair)
  have "(of_nat (a + extent bs) :: u64) \<noteq> of_nat 0"
    using layout_chunk(5,6) [OF L [unfolded xs(1)]] by (subst of_nat_eq_u64_iff) auto
  then show ?thesis
    by (simp add: chunk_fits_def Let_def align_need(1) [OF sz] layout_fit_search [OF L [unfolded xs(1)] h xs(2,3)]
        del: of_nat_add)
qed

lemma kmalloc_effect:
  assumes L: "layout (cells s) a xs 0" and h: "heap_head (private_heap s) = of_nat a" and a: "40 \<le> a"
    and sz: "sz \<noteq> 0" "unat sz + 39 < 18446744073709551616"
    and F: "first_fit a (need_of (unat sz)) xs = Some (p, ys)" and ok: "addrs_ok (cells s) a xs"
  shows "\<exists>h m n. kmalloc sz s = Some (of_nat (p + 32), s\<lparr>private_heap := h, cells := m\<rparr>) \<and>
     heap_head h = of_nat a \<and> layout m a ys 0 \<and> ys \<noteq> [] \<and> extent ys = extent xs \<and> addrs_ok m a ys \<and>
     payload_kept (cells s) m (used_chunks a xs) \<and> 32 + unat sz \<le> n \<and>
     used_chunks a ys = insert (p, n) (used_chunks a xs) \<and> (\<forall>(b, k) \<in> used_chunks a xs. b \<noteq> p)"
proof -
  obtain h' m bs n cs where R: "heap_malloc (private_heap s) sz False (cells s) (ks s) =
      Some (of_nat (p + 32), h', m, ks s)" "layout m a ys 0" "heap_head h' = of_nat a"
    and xs: "xs = bs @ (n, False) # cs" "p = a + extent bs" and adr: "m (of_nat (p + 16)) = of_nat (p + 32)"
    and out: "\<forall>x. unat x < p \<or> p + n \<le> unat x \<longrightarrow> m x = cells s x"
    using heap_malloc_fits_frame [OF L h a sz F, of False "ks s"] h by auto
  have km: "kmalloc sz s = Some (of_nat (p + 32), s\<lparr>private_heap := h', cells := m\<rparr>)"
    using R(1) by (simp add: kmalloc_def del: of_nat_add)
  obtain k where k: "need_of (unat sz) \<le> k" "used_chunks a ys = insert (p, k) (used_chunks a xs)"
    using first_fit_fresh(3) [OF F] by blast
  have n: "32 \<le> n" using layout_chunk(3) [OF L [unfolded xs(1)]] .
  have apart: "b + l \<le> p \<or> p + n \<le> b" if "(b, l) \<in> used_chunks a xs" for b l
    using that used_chunks_range [of b l a bs] used_chunks_range [of b l "a + extent bs + n" cs]
    by (auto simp: xs used_chunks_append)
  have same: "m (of_nat c) = cells s (of_nat c)" if "(b, l) \<in> used_chunks a xs" "b \<le> c" "c < b + l" for b l c
  proof -
    have "unat (of_nat c :: u64) = c" using used_chunk_bounds(3) [OF L that(1)] that(3) by (intro unat_of_nat_u64) simp
    then show ?thesis using out apart [OF that(1)] that(2,3) by auto
  qed
  have "m (of_nat (b + 16)) = of_nat (b + 32)" if "(b, l) \<in> used_chunks a xs" for b l
  proof -
    have "m (of_nat (b + 16)) = cells s (of_nat (b + 16))"
      by (rule same [OF that]) (use used_chunk_bounds(1) [OF L that] in simp_all)
    then show ?thesis using that ok by (auto simp: addrs_ok_def)
  qed
  then have "addrs_ok m a ys"
    using adr unfolding addrs_ok_def k(2) by (auto simp del: of_nat_add)
  moreover have "payload_kept (cells s) m (used_chunks a xs)"
    using same by (fastforce simp: payload_kept_def)
  moreover have "extent ys = extent xs \<and> ys \<noteq> []"
    using first_fit_Some [OF F] by (auto split: if_splits)
  moreover have "\<forall>(b, l) \<in> used_chunks a xs. b \<noteq> p"
    using apart n used_chunk_bounds(1) [OF L] by fastforce
  ultimately show ?thesis using km R(2,3) k need_bounds(1) [of "unat sz"]
    by (intro exI [of _ h'] exI [of _ m] exI [of _ k]) auto
qed

subsection \<open>Sessions\<close>

text \<open>
  The blocks in the hands of the clients are pairs of a payload address and a requested size; \<open>w\<close>
  records what the clients have stored in the 64-bit cells of their blocks.
\<close>

definition in_block :: "(u64 \<times> u64) set \<Rightarrow> u64 \<Rightarrow> bool" where
  "in_block live c \<longleftrightarrow> (\<exists>(r, z) \<in> live. unat (c - r) < unat z)"

text \<open>
  An allocation for which no chunk fits moves the break and puts its chunk behind the new break, \<open>fin\<close> being the end of the
  chunk list. It may follow in a session if there is room for the break and every block lies below it.
\<close>

definition new_break :: "u64 \<Rightarrow> kst \<Rightarrow> nat" where
  "new_break sz s = unat (ks_sbrk (ks s)) + need_of (unat sz)"

definition heap_end :: "kst \<Rightarrow> nat" where
  "heap_end s = unat (heap_start (ks s) + heap_size (ks s))"

definition grows_behind :: "nat \<Rightarrow> (u64 \<times> u64) set \<Rightarrow> u64 \<Rightarrow> kst \<Rightarrow> bool" where
  "grows_behind fin live sz s \<longleftrightarrow>
     new_break sz s \<le> heap_end s \<and> new_break sz s + need_of (unat sz) < 18446744073709551616 \<and> fin \<le> new_break sz s \<and>
     (\<forall>(r, z) \<in> live. unat r + unat z \<le> new_break sz s)"

inductive heap_session :: "nat \<Rightarrow> kst \<Rightarrow> kst \<Rightarrow> (u64 \<times> u64) set \<Rightarrow> (u64 \<Rightarrow> u64 option) \<Rightarrow> bool" for fin s0 where
  start: "heap_session fin s0 s0 {} Map.empty"
| alloc: "heap_session fin s0 s live w \<Longrightarrow> sz \<noteq> 0 \<Longrightarrow> unat sz + 39 < 0x8000000000000000 \<Longrightarrow>
    chunk_fits sz s \<or> grows_behind fin live sz s \<Longrightarrow>
    kmalloc sz s = Some (r, s') \<Longrightarrow> heap_session fin s0 s' (insert (r, sz) live) w"
| free: "heap_session fin s0 s live w \<Longrightarrow> kfree addr s = Some s' \<Longrightarrow> live' = {b \<in> live. fst b \<noteq> addr} \<Longrightarrow>
    heap_session fin s0 s' live' (w |` {c. in_block live' c})"
| store: "heap_session fin s0 s live w \<Longrightarrow> (r, z) \<in> live \<Longrightarrow> 8 * i + 8 \<le> unat z \<Longrightarrow> c = r + of_nat (8 * i) \<Longrightarrow>
    heap_session fin s0 (s\<lparr>cells := (cells s)(c := v)\<rparr>) live (w(c \<mapsto> v))"

text \<open>A block rests on a chunk in use.\<close>

definition backed :: "nat \<Rightarrow> (nat \<times> bool) list \<Rightarrow> u64 \<Rightarrow> u64 \<Rightarrow> bool" where
  "backed a xs r z \<longleftrightarrow> (\<exists>p n. r = of_nat (p + 32) \<and> (p, n) \<in> used_chunks a xs \<and> 32 + unat z \<le> n)"

definition heap_ok ::
  "wordmem \<Rightarrow> nat \<Rightarrow> (nat \<times> bool) list \<Rightarrow> (u64 \<times> u64) set \<Rightarrow> (u64 \<Rightarrow> u64 option) \<Rightarrow> bool" where
  "heap_ok m a xs live w \<longleftrightarrow>
     layout m a xs 0 \<and> xs \<noteq> [] \<and> addrs_ok m a xs \<and> (\<forall>(r, z) \<in> live. backed a xs r z) \<and>
     (\<forall>r z z'. (r, z) \<in> live \<longrightarrow> (r, z') \<in> live \<longrightarrow> z = z') \<and>
     (\<forall>c v. w c = Some v \<longrightarrow> in_block live c \<and> m c = v)"

text \<open>A cell of a block, seen in the chunk the block rests on.\<close>

lemma block_cell:
  assumes "layout m a xs 0" and "backed a xs r z" and "unat (c - r) < unat z"
  obtains p n d where "(p, n) \<in> used_chunks a xs" "c = of_nat d" "p + 32 \<le> d" "d < p + n"
    "r = of_nat (p + 32)" "d = unat c"
proof -
  obtain p n where p: "r = of_nat (p + 32)" "(p, n) \<in> used_chunks a xs" "32 + unat z \<le> n"
    using assms(2) by (auto simp: backed_def)
  have b: "p + n < 18446744073709551616" using used_chunk_bounds(3) [OF assms(1) p(2)] .
  have r: "unat r = p + 32" unfolding p(1) using b p(3) by (intro unat_of_nat_u64) simp
  have "unat c = unat ((c - r) + r)" by simp
  also have "\<dots> = unat (c - r) + (p + 32)" using assms(3) b p(3) r by (subst unat_add_nowrap) auto
  finally have "unat c = unat (c - r) + (p + 32)" .
  then show ?thesis by (intro that [OF p(2) _ _ _ p(1), of "unat c"]) (use assms(3) p in auto)
qed

text \<open>One step of a session: the list, the chunks and the payloads of the blocks that stay.\<close>

lemma heap_ok_step:
  assumes ok: "heap_ok m a xs live w" and L: "layout m' a ys 0" "ys \<noteq> []" "addrs_ok m' a ys"
    and rest: "\<forall>(r, z) \<in> live'. backed a ys r z"
    and uniq: "\<forall>r z z'. (r, z) \<in> live' \<longrightarrow> (r, z') \<in> live' \<longrightarrow> z = z'"
    and w: "\<And>c v. w' c = Some v \<Longrightarrow> w c = Some v \<and> in_block (live \<inter> live') c"
    and K: "payload_kept m m' U" "\<And>p n. (p, n) \<in> used_chunks a xs \<Longrightarrow> of_nat (p + 32) \<in> fst ` (live \<inter> live') \<Longrightarrow> (p, n) \<in> U"
  shows "heap_ok m' a ys live' w'"
proof -
  have "in_block live' c \<and> m' c = v" if "w' c = Some v" for c v
  proof -
    from w [OF that] obtain r z where rz: "(r, z) \<in> live" "(r, z) \<in> live'" "unat (c - r) < unat z"
      and wc: "w c = Some v" by (auto simp: in_block_def)
    have Lx: "layout m a xs 0" "backed a xs r z" using ok rz(1) by (auto simp: heap_ok_def)
    obtain p n d where p: "(p, n) \<in> used_chunks a xs" "c = of_nat d" "p + 32 \<le> d" "d < p + n" "r = of_nat (p + 32)"
      using block_cell [OF Lx rz(3)] by metis
    have "(p, n) \<in> U" using K(2) [OF p(1)] rz p(5) by force
    then have "m' c = m c" using K(1) p by (fastforce simp: payload_kept_def)
    moreover have "m c = v" using ok wc by (simp add: heap_ok_def)
    ultimately show ?thesis using rz by (auto simp: in_block_def)
  qed
  then show ?thesis using L rest uniq unfolding heap_ok_def by blast
qed

lemma heap_ok_alloc:
  assumes ok: "heap_ok (cells s) a xs live w" and h: "heap_head (private_heap s) = of_nat a" "40 \<le> a"
    and sz: "sz \<noteq> 0" "unat sz + 39 < 18446744073709551616" "chunk_fits sz s"
  shows "\<exists>r h m ys. kmalloc sz s = Some (r, s\<lparr>private_heap := h, cells := m\<rparr>) \<and> heap_head h = of_nat a \<and>
     extent ys = extent xs \<and> heap_ok m a ys (insert (r, sz) live) w \<and> (r, sz) \<notin> live \<and>
     (\<forall>x. unat x < a \<or> a + extent xs \<le> unat x \<longrightarrow> m x = cells s x)"
proof -
  have I: "layout (cells s) a xs 0" "xs \<noteq> []" "addrs_ok (cells s) a xs" using ok by (auto simp: heap_ok_def)
  obtain p ys where F: "first_fit a (need_of (unat sz)) xs = Some (p, ys)"
    using chunk_fits_first_fit [OF I(1) h(1) I(2) sz(2,3)] .
  obtain h2 m2 where fr: "kmalloc sz s = Some (of_nat (p + 32), s\<lparr>private_heap := h2, cells := m2\<rparr>)"
    "\<forall>x. unat x < a \<or> a + extent xs \<le> unat x \<longrightarrow> m2 x = cells s x"
    using kmalloc_frame [OF I(1) h sz(1,2) F] by blast
  obtain h' m n where R: "kmalloc sz s = Some (of_nat (p + 32), s\<lparr>private_heap := h', cells := m\<rparr>)"
    "heap_head h' = of_nat a" "layout m a ys 0" "ys \<noteq> []" "extent ys = extent xs" "addrs_ok m a ys"
    "payload_kept (cells s) m (used_chunks a xs)" "32 + unat sz \<le> n"
    "used_chunks a ys = insert (p, n) (used_chunks a xs)" "\<forall>(b, k) \<in> used_chunks a xs. b \<noteq> p"
    using kmalloc_effect [OF I(1) h sz(1,2) F I(3)] by blast
  have rest: "\<forall>(r, z) \<in> live. backed a xs r z" using ok by (simp add: heap_ok_def)
  have new: "(of_nat (p + 32), z) \<notin> live" for z
  proof
    assume "(of_nat (p + 32), z) \<in> live"
    then obtain q k where q: "(of_nat (p + 32) :: u64) = of_nat (q + 32)" "(q, k) \<in> used_chunks a xs"
      using rest unfolding backed_def by blast
    have "p + 32 < 18446744073709551616" "q + 32 < 18446744073709551616"
      using used_chunk_bounds(1,3) [OF R(3), of p n] used_chunk_bounds(1,3) [OF I(1) q(2)] R(9) by auto
    then have "p = q" using q(1) by (metis of_nat_eq_u64_iff add_right_cancel)
    with q(2) R(10) show False by blast
  qed
  have "heap_ok m a ys (insert (of_nat (p + 32), sz) live) w"
  proof (rule heap_ok_step [OF ok R(3,4,6) _ _ _ R(7)])
    show "\<forall>(r, z) \<in> insert (of_nat (p + 32), sz) live. backed a ys r z"
      using rest R(8,9) unfolding backed_def by fastforce
    show "\<forall>r z z'. (r, z) \<in> insert (of_nat (p + 32), sz) live \<longrightarrow>
        (r, z') \<in> insert (of_nat (p + 32), sz) live \<longrightarrow> z = z'"
      using ok new unfolding heap_ok_def by (auto simp del: of_nat_add)
    have "live \<inter> insert (of_nat (p + 32), sz) live = live" by blast
    then show "w c = Some v \<and> in_block (live \<inter> insert (of_nat (p + 32), sz) live) c" if "w c = Some v" for c v
      using ok that by (simp add: heap_ok_def del: of_nat_add)
  qed
  moreover have "m = m2" using fr(1) R(1) by (auto dest: arg_cong [where f = cells])
  ultimately show ?thesis using R fr(2) new by blast
qed

lemma heap_ok_free:
  assumes ok: "heap_ok (cells s) a xs live w" and h: "heap_head (private_heap s) = of_nat a"
    and live': "live' = {b \<in> live. fst b \<noteq> addr}"
  shows "\<exists>m ys. kfree addr s = Some (s\<lparr>cells := m\<rparr>) \<and> extent ys = extent xs \<and>
     heap_ok m a ys live' (w |` {c. in_block live' c}) \<and> (\<forall>x. unat x < a \<or> a + extent xs \<le> unat x \<longrightarrow> m x = cells s x)"
proof -
  have I: "layout (cells s) a xs 0" "xs \<noteq> []" "addrs_ok (cells s) a xs" using ok by (auto simp: heap_ok_def)
  obtain m ys where R: "heap_free (private_heap s) addr (cells s) = Some m" "layout m a ys 0" "ys \<noteq> []"
    "extent ys = extent xs" "addrs_ok m a ys" "payload_kept (cells s) m (other_chunks addr a xs)"
    "other_chunks addr a xs \<subseteq> used_chunks a ys"
    using heap_free_effect [OF I(1) h I(2,3)] by metis
  have "backed a ys r z" if "(r, z) \<in> live'" for r z
  proof -
    have "(r, z) \<in> live" "r \<noteq> addr" using that by (auto simp: live')
    then obtain p n where p: "r = of_nat (p + 32)" "(p, n) \<in> used_chunks a xs" "32 + unat z \<le> n"
      using ok unfolding heap_ok_def backed_def by blast
    then have "(p, n) \<in> other_chunks addr a xs" using \<open>r \<noteq> addr\<close> by (simp add: other_chunks_def)
    then show ?thesis using p R(7) unfolding backed_def by blast
  qed
  moreover have "live \<inter> live' = live'" by (auto simp: live')
  ultimately have "heap_ok m a ys live' (w |` {c. in_block live' c})"
    by (intro heap_ok_step [OF ok R(2,3,5) _ _ _ R(6)])
      (use ok in \<open>auto simp: heap_ok_def live' other_chunks_def restrict_map_def split: if_splits\<close>)
  then show ?thesis using R heap_free_frame [OF I(1) h I(2) R(1)] by (auto simp: kfree_def)
qed

lemma heap_ok_store:
  assumes ok: "heap_ok m a xs live w" and r: "(r, z) \<in> live" and i: "8 * i + 8 \<le> unat z"
    and c: "c = r + of_nat (8 * i)"
  shows "heap_ok (m(c := v)) a xs live (w(c \<mapsto> v))"
proof -
  have I: "layout m a xs 0" "xs \<noteq> []" "addrs_ok m a xs" and b: "backed a xs r z"
    using ok r by (auto simp: heap_ok_def)
  have "unat (of_nat (8 * i) :: u64) = 8 * i"
    using i unat_less_2p64 [of z] by (intro unat_of_nat_u64) simp
  then have cr: "unat (c - r) < unat z" using i by (simp add: c del: of_nat_mult)
  obtain p n where p: "(p, n) \<in> used_chunks a xs" "p + 32 \<le> unat c" "unat c < p + n"
    using block_cell [OF I(1) b cr] by metis
  have head: "(m(c := v)) (of_nat (q + d)) = m (of_nat (q + d))"
    if "q \<in> set (chunk_addrs a xs)" "d < 32" for q d
  proof -
    have "q + d < 18446744073709551616"
      using chunk_addrs_range [OF I(1) that(1)] that(2) layout_bound [OF I(1,2)] by linarith
    then have "unat (of_nat (q + d) :: u64) = q + d" by (rule unat_of_nat_u64)
    moreover have "q + d \<noteq> unat c" using payload_no_header [OF I(1) p(1) that(1)] p(2,3) that(2) by linarith
    ultimately show ?thesis by auto
  qed
  have "layout (m(c := v)) a xs 0" by (rule layout_headers_cong [OF I(1) head])
  moreover have "addrs_ok (m(c := v)) a xs"
    by (rule addrs_ok_step [OF I(3,1)]) (use head [of _ 16] in auto)
  moreover have "in_block live c" using r cr by (auto simp: in_block_def)
  ultimately show ?thesis using ok unfolding heap_ok_def by auto
qed

subsection \<open>Blocks behind the chunk list\<close>

text \<open>Two blocks do not overlap, not even with the header of the other.\<close>

definition apart :: "u64 \<times> u64 \<Rightarrow> u64 \<times> u64 \<Rightarrow> bool" where
  "apart b b' \<longleftrightarrow> unat (fst b) + unat (snd b) + 32 \<le> unat (fst b') \<or> unat (fst b') + unat (snd b') + 32 \<le> unat (fst b)"

definition far_ok :: "wordmem \<Rightarrow> nat \<Rightarrow> (u64 \<times> u64) set \<Rightarrow> (u64 \<Rightarrow> u64 option) \<Rightarrow> bool" where
  "far_ok m fin F w \<longleftrightarrow> (\<forall>(r, z) \<in> F. fin + 32 \<le> unat r \<and> unat r + unat z < 18446744073709551616) \<and>
     (\<forall>b \<in> F. \<forall>b' \<in> F. b \<noteq> b' \<longrightarrow> apart b b') \<and> (\<forall>c v. w c = Some v \<longrightarrow> in_block F c \<and> m c = v)"

lemma unat_in_block:
  fixes c r :: u64
  assumes "unat (c - r) < n" "unat r + n \<le> 18446744073709551616"
  shows "unat c = unat r + unat (c - r)"
proof -
  have "unat c = unat (r + (c - r))" by simp
  also have "\<dots> = unat r + unat (c - r)" by (rule unat_add_nowrap) (use assms in simp)
  finally show ?thesis .
qed

lemma far_cell:
  assumes "far_ok m fin F w" "in_block F c"
  shows "fin + 32 \<le> unat c"
proof -
  obtain r z where b: "(r, z) \<in> F" "unat (c - r) < unat z" using assms(2) by (auto simp: in_block_def)
  have f: "fin + 32 \<le> unat r \<and> unat r + unat z < 18446744073709551616"
    using assms(1) b(1) by (force simp: far_ok_def)
  then show ?thesis using unat_in_block [OF b(2)] by simp
qed

lemma list_cell:
  assumes "heap_ok m a xs L w" "in_block L c"
  shows "a + 32 \<le> unat c" "unat c < a + extent xs"
proof -
  obtain r z where b: "(r, z) \<in> L" "unat (c - r) < unat z" using assms(2) by (auto simp: in_block_def)
  have I: "layout m a xs 0" "backed a xs r z" using assms(1) b(1) by (auto simp: heap_ok_def)
  obtain p n where p: "(p, n) \<in> used_chunks a xs" "p + 32 \<le> unat c" "unat c < p + n"
    using block_cell [OF I b(2)] by metis
  show "a + 32 \<le> unat c" "unat c < a + extent xs"
    using used_chunks_range [OF p(1)] p(2,3) by simp_all
qed

lemma far_ok_cong:
  assumes "far_ok m fin F w" and "\<And>x. in_block F x \<Longrightarrow> m' x = m x"
    and "F' \<subseteq> F" and "\<And>c v. w' c = Some v \<Longrightarrow> w c = Some v \<and> in_block F' c"
  shows "far_ok m' fin F' w'"
proof -
  have "in_block F c" if "in_block F' c" for c using that assms(3) by (auto simp: in_block_def)
  then have "in_block F' c \<and> m' c = v" if "w' c = Some v" for c v
    using assms(1) assms(2) [of c] assms(4) [OF that] by (auto simp: far_ok_def)
  then show ?thesis using assms(1,3) unfolding far_ok_def by blast
qed

lemma heap_ok_cong:
  assumes ok: "heap_ok m a xs L w" and m: "\<And>x. a \<le> unat x \<Longrightarrow> unat x < a + extent xs \<Longrightarrow> m' x = m x"
  shows "heap_ok m' a xs L w"
proof -
  have I: "layout m a xs 0" "xs \<noteq> []" "addrs_ok m a xs" using ok by (auto simp: heap_ok_def)
  have eq: "m' (of_nat c) = m (of_nat c)" if "a \<le> c" "c < a + extent xs" for c
  proof -
    have "unat (of_nat c :: u64) = c" using that layout_bound [OF I(1,2)] by (intro unat_of_nat_u64) simp
    then show ?thesis using m that by simp
  qed
  have "layout m' a xs 0" by (rule layout_cong [OF eq [symmetric] I(1)])
  moreover have "addrs_ok m' a xs"
  proof (rule addrs_ok_step [OF I(3,1)])
    show "m' (of_nat (b + 16)) = m (of_nat (b + 16))" if "b \<in> set (chunk_addrs a xs)" for b
      by (rule eq) (use chunk_addrs_range [OF I(1) that] in simp_all)
  qed blast
  moreover have "m' c = v" if "w c = Some v" for c v
    using ok that m [of c] list_cell [OF ok, of c] by (auto simp: heap_ok_def)
  ultimately show ?thesis using ok by (simp add: heap_ok_def)
qed

text \<open>The whole invariant: blocks \<open>L\<close> in the list and \<open>F\<close> behind it.\<close>

definition session_inv :: "nat \<Rightarrow> nat \<Rightarrow> kst \<Rightarrow> (u64 \<times> u64) set \<Rightarrow> (u64 \<Rightarrow> u64 option) \<Rightarrow> bool" where
  "session_inv a fin s live w \<longleftrightarrow> (\<exists>xs L F. live = L \<union> F \<and> a + extent xs = fin \<and>
     heap_ok (cells s) a xs L (w |` {c. in_block L c}) \<and> far_ok (cells s) fin F (w |` {c. in_block F c}) \<and>
     (\<forall>c. w c \<noteq> None \<longrightarrow> in_block live c)) \<and> heap_head (private_heap s) = of_nat a \<and> 40 \<le> a \<and> k_brk_inv (ks s)"

text \<open>An allocation that moves the break.\<close>

lemma kmalloc_grows_to:
  assumes L: "layout (cells s) a xs 0" "heap_head (private_heap s) = of_nat a" "xs \<noteq> []"
    and sz: "sz \<noteq> 0" "unat sz + 39 < 0x8000000000000000" and F: "\<not> chunk_fits sz s"
    and B: "k_brk_inv (ks s)" "new_break sz s \<le> heap_end s"
  shows "\<exists>h k. kmalloc sz s = Some (of_nat (new_break sz s + 32), s\<lparr>private_heap := h,
       cells := grown_mem (of_nat (new_break sz s)) (need_of (unat sz)) (cells s), ks := k\<rparr>) \<and>
     heap_head h = of_nat a \<and> k = (ks s)\<lparr>ks_sbrk := of_nat (new_break sz s)\<rparr> \<and> k_brk_inv k"
proof -
  let ?need = "need_of (unat sz)"
  note nb = need_bounds [of "unat sz"]
  have none: "first_fit a ?need xs = None"
    using F first_fit_chunk_fits [OF L(1,2), of sz] sz(2) by fastforce
  obtain k where K: "k_sbrk (of_nat ?need) (ks s) = (ks_sbrk (ks s) + of_nat ?need, k)" "ks_sbrk k = ks_sbrk (ks s) + of_nat ?need"
      "unat (ks_sbrk k) = unat (ks_sbrk (ks s)) + ?need" "k_brk_inv k" "k = (ks s)\<lparr>ks_sbrk := ks_sbrk k\<rparr>"
    using k_sbrk_grow [OF B(1), of ?need] nb sz(2) B(2) by (auto simp: new_break_def heap_end_def)
  have t: "ks_sbrk (ks s) + of_nat ?need = of_nat (new_break sz s)" by (simp add: new_break_def)
  have "ks_sbrk (ks s) + of_nat ?need \<noteq> 0" using K(2,3) nb(1) by (metis unat_0 add_is_0 not_less_eq_eq le_zero_eq zero_neq_numeral)
  then obtain h where "heap_malloc (private_heap s) sz False (cells s) (ks s) =
      Some (ks_sbrk (ks s) + of_nat ?need + 32, h, grown_mem (ks_sbrk (ks s) + of_nat ?need) ?need (cells s), k)" "heap_head h = of_nat a"
    using heap_malloc_grows [OF L(1,2,3) sz(1) _ none, of False "ks s"] K(1) sz(2) L(2) by auto
  then show ?thesis using K(2,4,5) unfolding t by (intro exI [of _ h] exI [of _ k]) (simp add: kmalloc_def)
qed

lemma kmalloc_refused:
  assumes L: "layout (cells s) a xs 0" "heap_head (private_heap s) = of_nat a" "xs \<noteq> []"
    and sz: "sz \<noteq> 0" "unat sz + 39 < 0x8000000000000000" and F: "\<not> chunk_fits sz s"
    and B: "k_brk_inv (ks s)" "heap_end s < new_break sz s" "new_break sz s < 18446744073709551616"
  shows "\<exists>s'. kmalloc sz s = Some (20, s') \<and> ks s' = ks s \<and> cells s' 0xFFFFFFFFFFFFFFF4 = of_nat (need_of (unat sz))"
proof -
  have "first_fit a (need_of (unat sz)) xs = None"
    using F first_fit_chunk_fits [OF L(1,2), of sz] sz(2) by fastforce
  from kmalloc_exhausted [OF L sz this B(1)] show ?thesis using B(2,3) by (simp add: new_break_def heap_end_def)
qed

subsection \<open>The steps\<close>

lemma apart_sym: "apart b b' \<Longrightarrow> apart b' b"
  by (auto simp: apart_def)

lemma heap_ok_blocks:
  assumes ok: "heap_ok m a xs L w"
  shows "(r, z) \<in> L \<Longrightarrow> a + 32 \<le> unat r \<and> unat r + unat z \<le> a + extent xs"
    and "b \<in> L \<Longrightarrow> b' \<in> L \<Longrightarrow> b \<noteq> b' \<Longrightarrow> apart b b'"
proof -
  have I: "layout m a xs 0" using ok by (simp add: heap_ok_def)
  have B: "\<exists>p n. r = of_nat (p + 32) \<and> unat r = p + 32 \<and> (p, n) \<in> used_chunks a xs \<and> 32 + unat z \<le> n"
    if "(r, z) \<in> L" for r z
  proof -
    from ok that obtain p n where p: "r = of_nat (p + 32)" "(p, n) \<in> used_chunks a xs" "32 + unat z \<le> n"
      unfolding heap_ok_def backed_def by blast
    have "unat r = p + 32" unfolding p(1)
      using used_chunk_bounds(3) [OF I p(2)] p(3) by (intro unat_of_nat_u64) simp
    with p show ?thesis by blast
  qed
  show "(r, z) \<in> L \<Longrightarrow> a + 32 \<le> unat r \<and> unat r + unat z \<le> a + extent xs"
    using B [of r z] used_chunks_range [of _ _ a xs] by fastforce
  show "b \<in> L \<Longrightarrow> b' \<in> L \<Longrightarrow> b \<noteq> b' \<Longrightarrow> apart b b'"
  proof -
    assume b: "b \<in> L" "b' \<in> L" "b \<noteq> b'"
    obtain r z r' z' where rz: "b = (r, z)" "b' = (r', z')" by (metis surj_pair)
    from B [of r z] B [of r' z'] b rz obtain p n p' n' where p: "r = of_nat (p + 32)" "unat r = p + 32" "(p, n) \<in> used_chunks a xs" "32 + unat z \<le> n"
      "r' = of_nat (p' + 32)" "unat r' = p' + 32" "(p', n') \<in> used_chunks a xs" "32 + unat z' \<le> n'"
      by blast
    have "(p, n) \<noteq> (p', n')" using ok b rz p(1,5) unfolding heap_ok_def by blast
    then show "apart b b'" using used_chunks_disjoint [OF p(3,7)] p by (auto simp: apart_def rz)
  qed
qed

lemma session_blocks:
  assumes I: "session_inv a fin s live w"
  shows "(r, z) \<in> live \<Longrightarrow> a + 32 \<le> unat r \<and> unat r + unat z < 18446744073709551616 \<and>
      (unat r + unat z \<le> fin \<or> fin + 32 \<le> unat r)"
    and "b \<in> live \<Longrightarrow> b' \<in> live \<Longrightarrow> b \<noteq> b' \<Longrightarrow> apart b b'"
    and "w c = Some v \<Longrightarrow> cells s c = v"
proof -
  obtain xs L F where J: "live = L \<union> F" "a + extent xs = fin" "heap_ok (cells s) a xs L (w |` {c. in_block L c})"
      "far_ok (cells s) fin F (w |` {c. in_block F c})" "\<forall>c. w c \<noteq> None \<longrightarrow> in_block live c"
    using I by (auto simp: session_inv_def)
  have "layout (cells s) a xs 0" "xs \<noteq> []" using J(3) by (auto simp: heap_ok_def)
  then have fin: "fin < 18446744073709551616" using layout_bound J(2) by blast
  have L: "a + 32 \<le> unat r \<and> unat r + unat z \<le> fin" if "(r, z) \<in> L" for r z
    using heap_ok_blocks(1) [OF J(3) that] J(2) by simp
  have F: "fin + 32 \<le> unat r \<and> unat r + unat z < 18446744073709551616" if "(r, z) \<in> F" for r z
    using J(4) that by (force simp: far_ok_def)
  show "(r, z) \<in> live \<Longrightarrow> a + 32 \<le> unat r \<and> unat r + unat z < 18446744073709551616 \<and>
      (unat r + unat z \<le> fin \<or> fin + 32 \<le> unat r)"
    using L [of r z] F [of r z] J(1,2) fin by auto
  have LF: "apart b b'" if "b \<in> L" "b' \<in> F" for b b'
    using L [of "fst b" "snd b"] F [of "fst b'" "snd b'"] that by (auto simp: apart_def)
  have FF: "apart b b'" if "b \<in> F" "b' \<in> F" "b \<noteq> b'" for b b'
    using J(4) that by (simp add: far_ok_def)
  show "apart b b'" if b: "b \<in> live" "b' \<in> live" "b \<noteq> b'"
  proof (cases "b \<in> L")
    case True
    show ?thesis
    proof (cases "b' \<in> L")
      case False
      then have "b' \<in> F" using b(2) J(1) by simp
      then show ?thesis by (rule LF [OF True])
    qed (rule heap_ok_blocks(2) [OF J(3) True _ b(3)])
  next
    case False
    then have f: "b \<in> F" using b(1) J(1) by simp
    show ?thesis
    proof (cases "b' \<in> L")
      case True
      then show ?thesis by (rule LF [OF _ f, THEN apart_sym])
    next
      case False
      then have "b' \<in> F" using b(2) J(1) by simp
      then show ?thesis by (rule FF [OF f _ b(3)])
    qed
  qed
  show "cells s c = v" if "w c = Some v"
  proof -
    have "in_block live c" using J(5) that by auto
    then have "in_block L c \<or> in_block F c" using J(1) by (auto simp: in_block_def)
    then have "(w |` {c. in_block L c}) c = Some v \<or> (w |` {c. in_block F c}) c = Some v"
      using that by (auto simp: restrict_map_def)
    moreover have "\<forall>c v. (w |` {c. in_block L c}) c = Some v \<longrightarrow> cells s c = v" using J(3) unfolding heap_ok_def by blast
    moreover have "\<forall>c v. (w |` {c. in_block F c}) c = Some v \<longrightarrow> cells s c = v" using J(4) unfolding far_ok_def by blast
    ultimately show ?thesis by blast
  qed
qed

lemma session_alloc_list:
  assumes I: "session_inv a fin s live w" and sz: "sz \<noteq> 0" "unat sz + 39 < 0x8000000000000000" and fit: "chunk_fits sz s"
  shows "\<exists>r s'. kmalloc sz s = Some (r, s') \<and> session_inv a fin s' (insert (r, sz) live) w \<and> ks s' = ks s \<and>
    a + 32 \<le> unat r \<and> unat r + unat sz \<le> fin \<and> (\<forall>b \<in> live. apart (r, sz) b)"
proof -
  obtain xs L F where J: "live = L \<union> F" "a + extent xs = fin" "heap_ok (cells s) a xs L (w |` {c. in_block L c})"
      "far_ok (cells s) fin F (w |` {c. in_block F c})" "\<forall>c. w c \<noteq> None \<longrightarrow> in_block live c"
    and H: "heap_head (private_heap s) = of_nat a" "40 \<le> a" "k_brk_inv (ks s)"
    using I by (auto simp: session_inv_def)
  have sz': "unat sz + 39 < 18446744073709551616" using sz(2) by simp
  obtain r h m ys where A: "kmalloc sz s = Some (r, s\<lparr>private_heap := h, cells := m\<rparr>)" "heap_head h = of_nat a"
      "extent ys = extent xs" "heap_ok m a ys (insert (r, sz) L) (w |` {c. in_block L c})" "(r, sz) \<notin> L"
      "\<forall>x. unat x < a \<or> a + extent xs \<le> unat x \<longrightarrow> m x = cells s x"
    using heap_ok_alloc [OF J(3) H(1,2) sz(1) sz' fit] by blast
  have mF: "m x = cells s x" if "in_block F x" for x
    using far_cell [OF J(4) that] A(6) J(2) by auto
  have wL: "w |` {c. in_block (insert (r, sz) L) c} = w |` {c. in_block L c}"
  proof (rule ext)
    fix c
    show "(w |` {c. in_block (insert (r, sz) L) c}) c = (w |` {c. in_block L c}) c"
    proof (cases "w c = None \<or> in_block L c \<or> \<not> in_block (insert (r, sz) L) c")
      case True
      then show ?thesis by (auto simp: restrict_map_def in_block_def)
    next
      case False
      then have "in_block live c" "in_block (insert (r, sz) L) c" "\<not> in_block L c" using J(5) by auto
      then have "in_block F c" using J(1) by (auto simp: in_block_def)
      then have "fin + 32 \<le> unat c" by (rule far_cell [OF J(4)])
      moreover have "unat c < fin"
        using list_cell(2) [OF A(4) \<open>in_block (insert (r, sz) L) c\<close>] A(3) J(2) by simp
      ultimately show ?thesis by simp
    qed
  qed
  have inv: "session_inv a fin (s\<lparr>private_heap := h, cells := m\<rparr>) (insert (r, sz) live) w"
    unfolding session_inv_def
  proof (intro conjI exI)
    show "insert (r, sz) live = insert (r, sz) L \<union> F" using J(1) by simp
    show "heap_ok (cells (s\<lparr>private_heap := h, cells := m\<rparr>)) a ys (insert (r, sz) L) (w |` {c. in_block (insert (r, sz) L) c})"
      using A(4) wL by simp
    show "far_ok (cells (s\<lparr>private_heap := h, cells := m\<rparr>)) fin F (w |` {c. in_block F c})"
      using mF by (intro far_ok_cong [OF J(4)]) (auto simp: restrict_map_def split: if_splits)
    show "\<forall>c. w c \<noteq> None \<longrightarrow> in_block (insert (r, sz) live) c" using J(5) by (auto simp: in_block_def)
  qed (use A(2,3) J(2) H in simp_all)
  have "a + 32 \<le> unat r \<and> unat r + unat sz \<le> fin"
    using heap_ok_blocks(1) [OF A(4), of r sz] A(3) J(2) by simp
  moreover have "apart (r, sz) b" if "b \<in> live" for b
  proof (cases "b \<in> L")
    case True
    then show ?thesis using heap_ok_blocks(2) [OF A(4), of "(r, sz)" b] A(5) by auto
  next
    case False
    then have "(fst b, snd b) \<in> F" using that J(1) by simp
    then have "fin + 32 \<le> unat (fst b)" using J(4) by (force simp: far_ok_def)
    then show ?thesis using calculation by (simp add: apart_def)
  qed
  ultimately show ?thesis using A(1) inv by (intro exI [of _ r] exI [of _ "s\<lparr>private_heap := h, cells := m\<rparr>"]) simp
qed

lemma grown_cells:
  assumes "n + 32 \<le> 18446744073709551616" and "unat x < n \<or> n + 32 \<le> unat x"
  shows "grown_mem (of_nat n) need m x = m x"
proof -
  have "unat (of_nat n + of_nat d :: u64) = n + d" if "d < 32" for d
    using that assms(1) unat_of_nat_u64 [of "n + d"] by simp
  from this [of 0] this [of 8] this [of 16] this [of 24]
  have "x \<noteq> of_nat n" "x \<noteq> of_nat n + 8" "x \<noteq> of_nat n + 16" "x \<noteq> of_nat n + 24"
    using assms(2) by auto
  then show ?thesis by (simp add: grown_mem_def)
qed

lemma session_alloc_far:
  assumes I: "session_inv a fin s live w" and sz: "sz \<noteq> 0" "unat sz + 39 < 0x8000000000000000"
    and nofit: "\<not> chunk_fits sz s" and G: "grows_behind fin live sz s"
  shows "\<exists>s'. kmalloc sz s = Some (of_nat (new_break sz s + 32), s') \<and>
    session_inv a fin s' (insert (of_nat (new_break sz s + 32), sz) live) w"
proof -
  let ?n = "new_break sz s" and ?need = "need_of (unat sz)"
  let ?r = "of_nat (?n + 32) :: u64" and ?m = "grown_mem (of_nat ?n) ?need (cells s)"
  obtain xs L F where J: "live = L \<union> F" "a + extent xs = fin" "heap_ok (cells s) a xs L (w |` {c. in_block L c})"
      "far_ok (cells s) fin F (w |` {c. in_block F c})" "\<forall>c. w c \<noteq> None \<longrightarrow> in_block live c"
    and H: "heap_head (private_heap s) = of_nat a" "40 \<le> a" "k_brk_inv (ks s)"
    using I by (auto simp: session_inv_def)
  have X: "layout (cells s) a xs 0" "xs \<noteq> []" using J(3) by (auto simp: heap_ok_def)
  have g: "?n \<le> heap_end s" "?n + ?need < 18446744073709551616" "fin \<le> ?n" "\<forall>(r, z) \<in> live. unat r + unat z \<le> ?n"
    using G by (simp_all add: grows_behind_def)
  note nb = need_bounds(1) [of "unat sz"]
  obtain h k where K: "kmalloc sz s = Some (?r, s\<lparr>private_heap := h, cells := ?m, ks := k\<rparr>)" "heap_head h = of_nat a" "k_brk_inv k"
    using kmalloc_grows_to [OF X(1) H(1) X(2) sz nofit H(3) g(1)] by blast
  have r: "unat ?r = ?n + 32" using g(2) nb by (intro unat_of_nat_u64) simp
  have same: "?m x = cells s x" if "unat x < ?n" for x
    by (rule grown_cells) (use that g(2) nb in simp_all)
  have below: "unat c < ?n" if in_F: "in_block F c" for c
  proof -
    obtain r z where b: "(r, z) \<in> F" "unat (c - r) < unat z" using in_F by (auto simp: in_block_def)
    have "unat r + unat z < 18446744073709551616" "unat r + unat z \<le> ?n"
      using J(4) b(1) g(4) J(1) by (force simp: far_ok_def)+
    then show ?thesis using unat_in_block [OF b(2)] b(2) by simp
  qed
  let ?F = "insert (?r, sz) F"
  have sub: "in_block ?F c" if "in_block F c" for c using that by (auto simp: in_block_def)
  have new: "?n + 32 \<le> unat c" if "in_block ?F c" "\<not> in_block F c" for c
  proof -
    have u: "unat (c - ?r) < unat sz" using that by (auto simp: in_block_def)
    have "unat c = unat ?r + unat (c - ?r)" by (rule unat_in_block [OF u]) (use r g(2) nb in simp)
    then show ?thesis using r by simp
  qed
  have wF: "w |` {c. in_block ?F c} = w |` {c. in_block F c}"
  proof (rule ext)
    fix c
    have "w c = None" if "in_block ?F c" "\<not> in_block F c"
    proof (rule ccontr)
      assume "w c \<noteq> None"
      then have "in_block live c" using J(5) by blast
      then have "in_block L c \<or> in_block F c" unfolding J(1) in_block_def by blast
      then have "in_block L c" using that(2) by blast
      then have "unat c < fin" using list_cell(2) [OF J(3)] J(2) by simp
      then show False using new [OF that] g(3) by simp
    qed
    then show "(w |` {c. in_block ?F c}) c = (w |` {c. in_block F c}) c"
      using sub [of c] by (auto simp: restrict_map_def)
  qed
  have base: "far_ok ?m fin F (w |` {c. in_block F c})"
    using same below by (intro far_ok_cong [OF J(4)]) (auto simp: restrict_map_def split: if_splits)
  have new_apart: "apart b (?r, sz)" if "b \<in> F" for b
    using that g(4) J(1) r by (cases b) (auto simp: apart_def simp del: of_nat_add)
  have far: "far_ok ?m fin ?F (w |` {c. in_block ?F c})"
    unfolding wF far_ok_def
  proof (intro conjI)
    show "\<forall>(r, z) \<in> ?F. fin + 32 \<le> unat r \<and> unat r + unat z < 18446744073709551616"
      using base r g(2,3) nb by (simp add: far_ok_def del: of_nat_add)
    show "\<forall>b \<in> ?F. \<forall>b' \<in> ?F. b \<noteq> b' \<longrightarrow> apart b b'"
    proof (intro ballI impI)
      fix b b' assume b: "b \<in> ?F" "b' \<in> ?F" "b \<noteq> b'"
      show "apart b b'"
      proof (cases "b = (?r, sz)")
        case True
        then have "b' \<in> F" using b by blast
        then show ?thesis using new_apart True apart_sym by blast
      next
        case False
        then have f: "b \<in> F" using b by blast
        show ?thesis
        proof (cases "b' = (?r, sz)")
          case True
          then show ?thesis using new_apart [OF f] by simp
        next
          case False
          then show ?thesis using base f b unfolding far_ok_def by blast
        qed
      qed
    qed
    show "\<forall>c v. (w |` {c. in_block F c}) c = Some v \<longrightarrow> in_block ?F c \<and> ?m c = v"
      using base sub unfolding far_ok_def by blast
  qed
  have list: "heap_ok ?m a xs L (w |` {c. in_block L c})"
    by (rule heap_ok_cong [OF J(3)]) (use same g(3) J(2) in simp)
  have "session_inv a fin (s\<lparr>private_heap := h, cells := ?m, ks := k\<rparr>) (insert (?r, sz) live) w"
    unfolding session_inv_def
  proof (intro conjI exI)
    show "insert (?r, sz) live = L \<union> ?F" using J(1) by simp
    show "heap_ok (cells (s\<lparr>private_heap := h, cells := ?m, ks := k\<rparr>)) a xs L (w |` {c. in_block L c})" using list by simp
    show "far_ok (cells (s\<lparr>private_heap := h, cells := ?m, ks := k\<rparr>)) fin ?F (w |` {c. in_block ?F c})" using far by simp
    show "\<forall>c. w c \<noteq> None \<longrightarrow> in_block (insert (?r, sz) live) c" using J(5) by (auto simp: in_block_def simp del: of_nat_add)
  qed (use K(2,3) J(2) H in simp_all)
  then show ?thesis using K(1) by blast
qed

lemma session_free:
  assumes I: "session_inv a fin s live w" and live': "live' = {b \<in> live. fst b \<noteq> addr}"
  shows "\<exists>m. kfree addr s = Some (s\<lparr>cells := m\<rparr>) \<and> session_inv a fin (s\<lparr>cells := m\<rparr>) live' (w |` {c. in_block live' c})"
proof -
  obtain xs L F where J: "live = L \<union> F" "a + extent xs = fin" "heap_ok (cells s) a xs L (w |` {c. in_block L c})"
      "far_ok (cells s) fin F (w |` {c. in_block F c})" "\<forall>c. w c \<noteq> None \<longrightarrow> in_block live c"
    and H: "heap_head (private_heap s) = of_nat a" "40 \<le> a" "k_brk_inv (ks s)"
    using I by (auto simp: session_inv_def)
  define L' where "L' = {b \<in> L. fst b \<noteq> addr}"
  define F' where "F' = {b \<in> F. fst b \<noteq> addr}"
  let ?w = "w |` {c. in_block live' c}"
  obtain m ys where K: "kfree addr s = Some (s\<lparr>cells := m\<rparr>)" "extent ys = extent xs"
      "heap_ok m a ys L' ((w |` {c. in_block L c}) |` {c. in_block L' c})"
      "\<forall>x. unat x < a \<or> a + extent xs \<le> unat x \<longrightarrow> m x = cells s x"
    using heap_ok_free [OF J(3) H(1) L'_def] by blast
  have split: "live' = L' \<union> F'" by (auto simp: live' J(1) L'_def F'_def)
  have sub: "in_block live' c" if "in_block L' c \<or> in_block F' c" for c using that split by (auto simp: in_block_def)
  have subL: "in_block L c" if "in_block L' c" for c using that by (auto simp: in_block_def L'_def)
  have subF: "in_block F c" if "in_block F' c" for c using that by (auto simp: in_block_def F'_def)
  have "?w |` {c. in_block L' c} = (w |` {c. in_block L c}) |` {c. in_block L' c}"
    by (rule ext) (use sub subL in \<open>auto simp: restrict_map_def\<close>)
  then have list: "heap_ok m a ys L' (?w |` {c. in_block L' c})" using K(3) by simp
  have mF: "m x = cells s x" if "in_block F x" for x
    using far_cell [OF J(4) that] K(4) J(2) by auto
  have far: "far_ok m fin F' (?w |` {c. in_block F' c})"
  proof (rule far_ok_cong [OF J(4) mF])
    show "F' \<subseteq> F" by (auto simp: F'_def)
    show "(w |` {c. in_block F c}) c = Some v \<and> in_block F' c" if "(?w |` {c. in_block F' c}) c = Some v" for c v
      using that subF [of c] by (auto simp: restrict_map_def split: if_splits)
  qed
  have "session_inv a fin (s\<lparr>cells := m\<rparr>) live' ?w"
    unfolding session_inv_def
  proof (intro conjI exI)
    show "live' = L' \<union> F'" by (rule split)
    show "heap_ok (cells (s\<lparr>cells := m\<rparr>)) a ys L' (?w |` {c. in_block L' c})" using list by simp
    show "far_ok (cells (s\<lparr>cells := m\<rparr>)) fin F' (?w |` {c. in_block F' c})" using far by simp
    show "\<forall>c. ?w c \<noteq> None \<longrightarrow> in_block live' c" by (simp add: restrict_map_def)
  qed (use K(2) J(2) H in simp_all)
  then show ?thesis using K(1) by blast
qed

lemma far_ok_store:
  assumes ok: "far_ok m fin F w" and c: "in_block F c"
  shows "far_ok (m(c := v)) fin F (w(c \<mapsto> v))"
proof -
  have old: "in_block F x \<and> m x = y" if "w x = Some y" for x y
    using ok that unfolding far_ok_def by blast
  have "in_block F x \<and> (m(c := v)) x = y" if "(w(c \<mapsto> v)) x = Some y" for x y
  proof (cases "x = c")
    case True
    then show ?thesis using that c by simp
  next
    case False
    then have "w x = Some y" using that by simp
    then show ?thesis using old False by (simp only: fun_upd_other not_False_eq_True)
  qed
  then show ?thesis using ok unfolding far_ok_def by blast
qed

lemma session_store:
  assumes I: "session_inv a fin s live w" and b: "(r, z) \<in> live" and i: "8 * i + 8 \<le> unat z" and c: "c = r + of_nat (8 * i)"
  shows "session_inv a fin (s\<lparr>cells := (cells s)(c := v)\<rparr>) live (w(c \<mapsto> v))"
proof -
  obtain xs L F where J: "live = L \<union> F" "a + extent xs = fin" "heap_ok (cells s) a xs L (w |` {c. in_block L c})"
      "far_ok (cells s) fin F (w |` {c. in_block F c})" "\<forall>c. w c \<noteq> None \<longrightarrow> in_block live c"
    and H: "heap_head (private_heap s) = of_nat a" "40 \<le> a" "k_brk_inv (ks s)"
    using I by (auto simp: session_inv_def)
  have "unat (of_nat (8 * i) :: u64) = 8 * i"
    using i unat_less_2p64 [of z] by (intro unat_of_nat_u64) simp
  then have cr: "unat (c - r) < unat z" using i by (simp add: c del: of_nat_mult)
  have inb: "in_block B c" if "(r, z) \<in> B" for B using that cr by (auto simp: in_block_def)
  have L: "unat x < fin" if "in_block L x" for x using list_cell(2) [OF J(3) that] J(2) by simp
  note Fc = far_cell [OF J(4)]
  let ?m = "(cells s)(c := v)" and ?w = "w(c \<mapsto> v)"
  have "heap_ok ?m a xs L (?w |` {c. in_block L c}) \<and> far_ok ?m fin F (?w |` {c. in_block F c})"
  proof (cases "(r, z) \<in> L")
    case True
    have cL: "in_block L c" by (rule inb [OF True])
    then have cF: "\<not> in_block F c" using L [of c] Fc [of c] by fastforce
    have "?w |` {c. in_block L c} = (w |` {c. in_block L c})(c \<mapsto> v)" using cL by (auto simp: restrict_map_def fun_eq_iff)
    moreover have "?w |` {c. in_block F c} = w |` {c. in_block F c}" using cF by (auto simp: restrict_map_def fun_eq_iff)
    moreover have "far_ok ?m fin F (w |` {c. in_block F c})"
      by (rule far_ok_cong [OF J(4)]) (use cF in \<open>auto simp: restrict_map_def split: if_splits\<close>)
    ultimately show ?thesis using heap_ok_store [OF J(3) True i c, of v] by simp
  next
    case False
    then have bF: "(r, z) \<in> F" using b J(1) by simp
    have cF: "in_block F c" by (rule inb [OF bF])
    then have cL: "\<not> in_block L c" using L [of c] Fc [of c] by fastforce
    have w1: "?w |` {c. in_block F c} = (w |` {c. in_block F c})(c \<mapsto> v)" using cF by (auto simp: restrict_map_def fun_eq_iff)
    have w2: "?w |` {c. in_block L c} = w |` {c. in_block L c}" using cL by (auto simp: restrict_map_def fun_eq_iff)
    have "heap_ok ?m a xs L (w |` {c. in_block L c})"
      by (rule heap_ok_cong [OF J(3)]) (use Fc [OF cF] J(2) in auto)
    moreover have "far_ok ?m fin F ((w |` {c. in_block F c})(c \<mapsto> v))" by (rule far_ok_store [OF J(4) cF])
    ultimately show ?thesis using w1 w2 by simp
  qed
  moreover have "\<forall>x. ?w x \<noteq> None \<longrightarrow> in_block live x" using J(5) inb [OF b] by simp
  ultimately show ?thesis unfolding session_inv_def
  proof (elim conjE, intro conjI exI)
    assume L: "heap_ok ?m a xs L (?w |` {c. in_block L c})" and F: "far_ok ?m fin F (?w |` {c. in_block F c})"
    show "heap_ok (cells (s\<lparr>cells := ?m\<rparr>)) a xs L (?w |` {c. in_block L c})" using L by (simp del: fun_upd_apply)
    show "far_ok (cells (s\<lparr>cells := ?m\<rparr>)) fin F (?w |` {c. in_block F c})" using F by (simp del: fun_upd_apply)
  qed (use J(1,2) H in \<open>simp_all del: fun_upd_apply\<close>)
qed

lemma session_start:
  assumes "layout (cells s) a [(N, False)] 0" and "heap_head (private_heap s) = of_nat a" and "40 \<le> a" and "k_brk_inv (ks s)"
  shows "session_inv a (a + N) s {} Map.empty"
  unfolding session_inv_def
proof (intro conjI exI)
  show "heap_ok (cells s) a [(N, False)] {} (Map.empty |` {c. in_block {} c})"
    using assms(1) by (simp add: heap_ok_def addrs_ok_def)
  show "far_ok (cells s) (a + N) {} (Map.empty |` {c. in_block {} c})" by (simp add: far_ok_def)
qed (use assms in simp_all)

lemma heap_session_inv:
  "heap_session fin s0 s live w \<Longrightarrow> session_inv a fin s0 {} Map.empty \<Longrightarrow> session_inv a fin s live w"
proof (induction rule: heap_session.induct)
  case (alloc s live w sz s' r)
  show ?case
  proof (cases "chunk_fits sz s")
    case True
    from session_alloc_list [OF alloc.IH [OF alloc.prems] alloc.hyps(2,3) True] alloc.hyps(5) show ?thesis by auto
  next
    case False
    then have "grows_behind fin live sz s" using alloc.hyps(4) by simp
    from session_alloc_far [OF alloc.IH [OF alloc.prems] alloc.hyps(2,3) False this] alloc.hyps(5) show ?thesis by auto
  qed
next
  case (free s live w addr s' live')
  from session_free [OF free.IH [OF free.prems] free.hyps(3)] free.hyps(2) show ?case by auto
next
  case (store s live w r z i c v)
  from session_store [OF store.IH [OF store.prems] store.hyps(2-4)] show ?case .
qed

text \<open>What the next request does, in a state of a session.\<close>

definition next_alloc :: "nat \<Rightarrow> nat \<Rightarrow> kst \<Rightarrow> (u64 \<times> u64) set \<Rightarrow> u64 \<Rightarrow> u64 \<Rightarrow> kst \<Rightarrow> bool" where
  "next_alloc a fin s live sz r s' \<longleftrightarrow>
     (if chunk_fits sz s then ks s' = ks s \<and> a + 32 \<le> unat r \<and> unat r + unat sz \<le> fin \<and> (\<forall>b \<in> live. apart (r, sz) b)
      else if new_break sz s \<le> heap_end s
      then r = of_nat (new_break sz s + 32) \<and> ks s' = (ks s)\<lparr>ks_sbrk := of_nat (new_break sz s)\<rparr>
      else r = 20 \<and> ks s' = ks s)"

lemma session_next:
  assumes I: "session_inv a fin s live w" and sz: "sz \<noteq> 0" "unat sz + 39 < 0x8000000000000000"
    and B: "new_break sz s < 18446744073709551616"
  shows "\<exists>r s'. kmalloc sz s = Some (r, s') \<and> next_alloc a fin s live sz r s'"
proof -
  obtain xs L where J: "heap_ok (cells s) a xs L (w |` {c. in_block L c})"
    and H: "heap_head (private_heap s) = of_nat a" "k_brk_inv (ks s)"
    using I by (auto simp: session_inv_def)
  have X: "layout (cells s) a xs 0" "xs \<noteq> []" using J by (auto simp: heap_ok_def)
  show ?thesis
  proof (cases "chunk_fits sz s")
    case True
    from session_alloc_list [OF I sz True] True show ?thesis by (auto simp: next_alloc_def)
  next
    case False
    show ?thesis
    proof (cases "new_break sz s \<le> heap_end s")
      case True
      from kmalloc_grows_to [OF X(1) H(1) X(2) sz False H(2) True] show ?thesis
        using True False by (auto simp: next_alloc_def)
    next
      case room: False
      then have "heap_end s < new_break sz s" by simp
      from kmalloc_refused [OF X(1) H(1) X(2) sz False H(2) this B] show ?thesis
        using room False by (auto simp: next_alloc_def)
    qed
  qed
qed

lemma session_list:
  assumes "session_inv a fin s live w"
  shows "\<exists>xs. layout (cells s) a xs 0 \<and> xs \<noteq> [] \<and> a + extent xs = fin" "heap_head (private_heap s) = of_nat a"
    and "kfree addr s \<noteq> None"
  using assms session_free [OF assms refl, of addr] by (auto simp: session_inv_def heap_ok_def)

text \<open>C5. Sessions of the private heap from the state that \<open>heap_init\<close> leaves, in any order of allocations, frees of any
  address (also of one that was never handed out, or twice) and stores of the clients into their own blocks. An allocation
  may be served from the list, or, when no chunk fits, by moving the break; in the second case a session goes on only if
  there is room and the new break lies at or behind the list and every block handed out and not freed. In
  every state of such a session the list is a gapless chain over its 0x5000 bytes, every block handed out and not freed lies in
  it or behind it, no two of them overlap, not even with the header of the other, every cell that a client
  stored into a block it still holds has the value stored, a free returns, and the next request returns (as long as the sum
  of the break and the size does not wrap): a block of the list, apart from all others, if a chunk fits; else the block behind
  the new break, which is not checked against the blocks; else, when the region is exhausted, the address 20.\<close>

theorem heap_session_safe:
  assumes "k_brk_inv (ks s)" and "shared_brk_inv (ks s)"
    and "H = unat (ks_sbrk (ks s))" and "H + 0x10000 \<le> unat (heap_start (ks s) + heap_size (ks s))"
    and "unat (sh_sbrk (ks s)) + 0x2000 \<le> unat (shared_heap_start (ks s) + shared_heap_size (ks s))"
    and "unat (sh_sbrk (ks s)) + 0x5000 \<le> H"
    and "heap_session (H + 0x5000) (snd (heap_init s)) s' live w"
  shows "fst (heap_init s) = 1 \<and>
    (\<exists>xs. layout (cells s') H xs 0 \<and> xs \<noteq> [] \<and> extent xs = 0x5000) \<and> heap_head (private_heap s') = of_nat H \<and>
    (\<forall>(r, z) \<in> live. H + 32 \<le> unat r \<and> unat r + unat z < 18446744073709551616 \<and>
       (unat r + unat z \<le> H + 0x5000 \<or> H + 0x5000 + 32 \<le> unat r)) \<and>
    (\<forall>b \<in> live. \<forall>b' \<in> live. b \<noteq> b' \<longrightarrow> apart b b') \<and>
    (\<forall>c v. w c = Some v \<longrightarrow> cells s' c = v) \<and> (\<forall>addr. kfree addr s' \<noteq> None) \<and>
    (\<forall>sz. sz \<noteq> 0 \<longrightarrow> unat sz + 39 < 0x8000000000000000 \<longrightarrow> new_break sz s' < 18446744073709551616 \<longrightarrow>
       (\<exists>r s''. kmalloc sz s' = Some (r, s'') \<and> next_alloc H (H + 0x5000) s' live sz r s''))"
proof -
  obtain s1 where s1: "heap_init s = (1, s1)" "layout (cells s1) H [(0x5000, False)] 0"
    "heap_head (private_heap s1) = of_nat H" "k_brk_inv (ks s1)"
    using heap_init_layout [OF assms(1-6)] by blast
  have "40 \<le> H" using assms(6) by simp
  from heap_session_inv [OF assms(7)] session_start [OF s1(2,3) this s1(4)]
  have I: "session_inv H (H + 0x5000) s' live w" by (simp add: s1(1))
  show ?thesis
    using s1(1) session_list [OF I] session_blocks [OF I] session_next [OF I] by (intro conjI) (fastforce | simp)+
qed

subsection \<open>Blocks behind the break that overlap\<close>

lemma grown_layout:
  assumes L: "layout m a xs 0" "xs \<noteq> []" and n: "a + extent xs \<le> n" "n + 32 \<le> 18446744073709551616"
  shows "layout (grown_mem (of_nat n) need m) a xs 0"
proof (rule layout_cong [OF _ L(1)])
  fix c assume "a \<le> c" "c < a + extent xs"
  moreover have "unat (of_nat c :: u64) = c" using calculation layout_bound [OF L] by (intro unat_of_nat_u64) simp
  ultimately show "m (of_nat c) = grown_mem (of_nat n) need m (of_nat c)" using grown_cells [OF n(2)] n(1) by simp
qed

lemma grown_head: "grown_mem t need m t = of_nat need" "grown_mem t need m (t + 8) = 1"
  by (simp_all add: grown_mem_def)

text \<open>C37. Two requests that move the break, one after the other. \<open>k_sbrk\<close> returns the new break and \<open>_malloc\<close> puts the
  chunk there, into space that was not obtained. If the second request is smaller than the first one (its chunk is not longer than
  the first request), its chunk header is written into the first block, and the blocks overlap.\<close>

theorem kmalloc_grown_overlap:
  assumes "layout (cells s) a xs 0" and "heap_head (private_heap s) = of_nat a" and "xs \<noteq> []"
    and "k_brk_inv (ks s)"
    and "sz1 \<noteq> 0" and "unat sz1 + 39 < 0x8000000000000000" and "\<not> chunk_fits sz1 s"
    and "sz2 \<noteq> 0" and "need_of (unat sz2) \<le> unat sz1" and "\<not> chunk_fits sz2 s"
    and "a + extent xs \<le> new_break sz1 s" and "new_break sz1 s + need_of (unat sz2) \<le> heap_end s"
  shows "\<exists>s1 s2. kmalloc sz1 s = Some (of_nat (new_break sz1 s + 32), s1) \<and>
     ks_sbrk (ks s1) = of_nat (new_break sz1 s) \<and>
     kmalloc sz2 s1 = Some (of_nat (new_break sz1 s + need_of (unat sz2) + 32), s2) \<and>
     ks_sbrk (ks s2) = of_nat (new_break sz1 s + need_of (unat sz2)) \<and>
     new_break sz1 s + 32 \<le> new_break sz1 s + need_of (unat sz2) \<and>
     new_break sz1 s + need_of (unat sz2) + 32 \<le> new_break sz1 s + 32 + unat sz1 \<and>
     cells s2 (of_nat (new_break sz1 s + need_of (unat sz2))) = of_nat (need_of (unat sz2)) \<and>
     cells s2 (of_nat (new_break sz1 s + need_of (unat sz2) + 8)) = 1"
proof -
  let ?n = "new_break sz1 s" and ?need = "need_of (unat sz2)"
  note nb = need_bounds [of "unat sz2"]
  have sz2: "unat sz2 + 39 < 0x8000000000000000" using nb assms(6,9) by linarith
  have top: "?n + ?need < 18446744073709551616"
    using assms(12) unat_less_2p64 [of "heap_start (ks s) + heap_size (ks s)"] by (simp add: heap_end_def)
  have "?n \<le> heap_end s" using assms(12) by simp
  then obtain h k where K: "kmalloc sz1 s = Some (of_nat (?n + 32), s\<lparr>private_heap := h,
       cells := grown_mem (of_nat ?n) (need_of (unat sz1)) (cells s), ks := k\<rparr>)" "heap_head h = of_nat a"
     "k = (ks s)\<lparr>ks_sbrk := of_nat ?n\<rparr>" "k_brk_inv k"
    using kmalloc_grows_to [OF assms(1-3,5,6,7,4)] by blast
  define s1 where "s1 = s\<lparr>private_heap := h, cells := grown_mem (of_nat ?n) (need_of (unat sz1)) (cells s), ks := k\<rparr>"
  have L: "layout (cells s1) a xs 0"
    unfolding s1_def using grown_layout [OF assms(1,3,11)] top nb(1) by simp
  have H: "heap_head (private_heap s1) = of_nat a" and B: "k_brk_inv (ks s1)" using K(2,4) by (simp_all add: s1_def)
  have "unat (of_nat ?n :: u64) = ?n" using top by (intro unat_of_nat_u64) simp
  then have n: "new_break sz2 s1 = ?n + ?need" "heap_end s1 = heap_end s"
    by (simp_all add: new_break_def [of sz2] heap_end_def s1_def K(3))
  have "first_fit a ?need xs = None"
    using first_fit_chunk_fits [OF assms(1,2), of sz2] assms(10) sz2 by fastforce
  then have fit: "\<not> chunk_fits sz2 s1" using chunk_fits_first_fit [OF L H assms(3), of sz2] sz2 by fastforce
  obtain h2 k2 where R: "kmalloc sz2 s1 = Some (of_nat (?n + ?need + 32), s1\<lparr>private_heap := h2,
       cells := grown_mem (of_nat (?n + ?need)) ?need (cells s1), ks := k2\<rparr>)" "k2 = (ks s1)\<lparr>ks_sbrk := of_nat (?n + ?need)\<rparr>"
    using kmalloc_grows_to [OF L H assms(3,8) sz2 fit B] assms(12) unfolding n by blast
  define s2 where "s2 = s1\<lparr>private_heap := h2,
       cells := grown_mem (of_nat (?n + ?need)) ?need (cells s1), ks := k2\<rparr>"
  have "(of_nat (?n + ?need + 8) :: u64) = of_nat (?n + ?need) + 8" by simp
  then have "cells s2 (of_nat (?n + ?need)) = of_nat ?need \<and> cells s2 (of_nat (?n + ?need + 8)) = 1"
    by (simp add: s2_def grown_head del: of_nat_add)
  moreover have "ks_sbrk (ks s1) = of_nat ?n" "ks_sbrk (ks s2) = of_nat (?n + ?need)"
    by (simp_all add: s1_def s2_def K(3) R(2) del: of_nat_add)
  ultimately show ?thesis using K(1) [folded s1_def] R(1) [folded s2_def] nb(1) assms(9)
    by (intro exI [of _ s1] exI [of _ s2]) (simp del: of_nat_add)
qed

subsection \<open>An instance\<close>

lemma session_fits:
  assumes S: "heap_session fin s0 s live w" and L: "layout (cells s) a xs 0" and h: "heap_head (private_heap s) = of_nat a"
    and a: "40 \<le> a" and sz: "sz \<noteq> 0" "unat sz + 39 < 0x8000000000000000"
    and F: "first_fit a (need_of (unat sz)) xs = Some (p, ys)"
  shows "\<exists>s'. heap_session fin s0 s' (insert (of_nat (p + 32), sz) live) w \<and> layout (cells s') a ys 0 \<and>
    heap_head (private_heap s') = of_nat a \<and> ks s' = ks s"
proof -
  have sz': "unat sz + 39 < 18446744073709551616" using sz(2) by simp
  obtain h' m where K: "kmalloc sz s = Some (of_nat (p + 32), s\<lparr>private_heap := h', cells := m\<rparr>)"
    "layout m a ys 0" "heap_head h' = of_nat a"
    using kmalloc_frame [OF L h a sz(1) sz' F] by blast
  have "chunk_fits sz s" using first_fit_chunk_fits [OF L h sz'] F by simp
  from heap_session.alloc [OF S sz disjI1 [OF this] K(1)] K(2,3) show ?thesis by fastforce
qed

text \<open>From the initial heap: a block of the list with a store into it, then a block behind the break.\<close>

definition ex_kst_brk :: kst where "ex_kst_brk = zero_kst\<lparr>ks := ex_ks_brk\<rparr>"

definition ex_block :: u64 where "ex_block = of_nat (0xFFFFF00000400000 + 32)"

definition ex_far :: u64 where "ex_far = of_nat (0xFFFFF00000400000 + 0x8020 + 32)"

lemma ex_brk:
  "k_brk_inv (ks ex_kst_brk)" "shared_brk_inv (ks ex_kst_brk)" "(0xFFFFF00000400000 :: nat) = unat (ks_sbrk (ks ex_kst_brk))"
  "(0xFFFFF00000400000 :: nat) + 0x10000 \<le> unat (heap_start (ks ex_kst_brk) + heap_size (ks ex_kst_brk))"
  "unat (sh_sbrk (ks ex_kst_brk)) + 0x2000 \<le> unat (shared_heap_start (ks ex_kst_brk) + shared_heap_size (ks ex_kst_brk))"
  "unat (sh_sbrk (ks ex_kst_brk)) + 0x5000 \<le> (0xFFFFF00000400000 :: nat)"
  by (simp_all add: ex_kst_brk_def ex_ks_brk_def ex_ks_def zero_kst_def zero_ks_def k_brk_inv_def shared_brk_inv_def)

lemma ex_heap_session:
  "\<exists>s w. heap_session (0xFFFFF00000400000 + 0x5000) (snd (heap_init ex_kst_brk)) s {(ex_far, 0x6000), (ex_block, 100)} w \<and>
     w ex_block = Some 7"
proof -
  define a :: nat where "a = 0xFFFFF00000400000"
  let ?ys = "[(136, True), (0x4F78, False)]"
  have block: "ex_block = of_nat (a + 32)" and a40: "40 \<le> a" by (simp_all add: ex_block_def a_def)
  obtain s1 where s1: "heap_init ex_kst_brk = (1, s1)" "ks_sbrk (ks s1) = of_nat (a + 0x2000)"
    "layout (cells s1) a [(0x5000, False)] 0" "heap_head (private_heap s1) = of_nat a" "k_brk_inv (ks s1)"
    "heap_start (ks s1) + heap_size (ks s1) = 0xFFFFF00001400000"
    using heap_init_layout [OF ex_brk] by (auto simp: a_def ex_kst_brk_def ex_ks_brk_def ex_ks_def zero_kst_def)
  have F1: "first_fit a (need_of (unat (100::u64))) [(0x5000, False)] = Some (a, ?ys)"
    by (simp add: need_of_def)
  obtain s2 where S2: "heap_session (a + 0x5000) s1 s2 {(ex_block, 100)} Map.empty" "layout (cells s2) a ?ys 0"
    "heap_head (private_heap s2) = of_nat a" "ks s2 = ks s1"
    using session_fits [OF heap_session.start s1(3,4) a40 _ _ F1] by (auto simp: block simp del: of_nat_add)
  let ?s3 = "s2\<lparr>cells := (cells s2)(ex_block := 7)\<rparr>" and ?w = "[ex_block \<mapsto> 7] :: u64 \<Rightarrow> u64 option"
  have S3: "heap_session (a + 0x5000) s1 ?s3 {(ex_block, 100)} ?w"
    by (rule heap_session.store [OF S2(1), of ex_block 100 0]) simp_all
  have L3: "layout (cells ?s3) a ?ys 0"
  proof (rule layout_headers_cong [OF S2(2)])
    fix q d :: nat assume "q \<in> set (chunk_addrs a ?ys)" "d < 32"
    then have "(of_nat (q + d) :: u64) \<noteq> of_nat (a + 32)"
      by (subst of_nat_eq_u64_iff) (auto simp: a_def)
    then show "cells ?s3 (of_nat (q + d)) = cells s2 (of_nat (q + d))" by (simp add: block del: of_nat_add)
  qed
  have none: "first_fit a (need_of (unat (0x6000::u64))) ?ys = None" by (simp add: need_of_def)
  have H3: "heap_head (private_heap ?s3) = of_nat a" using S2(3) by simp
  have fit: "\<not> chunk_fits 0x6000 ?s3"
    using chunk_fits_first_fit [OF L3 H3, of "0x6000"] none by fastforce
  have nb: "new_break 0x6000 ?s3 = a + 0x8020" "heap_end ?s3 = 0xFFFFF00001400000"
    using s1(2,6) S2(4) by (simp_all add: new_break_def heap_end_def need_of_def a_def)
  then have B: "new_break 0x6000 ?s3 \<le> heap_end ?s3" by (simp add: a_def)
  have inv3: "k_brk_inv (ks ?s3)" using s1(5) S2(4) by simp
  obtain s4 where K: "kmalloc 0x6000 ?s3 = Some (of_nat (new_break 0x6000 ?s3 + 32), s4)"
    using kmalloc_grows_to [OF L3 H3 _ _ _ fit inv3 B] by (auto simp del: fun_upd_apply)
  have far: "of_nat (new_break 0x6000 ?s3 + 32) = ex_far" unfolding nb by (simp add: ex_far_def a_def)
  have "grows_behind (a + 0x5000) {(ex_block, 100)} 0x6000 ?s3"
    unfolding grows_behind_def nb by (simp add: need_of_def a_def ex_block_def)
  from heap_session.alloc [OF S3 _ _ disjI2 [OF this] K] show ?thesis
    unfolding far by (intro exI [of _ s4] exI [of _ ?w]) (simp add: s1(1) a_def)
qed

theorem heap_session_safe_witness:
  "\<exists>s w. heap_session (0xFFFFF00000400000 + 0x5000) (snd (heap_init ex_kst_brk)) s {(ex_far, 0x6000), (ex_block, 100)} w \<and>
     w ex_block = Some 7 \<and> cells s ex_block = 7 \<and> kfree ex_block s \<noteq> None \<and> apart (ex_far, 0x6000) (ex_block, 100)"
proof -
  obtain s w where S: "heap_session (0xFFFFF00000400000 + 0x5000) (snd (heap_init ex_kst_brk)) s
      {(ex_far, 0x6000), (ex_block, 100)} w" "w ex_block = Some 7"
    using ex_heap_session by blast
  note T = heap_session_safe [OF ex_brk S(1)]
  have "ex_far \<noteq> ex_block" by (simp add: ex_far_def ex_block_def)
  then have "apart (ex_far, 0x6000) (ex_block, 100)" using T by blast
  then show ?thesis using T S by blast
qed

lemma ex_heap_no_fit: "0x5000 \<le> unat sz \<Longrightarrow> unat sz < 0x100000000 \<Longrightarrow> \<not> chunk_fits sz (ex_heap brk)"
proof
  assume sz: "0x5000 \<le> unat sz" "unat sz < 0x100000000" and fit: "chunk_fits sz (ex_heap brk)"
  have b: "unat sz + 39 < 18446744073709551616" using sz(2) by simp
  have "first_fit 0xFFFFF00000400000 (need_of (unat sz)) [(0x5000, False)] = None"
    using need_bounds(1) [of "unat sz"] sz(1) by simp
  then show False using chunk_fits_first_fit [OF ex_heap_layout ex_heap_head _ b fit] by fastforce
qed

text \<open>On the initial heap: a block of 0x8000 bytes, then one of 0x6000 bytes.\<close>

theorem kmalloc_grown_overlap_witness:
  "\<exists>s1 s2. kmalloc 0x8000 (ex_heap 0xFFFFF00000402000) = Some (0xFFFFF0000040A040, s1) \<and>
     kmalloc 0x6000 s1 = Some (0xFFFFF00000410060, s2) \<and> cells s2 0xFFFFF00000410040 = 0x6020 \<and>
     \<not> apart (0xFFFFF0000040A040, 0x8000) (0xFFFFF00000410060, 0x6000)"
proof -
  let ?s = "ex_heap 0xFFFFF00000402000"
  have n: "new_break 0x8000 ?s = 0xFFFFF0000040A020" "heap_end ?s = 0xFFFFF00001400000"
    by (simp_all add: new_break_def heap_end_def need_of_def, simp_all add: ex_heap_def ex_ks_brk_def ex_ks_def)
  have need: "need_of 0x6000 = 0x6020" by (simp add: need_of_def)
  have inv: "k_brk_inv (ks ?s)" by (simp add: ex_heap_brk_inv)
  have "\<not> chunk_fits 0x8000 ?s" "\<not> chunk_fits 0x6000 ?s" by (rule ex_heap_no_fit; simp)+
  from kmalloc_grown_overlap [OF ex_heap_layout ex_heap_head _ inv _ _ this(1) _ _ this(2)] show ?thesis
    by (fastforce simp: n need apart_def)
qed

end
