(* ===== verification/Cstring.thy ===== *)
theory Cstring
  imports Memops
begin

text \<open>
  The string functions of \<open>string.c\<close>, on NUL-terminated strings in byte memory. \<open>char\<close> is an
  unsigned byte on AArch64. A loop that looks for a NUL is a partial function: its value is
  \<open>None\<close> when there is none to be found. \<open>cstr m a xs\<close> reads the bytes \<open>xs\<close> at \<open>a\<close> as a string.
\<close>

subsection \<open>The functions\<close>

partial_function (option) strlen_loop :: "bytemem \<Rightarrow> u64 \<Rightarrow> u64 option" where
  "strlen_loop m ptr = (if m ptr \<noteq> 0 then strlen_loop m (ptr + 1) else Some (ptr + 1))"

definition strlen :: "bytemem \<Rightarrow> u64 \<Rightarrow> u64 option" where
  "strlen m buffer = map_option (\<lambda>ptr. ptr - buffer - 1) (strlen_loop m buffer)"

partial_function (option) strcmp :: "bytemem \<Rightarrow> u64 \<Rightarrow> u64 \<Rightarrow> c_int option" where
  "strcmp m s1 s2 =
     (if m s1 = m s2 \<and> m s1 \<noteq> 0 then strcmp m (s1 + 1) (s2 + 1)
      else Some (ucast (m s1) - ucast (m s2)))"

function strncmp_loop :: "bytemem \<Rightarrow> u64 \<Rightarrow> u64 \<Rightarrow> u64 \<Rightarrow> c_int" where
  "strncmp_loop m s1 s2 n =
     (if m s1 \<noteq> m s2 then ucast (m s1) - ucast (m s2)
      else if m s1 = 0 then 0
      else if n - 1 \<noteq> 0 \<and> n \<noteq> 0 then strncmp_loop m (s1 + 1) (s2 + 1) (n - 1) else 0)"
  by pat_completeness auto
termination
  by (relation "measure (\<lambda>(m, p1, p2, n). unat n)") (auto simp: unat_dec_less)

declare strncmp_loop.simps [simp del]

definition strncmp :: "bytemem \<Rightarrow> u64 \<Rightarrow> u64 \<Rightarrow> u64 \<Rightarrow> c_int" where
  "strncmp m s1 s2 n = (if n = 0 then 0 else strncmp_loop m s1 s2 n)"

text \<open>\<open>strcpy\<close> returns its advanced \<open>to\<close> pointer.\<close>

partial_function (option) strcpy :: "bytemem \<Rightarrow> u64 \<Rightarrow> u64 \<Rightarrow> (u64 \<times> bytemem) option" where
  "strcpy m t f =
     (if m f \<noteq> 0 then strcpy (m(t := m f)) (t + 1) (f + 1) else Some (t + 1, m(t := 0)))"

function strncpy_loop :: "bytemem \<Rightarrow> u64 \<Rightarrow> u64 \<Rightarrow> u64 \<Rightarrow> bytemem" where
  "strncpy_loop m d s n =
     (let m' = m(d := m s) in
      if m s = 0 then for_loop 0 (n - 1) (\<lambda>i m. m(d + 1 + i := 0)) m'
      else if n - 1 \<noteq> 0 \<and> n \<noteq> 0 then strncpy_loop m' (d + 1) (s + 1) (n - 1) else m')"
  by pat_completeness auto
termination
  by (relation "measure (\<lambda>(m, d, s, n). unat n)") (auto simp: unat_dec_less)

declare strncpy_loop.simps [simp del]

definition strncpy :: "bytemem \<Rightarrow> u64 \<Rightarrow> u64 \<Rightarrow> u64 \<Rightarrow> u64 \<times> bytemem" where
  "strncpy m dst src n = (dst, if n \<noteq> 0 then strncpy_loop m dst src n else m)"

partial_function (option) strrchr_loop :: "bytemem \<Rightarrow> u64 \<Rightarrow> c_int \<Rightarrow> u64 \<Rightarrow> u64 option" where
  "strrchr_loop m s c t =
     (if m s \<noteq> 0 then strrchr_loop m (s + 1) c (if ucast (m s) = c then s else t) else Some t)"

definition strrchr :: "bytemem \<Rightarrow> u64 \<Rightarrow> c_int \<Rightarrow> u64 option" where
  "strrchr m s c = strrchr_loop m s c 0"

subsection \<open>Strings in memory\<close>

fun cstr :: "bytemem \<Rightarrow> u64 \<Rightarrow> u8 list \<Rightarrow> bool" where
  "cstr m a [] \<longleftrightarrow> m a = 0"
| "cstr m a (x # xs) \<longleftrightarrow> x \<noteq> 0 \<and> m a = x \<and> cstr m (a + 1) xs"

lemma cstr_cong:
  "(\<And>i. i \<le> length xs \<Longrightarrow> m (a + of_nat i) = m' (a + of_nat i)) \<Longrightarrow> cstr m a xs \<longleftrightarrow> cstr m' a xs"
proof (induction xs arbitrary: a)
  case Nil
  then show ?case using Nil [of 0] by simp
next
  case (Cons x xs)
  have "m (a + 1 + of_nat i) = m' (a + 1 + of_nat i)" if "i \<le> length xs" for i
    using Cons.prems [of "Suc i"] that by (simp add: add.assoc)
  then show ?case using Cons.IH [of "a + 1"] Cons.prems [of 0] by simp
qed

lemma cstr_unique: "cstr m a xs \<Longrightarrow> cstr m a ys \<Longrightarrow> xs = ys"
proof (induction xs arbitrary: a ys)
  case Nil
  then show ?case by (cases ys) auto
next
  case (Cons x xs)
  then show ?case by (cases ys) auto
qed

lemma strlen_loop_cstr: "cstr m a xs \<Longrightarrow> strlen_loop m a = Some (a + of_nat (length xs) + 1)"
  by (induction xs arbitrary: a) (auto simp: strlen_loop.simps)

lemma strlen_cstr: "cstr m a xs \<Longrightarrow> strlen m a = Some (of_nat (length xs))"
  by (simp add: strlen_def strlen_loop_cstr)

text \<open>The specification of the comparisons: the difference at the first place the strings differ.\<close>

fun str_diff :: "u8 list \<Rightarrow> u8 list \<Rightarrow> int" where
  "str_diff [] [] = 0"
| "str_diff (x # xs) [] = uint x"
| "str_diff [] (y # ys) = - uint y"
| "str_diff (x # xs) (y # ys) = (if x = y then str_diff xs ys else uint x - uint y)"

lemma str_diff_zero: "0 \<notin> set xs \<Longrightarrow> 0 \<notin> set ys \<Longrightarrow> str_diff xs ys = 0 \<longleftrightarrow> xs = ys"
  by (induction xs ys rule: str_diff.induct) (auto simp: uint_0_iff dest: word_uint_eqI)

lemma cstr_nonzero: "cstr m a xs \<Longrightarrow> 0 \<notin> set xs"
  by (induction xs arbitrary: a) auto

lemma sint_byte_diff: "sint (ucast (a::u8) - ucast (b::u8) :: c_int) = uint a - uint b"
proof -
  have a: "0 \<le> uint a" "uint a < 256" "0 \<le> uint b" "uint b < 256"
    using uint_bounded [of a] uint_bounded [of b] by simp_all
  have s: "sint (ucast c :: c_int) = uint c" for c :: u8
  proof -
    have "unat c < 256" using unsigned_less [of c, where ?'a = nat] by simp
    then show ?thesis by (simp add: sint_c_int unat_u8_c_int)
  qed
  have "sint (ucast a - ucast b :: c_int) = signed_take_bit 31 (uint a - uint b)"
    by (simp add: sint_word_diff s)
  also have "\<dots> = uint a - uint b"
  proof (rule signed_take_bit_int_eq_self)
    have "- 2147483648 \<le> uint a - uint b" "uint a - uint b < 2147483648" using a by linarith+
    then show "- (2 ^ 31) \<le> uint a - uint b" "uint a - uint b < 2 ^ 31" by simp_all
  qed
  finally show ?thesis .
qed

lemma strcmp_cstr:
  "cstr m a xs \<Longrightarrow> cstr m b ys \<Longrightarrow> \<exists>d. strcmp m a b = Some d \<and> sint d = str_diff xs ys"
proof (induction xs ys arbitrary: a b rule: str_diff.induct)
  case 1
  then show ?case by (auto simp: strcmp.simps [of m a])
next
  case (2 x xs)
  then show ?case using sint_byte_diff [of x 0] by (auto simp: strcmp.simps [of m a])
next
  case (3 y ys)
  then show ?case using sint_byte_diff [of 0 y] by (auto simp: strcmp.simps [of m a])
next
  case (4 x xs y ys)
  then show ?case using sint_byte_diff [of x y] by (auto simp: strcmp.simps [of m a])
qed

text \<open>C30. \<open>strlen\<close> and \<open>strcmp\<close> return on NUL-terminated strings: \<open>strlen\<close> gives the length, and
  \<open>strcmp\<close> the difference of the first differing characters as a signed number, which is 0
  exactly when the two strings are equal.\<close>

theorem strlen_strcmp_correct:
  assumes "cstr m a xs" and "cstr m b ys"
  shows "strlen m a = Some (of_nat (length xs)) \<and>
         (\<exists>d. strcmp m a b = Some d \<and> sint d = str_diff xs ys \<and> (d = 0 \<longleftrightarrow> xs = ys))"
proof -
  obtain d where d: "strcmp m a b = Some d" "sint d = str_diff xs ys"
    using strcmp_cstr [OF assms] by blast
  moreover have "d = 0 \<longleftrightarrow> xs = ys"
    using str_diff_zero [OF cstr_nonzero [OF assms(1)] cstr_nonzero [OF assms(2)]] d(2)
    by (metis signed_0 signed_word_eqI sint_0)
  ultimately show ?thesis using strlen_cstr [OF assms(1)] by blast
qed

text \<open>Two strings for the instances: "ab" at 0x10 and "abc" at 0x20.\<close>

definition ex_str :: bytemem where
  "ex_str = (\<lambda>_. 0)(0x10 := 97, 0x11 := 98, 0x20 := 97, 0x21 := 98, 0x22 := 99)"

theorem strlen_strcmp_correct_witness:
  "strlen ex_str 0x10 = Some (of_nat (length [97, 98 :: u8])) \<and>
   (\<exists>d. strcmp ex_str 0x10 0x20 = Some d \<and> sint d = str_diff [97, 98] [97, 98, 99] \<and>
        (d = 0 \<longleftrightarrow> [97, 98] = [97, 98, 99 :: u8]))"
  by (rule strlen_strcmp_correct) (simp_all add: ex_str_def)

subsection \<open>Copying\<close>

lemma strcpy_cstr:
  "cstr m f xs \<Longrightarrow> \<forall>i \<le> length xs. \<forall>j \<le> length xs. t + of_nat i \<noteq> f + of_nat j \<Longrightarrow>
   length xs < 18446744073709551615 \<Longrightarrow>
   strcpy m t f = Some (t + of_nat (length xs) + 1,
     \<lambda>x. if unat (x - t) \<le> length xs then m (f + (x - t)) else m x)"
proof (induction xs arbitrary: m t f)
  case Nil
  have "(\<lambda>x. if unat (x - t) \<le> 0 then m (f + (x - t)) else m x) = m(t := 0)"
    using Nil by (auto simp: fun_eq_iff unat_eq_0)
  then show ?case using Nil by (simp add: strcpy.simps [of m t])
next
  case (Cons x xs)
  let ?m = "m(t := m f)"
  have ne: "t \<noteq> f + of_nat j" if "j \<le> Suc (length xs)" for j
    using Cons.prems(2) [rule_format, of 0 j] that by simp
  have "cstr ?m (f + 1) xs \<longleftrightarrow> cstr m (f + 1) xs"
  proof (rule cstr_cong)
    fix i assume "i \<le> length xs"
    then show "?m (f + 1 + of_nat i) = m (f + 1 + of_nat i)"
      using ne [of "Suc i"] by (simp add: add.assoc)
  qed
  then have c: "cstr ?m (f + 1) xs" using Cons.prems(1) by simp
  have d: "\<forall>i \<le> length xs. \<forall>j \<le> length xs. t + 1 + of_nat i \<noteq> f + 1 + of_nat j"
    using Cons.prems(2) by simp
  have "strcpy m t f = strcpy ?m (t + 1) (f + 1)"
    using Cons.prems(1) by (subst strcpy.simps) (auto simp del: fun_upd_apply)
  also have "\<dots> = Some (t + 1 + of_nat (length xs) + 1,
      \<lambda>x. if unat (x - (t + 1)) \<le> length xs then ?m (f + 1 + (x - (t + 1))) else ?m x)"
    using Cons.IH [OF c d] Cons.prems(3) by (simp del: fun_upd_apply)
  also have "(\<lambda>x. if unat (x - (t + 1)) \<le> length xs then ?m (f + 1 + (x - (t + 1))) else ?m x) =
      (\<lambda>y. if unat (y - t) \<le> length (x # xs) then m (f + (y - t)) else m y)"
  proof
    fix y
    show "(if unat (y - (t + 1)) \<le> length xs then ?m (f + 1 + (y - (t + 1))) else ?m y) =
        (if unat (y - t) \<le> length (x # xs) then m (f + (y - t)) else m y)"
    proof (cases "y = t")
      case True
      then have "unat (y - (t + 1)) = 18446744073709551615" by simp
      then show ?thesis using True Cons.prems(3) by simp
    next
      case False
      then have u: "Suc (unat (y - t - 1)) = unat (y - t)" by (intro unat_dec) simp
      have e: "y - (t + 1) = y - t - 1" "f + 1 + (y - (t + 1)) = f + (y - t)" by simp_all
      have "f + (y - t) \<noteq> t" if "unat (y - t) \<le> Suc (length xs)"
        using ne [OF that] by simp
      then show ?thesis unfolding e using False u by auto
    qed
  qed
  finally show ?case by (simp add: add.assoc)
qed

lemma strcpy_spec:
  assumes "cstr m f xs" and "\<forall>i \<le> length xs. \<forall>j \<le> length xs. t + of_nat i \<noteq> f + of_nat j"
    and "length xs < 18446744073709551615"
  shows "\<exists>m'. strcpy m t f = Some (t + of_nat (length xs) + 1, m') \<and> cstr m' t xs \<and> cstr m' f xs \<and>
           (\<forall>x. length xs < unat (x - t) \<longrightarrow> m' x = m x) \<and> t + of_nat (length xs) + 1 \<noteq> t"
proof -
  let ?m = "\<lambda>x. if unat (x - t) \<le> length xs then m (f + (x - t)) else m x"
  have S: "strcpy m t f = Some (t + of_nat (length xs) + 1, ?m)"
    by (rule strcpy_cstr [OF assms])
  have i: "unat (of_nat i :: u64) = i" if "i \<le> length xs" for i
    using that assms(3) by (intro unat_of_nat_u64) linarith
  have "cstr ?m t ys \<longleftrightarrow> cstr m f ys" if "length ys \<le> length xs" for ys
  proof -
    have "cstr ?m t ys \<longleftrightarrow> cstr (\<lambda>x. m (f + (x - t))) t ys"
      by (rule cstr_cong) (use i that in auto)
    also have "\<dots> \<longleftrightarrow> cstr m (f + (t - t)) ys"
    proof -
      have "cstr (\<lambda>x. m (f + (x - t))) a zs \<longleftrightarrow> cstr m (f + (a - t)) zs" for a zs
        by (induction zs arbitrary: a) (simp_all add: algebra_simps)
      then show ?thesis .
    qed
    finally show ?thesis by simp
  qed
  then have t: "cstr ?m t xs" using assms(1) by simp
  have "cstr ?m f xs \<longleftrightarrow> cstr m f xs"
  proof (rule cstr_cong)
    fix j assume j: "j \<le> length xs"
    have "\<not> unat (f + of_nat j - t) \<le> length xs"
    proof
      assume le: "unat (f + of_nat j - t) \<le> length xs"
      have "t + of_nat (unat (f + of_nat j - t)) = f + of_nat j" by simp
      then show False using assms(2) le j by blast
    qed
    then show "?m (f + of_nat j) = m (f + of_nat j)" by simp
  qed
  then have f: "cstr ?m f xs" using assms(1) by simp
  have "(of_nat (Suc (length xs)) :: u64) \<noteq> of_nat 0"
    using assms(3) by (subst of_nat_eq_u64_iff) simp_all
  then have "t + of_nat (length xs) + 1 \<noteq> t" by (simp add: add.assoc add.commute)
  then show ?thesis using S t f by (intro exI [of _ ?m]) simp
qed

text \<open>C34. \<open>strcpy\<close> copies a string with its terminator into a region that does not overlap it and
  changes nothing else; the pointer it returns is not the destination, as the C library
  specifies, but the address behind the copied terminator.\<close>

theorem strcpy_copies:
  assumes "cstr m f xs" and "\<forall>i \<le> length xs. \<forall>j \<le> length xs. t + of_nat i \<noteq> f + of_nat j"
    and "length xs < 18446744073709551615"
  shows "\<exists>m'. strcpy m t f = Some (t + of_nat (length xs) + 1, m') \<and> cstr m' t xs \<and> cstr m' f xs \<and>
           (\<forall>x. length xs < unat (x - t) \<longrightarrow> m' x = m x) \<and> t + of_nat (length xs) + 1 \<noteq> t"
  by (rule strcpy_spec [OF assms])

theorem strcpy_copies_witness:
  "\<exists>m'. strcpy ex_str 0x30 0x20 = Some (0x30 + of_nat (length [97, 98, 99 :: u8]) + 1, m') \<and>
     cstr m' 0x30 [97, 98, 99] \<and> cstr m' 0x20 [97, 98, 99] \<and>
     (\<forall>x. length [97, 98, 99 :: u8] < unat (x - 0x30) \<longrightarrow> m' x = ex_str x) \<and>
     0x30 + of_nat (length [97, 98, 99 :: u8]) + 1 \<noteq> (0x30 :: u64)"
proof (rule strcpy_copies)
  have "(of_nat (16 + i) :: u64) \<noteq> of_nat j" if "i \<le> 3" "j \<le> 3" for i j
    using that by (subst of_nat_eq_u64_iff) auto
  then show "\<forall>i \<le> length [97, 98, 99 :: u8]. \<forall>j \<le> length [97, 98, 99 :: u8].
      (0x30 :: u64) + of_nat i \<noteq> 0x20 + of_nat j"
    by (auto simp: algebra_simps)
qed (simp_all add: ex_str_def)

end
