(* ===== verification/Fds.thy ===== *)
theory Fds
  imports Heap_Safety
begin

text \<open>
  The file descriptor table of \<open>kernel/fd.c\<close>: one list of \<open>fd_table_t\<close> nodes for all processes,
  headed by \<open>kernel_struct.fd_head\<close>, each mapping a pair of process and kernel descriptor to a
  host descriptor. The loops are partial functions; \<open>delete_fd\<close> has one that does not end when no
  entry matches.
\<close>

subsection \<open>The operations\<close>

text \<open>The first loop of \<open>insert_fd\<close>: \<open>Inl\<close> is its early return, \<open>Inr (ptr, new, pid_exists)\<close> its end.\<close>

partial_function (option) insert_scan ::
  "(u64 \<Rightarrow> fd_table) \<Rightarrow> c_int \<Rightarrow> c_int \<Rightarrow> c_int \<Rightarrow> u64 \<Rightarrow> bool \<Rightarrow> (c_int + u64 \<times> u64 \<times> bool) option" where
  "insert_scan st p h k ptr pid_exists =
     (if ptr = 0 then Some (Inr (ptr, 0, pid_exists))
      else if fd_pid (st ptr) = p \<and> host_fd (st ptr) = h \<and> k_fd (st ptr) = k then Some (Inl (- EEXIST))
      else
        let pid_exists = (pid_exists \<or> fd_pid (st ptr) = p) in
        if fd_pid (st ptr) = p \<and> k <s k_fd (st ptr) then Some (Inr (ptr, ptr, pid_exists))
        else if fd_next (st ptr) \<noteq> 0 then insert_scan st p h k (fd_next (st ptr)) pid_exists
        else Some (Inr (ptr, 0, pid_exists)))"

text \<open>Its second loop, which looks for the node in front of \<open>new\<close>.\<close>

partial_function (option) insert_before :: "(u64 \<Rightarrow> fd_table) \<Rightarrow> u64 \<Rightarrow> u64 \<Rightarrow> u64 option" where
  "insert_before st new ptr =
     (if fd_next (st ptr) \<noteq> 0 \<and> new \<noteq> 0 then
        (if fd_next (st ptr) = new then Some ptr else insert_before st new (fd_next (st ptr)))
      else Some ptr)"

definition insert_fd :: "c_int \<Rightarrow> c_int \<Rightarrow> c_int \<Rightarrow> kst \<Rightarrow> (c_int \<times> kst) option" where
  "insert_fd p h k s =
     (let ptr = fd_head (ks s) in
      if ptr = 0 then do {
        (q, s) \<leftarrow> kcalloc sizeof_fd_table 1 s;
        let s = s\<lparr>ks := (ks s)\<lparr>fd_head := q\<rparr>\<rparr>;
        if q = 0 then Some (- ENOMEM, s)
        else Some (0, s\<lparr>fds := (fds s)(q := zero_fd\<lparr>fd_pid := p, host_fd := h, k_fd := 0\<rparr>)\<rparr>) }
      else do {
        r \<leftarrow> insert_scan (fds s) p h k ptr False;
        case r of Inl e \<Rightarrow> Some (e, s)
        | Inr (ptr, new, pid_exists) \<Rightarrow> do {
            ptr \<leftarrow> (if pid_exists then insert_before (fds s) new (fd_head (ks s)) else Some ptr);
            if ptr \<noteq> 0 then do {
              (target, s) \<leftarrow> kcalloc sizeof_fd_table 1 s;
              if target = 0 then Some (- ENOMEM, s)
              else
                let st = (fds s)(target := zero_fd\<lparr>fd_pid := p, host_fd := h, k_fd := k\<rparr>);
                    st = set_fd_next ptr target st;
                    st = set_fd_next target new st
                in Some (0, s\<lparr>fds := st\<rparr>) }
            else Some (0, s) } })"

text \<open>The loop of \<open>append_fd\<close>: the descriptor it settles on.\<close>

partial_function (option) append_scan :: "(u64 \<Rightarrow> fd_table) \<Rightarrow> c_int \<Rightarrow> u64 \<Rightarrow> c_int \<Rightarrow> c_int option" where
  "append_scan st p ptr new_kfd =
     (if ptr = 0 then Some new_kfd
      else if fd_pid (st ptr) = p then
        (if new_kfd + 1 <s k_fd (st ptr) then Some (new_kfd + 1)
         else append_scan st p (fd_next (st ptr)) (k_fd (st ptr)))
      else append_scan st p (fd_next (st ptr)) new_kfd)"

definition append_fd :: "c_int \<Rightarrow> c_int \<Rightarrow> kst \<Rightarrow> (c_int \<times> kst) option" where
  "append_fd p h s = do {
     new_kfd \<leftarrow> append_scan (fds s) p (fd_head (ks s)) (-1);
     if new_kfd = -1 then do { (_, s) \<leftarrow> insert_fd p h 0 s; Some (0, s) }
     else do { (_, s) \<leftarrow> insert_fd p h new_kfd s; Some (new_kfd, s) } }"

definition get_host_fd :: "c_int \<Rightarrow> c_int \<Rightarrow> kst \<Rightarrow> c_int option" where
  "get_host_fd p k s =
     map_option (\<lambda>ptr. if ptr \<noteq> 0 then host_fd (fds s ptr) else - ENOENT)
       (node_search (\<lambda>ptr. fd_pid (fds s ptr) = p \<and> k_fd (fds s ptr) = k)
          (\<lambda>ptr. fd_next (fds s ptr)) (fd_head (ks s)))"

text \<open>The search loop of \<open>delete_fd\<close>: at the last node it stays where it is.\<close>

partial_function (option) delete_scan ::
  "(u64 \<Rightarrow> fd_table) \<Rightarrow> c_int \<Rightarrow> c_int \<Rightarrow> c_int \<Rightarrow> u64 \<Rightarrow> u64 option" where
  "delete_scan st p h k ptr =
     (if ptr = 0 then Some 0
      else if fd_pid (st ptr) = p \<and> host_fd (st ptr) = h \<and> k_fd (st ptr) = k then Some ptr
      else if fd_next (st ptr) \<noteq> 0 then delete_scan st p h k (fd_next (st ptr))
      else delete_scan st p h k ptr)"

partial_function (option) delete_prev :: "(u64 \<Rightarrow> fd_table) \<Rightarrow> u64 \<Rightarrow> u64 \<Rightarrow> u64 option" where
  "delete_prev st ptr prev =
     (if prev = 0 then None
      else if fd_next (st prev) \<noteq> ptr then delete_prev st ptr (fd_next (st prev)) else Some prev)"

definition delete_fd :: "c_int \<Rightarrow> c_int \<Rightarrow> c_int \<Rightarrow> kst \<Rightarrow> (c_int \<times> kst) option" where
  "delete_fd p h k s = do {
     ptr \<leftarrow> delete_scan (fds s) p h k (fd_head (ks s));
     if ptr = 0 then Some (- ENOENT, s)
     else if ptr = fd_head (ks s) then do {
       s \<leftarrow> kfree ptr (s\<lparr>ks := (ks s)\<lparr>fd_head := fd_next (fds s ptr)\<rparr>\<rparr>);
       Some (0, s) }
     else do {
       prev \<leftarrow> delete_prev (fds s) ptr (fd_head (ks s));
       s \<leftarrow> kfree ptr (s\<lparr>fds := set_fd_next prev (fd_next (fds s ptr)) (fds s)\<rparr>);
       Some (0, s) } }"

subsection \<open>The loops on a list of entries\<close>

abbreviation fd_list :: "(u64 \<Rightarrow> fd_table) \<Rightarrow> u64 \<Rightarrow> u64 list \<Rightarrow> bool" where
  "fd_list st \<equiv> chain (\<lambda>q. fd_next (st q))"

definition fd_match :: "c_int \<Rightarrow> c_int \<Rightarrow> c_int \<Rightarrow> fd_table \<Rightarrow> bool" where
  "fd_match p h k e \<longleftrightarrow> fd_pid e = p \<and> host_fd e = h \<and> k_fd e = k"

lemma insert_scan_end:
  "fd_list st ptr xs \<Longrightarrow> xs \<noteq> [] \<Longrightarrow>
   \<forall>q \<in> set xs. fd_pid (st q) = p \<longrightarrow> \<not> k <s k_fd (st q) \<and> \<not> fd_match p h k (st q) \<Longrightarrow>
   insert_scan st p h k ptr pe = Some (Inr (last xs, 0, pe \<or> (\<exists>q \<in> set xs. fd_pid (st q) = p)))"
proof (induction xs arbitrary: ptr pe)
  case (Cons x xs)
  show ?case
    using Cons by (cases xs) (auto simp: insert_scan.simps [of st p h k x] fd_match_def Let_def)
qed simp

lemma append_scan_consecutive:
  "fd_list st ptr xs \<Longrightarrow>
   map (\<lambda>q. k_fd (st q)) (filter (\<lambda>q. fd_pid (st q) = p) xs) = map of_nat [i..<j] \<Longrightarrow> i \<le> j \<Longrightarrow>
   append_scan st p ptr (of_nat i - 1) = Some (of_nat j - 1)"
proof (induction xs arbitrary: ptr i)
  case Nil
  then have "i = j" by (cases "i = j") (auto simp: upt_conv_Cons)
  then show ?case using Nil by (simp add: append_scan.simps)
next
  case (Cons x xs)
  show ?case
  proof (cases "fd_pid (st x) = p")
    case False
    then show ?thesis using Cons by (subst append_scan.simps) simp
  next
    case True
    then have i: "i < j" using Cons.prems(2,3) by (cases "i < j") auto
    then have ij: "k_fd (st x) = of_nat i"
      "map (\<lambda>q. k_fd (st q)) (filter (\<lambda>q. fd_pid (st q) = p) xs) = map of_nat [Suc i..<j]"
      using Cons.prems(2) True by (simp_all add: upt_conv_Cons)
    have "append_scan st p ptr (of_nat i - 1) = append_scan st p (fd_next (st x)) (of_nat (Suc i) - 1)"
      using Cons.prems(1) True ij(1) by (subst append_scan.simps) simp
    then show ?thesis using Cons.IH [OF _ ij(2)] Cons.prems(1) i by simp
  qed
qed

lemma delete_scan_found:
  "fd_list st ptr (xs @ y # ys) \<Longrightarrow> \<forall>q \<in> set xs. \<not> fd_match p h k (st q) \<Longrightarrow> fd_match p h k (st y) \<Longrightarrow>
   delete_scan st p h k ptr = Some y"
proof (induction xs arbitrary: ptr)
  case Nil
  then show ?case by (subst delete_scan.simps) (simp add: fd_match_def)
next
  case (Cons x xs)
  then have n: "fd_next (st x) \<noteq> 0" "x \<noteq> 0" "ptr = x"
    "\<not> (fd_pid (st x) = p \<and> host_fd (st x) = h \<and> k_fd (st x) = k)"
    by (cases xs; auto simp: fd_match_def)+
  have "delete_scan st p h k ptr = delete_scan st p h k (fd_next (st x))"
    using n by (subst delete_scan.simps) auto
  then show ?case using Cons by simp
qed

lemma delete_scan_stuck_aux:
  "delete_scan st p h k q = Some r \<Longrightarrow> q \<in> S \<Longrightarrow>
   \<forall>x \<in> S. x \<noteq> 0 \<and> \<not> fd_match p h k (st x) \<and> (fd_next (st x) \<noteq> 0 \<longrightarrow> fd_next (st x) \<in> S) \<Longrightarrow> False"
proof (induction arbitrary: S rule: delete_scan.raw_induct [rotated, consumes 1])
  case (1 f st p h k q r)
  note q = 1(4) [rule_format, OF 1(3)]
  have n: "\<not> (fd_pid (st q) = p \<and> host_fd (st q) = h \<and> k_fd (st q) = k)" "q \<noteq> 0"
    using q by (auto simp: fd_match_def)
  show ?case
  proof (cases "fd_next (st q) = 0")
    case True
    with 1(2) n have "f st p h k q = Some r" by auto
    then show ?thesis using 1(1) 1(3,4) by blast
  next
    case False
    with 1(2) n have "f st p h k (fd_next (st q)) = Some r" by auto
    then show ?thesis using 1(1) 1(4) q False by blast
  qed
qed

lemma delete_scan_stuck:
  assumes "fd_list st ptr xs" "xs \<noteq> []" "\<forall>q \<in> set xs. \<not> fd_match p h k (st q)"
  shows "delete_scan st p h k ptr = None"
proof -
  have "ptr \<in> set xs" using assms(1,2) by (cases xs) auto
  moreover have "\<forall>x \<in> set xs. x \<noteq> 0 \<and> (fd_next (st x) \<noteq> 0 \<longrightarrow> fd_next (st x) \<in> set xs)"
    using assms(1)
  proof (induction xs arbitrary: ptr)
    case (Cons x xs)
    then show ?case by (cases xs) auto
  qed simp
  ultimately show ?thesis using delete_scan_stuck_aux [of st p h k ptr _ "set xs"] assms(3)
    by (metis (no_types, lifting) not_Some_eq)
qed

lemma delete_prev_found:
  "fd_list st ptr (xs @ y # z # zs) \<Longrightarrow> delete_prev st z ptr = Some y"
proof (induction xs arbitrary: ptr)
  case Nil
  then show ?case by (subst delete_prev.simps) auto
next
  case (Cons x xs)
  have "z \<in> set (xs @ y # z # zs)" "distinct (x # xs @ y # z # zs)"
    using chain_distinct [OF Cons.prems] by simp_all
  then have "fd_next (st x) \<noteq> z"
    using Cons.prems by (cases xs) auto
  then show ?case using Cons by (subst delete_prev.simps) auto
qed

subsection \<open>Insertion\<close>

text \<open>
  An insertion whose first loop runs to the end of the list with an entry of the process: the
  second loop stops at once at the head, because \<open>new\<close> is null, and the head is linked to the new
  entry, which has no successor.
\<close>

lemma insert_fd_after_head:
  fixes s :: kst and q :: nat
  defines "t \<equiv> (of_nat (q + 32) :: u64)"
  assumes L: "fd_list (fds s) (fd_head (ks s)) (x # xs)"
    and H: "layout (cells s) a hs 0" "heap_head (private_heap s) = of_nat a" "40 \<le> a"
    and F: "first_fit a 64 hs = Some (q, hs')" and fresh: "t \<notin> set (x # xs)"
    and ex: "\<exists>y \<in> set (x # xs). fd_pid (fds s y) = p"
    and le: "\<forall>y \<in> set (x # xs). fd_pid (fds s y) = p \<longrightarrow>
               \<not> k <s k_fd (fds s y) \<and> \<not> fd_match p h k (fds s y)"
  shows "\<exists>s'. insert_fd p h k s = Some (0, s') \<and> ks s' = ks s \<and> t \<noteq> 0 \<and>
           fds s' = (fds s)(x := (fds s x)\<lparr>fd_next := t\<rparr>,
                            t := zero_fd\<lparr>fd_pid := p, host_fd := h, k_fd := k\<rparr>) \<and>
           layout (cells s') a hs' 0 \<and> heap_head (private_heap s') = of_nat a"
proof -
  have x: "fd_head (ks s) = x" "x \<noteq> 0" using L by simp_all
  have n: "need_of 32 = 64" by (simp add: need_of_def)
  have c: "\<exists>h m b. kcalloc sizeof_fd_table 1 s = Some (of_nat (q + 32), s\<lparr>private_heap := h, cells := m, bytes := b\<rparr>) \<and>
     layout m a hs' 0 \<and> heap_head h = of_nat a \<and> (of_nat (q + 32) :: u64) \<noteq> 0"
    by (rule kcalloc_fits [OF H]) (simp_all add: F [unfolded n [symmetric]] sizeof_fd_table_def)
  obtain g m b where "kcalloc sizeof_fd_table 1 s = Some (t, s\<lparr>private_heap := g, cells := m, bytes := b\<rparr>)" "t \<noteq> 0"
    "layout m a hs' 0" "heap_head g = of_nat a"
    using c unfolding t_def by blast
  moreover have "insert_scan (fds s) p h k x False = Some (Inr (last (x # xs), 0, True))"
    using insert_scan_end [OF L _ le, of False] ex x(1) by simp
  moreover have "insert_before (fds s) 0 x = Some x" by (simp add: insert_before.simps)
  ultimately show ?thesis using x fresh
    by (simp add: insert_fd_def set_fd_next_def fun_upd_twist zero_fd_def)
qed

lemma insert_fd_empty:
  fixes s :: kst and q :: nat
  defines "t \<equiv> (of_nat (q + 32) :: u64)"
  assumes "fd_head (ks s) = 0"
    and H: "layout (cells s) a hs 0" "heap_head (private_heap s) = of_nat a" "40 \<le> a"
    and F: "first_fit a 64 hs = Some (q, hs')"
  shows "\<exists>s'. insert_fd p h k s = Some (0, s') \<and> ks s' = (ks s)\<lparr>fd_head := t\<rparr> \<and> t \<noteq> 0 \<and>
           fds s' = (fds s)(t := zero_fd\<lparr>fd_pid := p, host_fd := h, k_fd := 0\<rparr>) \<and>
           layout (cells s') a hs' 0 \<and> heap_head (private_heap s') = of_nat a"
proof -
  have n: "need_of 32 = 64" by (simp add: need_of_def)
  have c: "\<exists>h m b. kcalloc sizeof_fd_table 1 s = Some (of_nat (q + 32), s\<lparr>private_heap := h, cells := m, bytes := b\<rparr>) \<and>
     layout m a hs' 0 \<and> heap_head h = of_nat a \<and> (of_nat (q + 32) :: u64) \<noteq> 0"
    by (rule kcalloc_fits [OF H]) (simp_all add: F [unfolded n [symmetric]] sizeof_fd_table_def)
  then obtain g m b where "kcalloc sizeof_fd_table 1 s = Some (t, s\<lparr>private_heap := g, cells := m, bytes := b\<rparr>)" "t \<noteq> 0"
    "layout m a hs' 0" "heap_head g = of_nat a"
    unfolding t_def by blast
  then show ?thesis using assms(2) by (simp add: insert_fd_def)
qed

text \<open>\<open>insert_fd\<close> loses entries: a descriptor higher than all of its process goes to the second
  place of the list and every entry that followed the head is unlinked. The lookup of any of them
  then fails.\<close>

lemma insert_fd_truncates:
  fixes s :: kst and q :: nat
  defines "t \<equiv> (of_nat (q + 32) :: u64)"
  assumes "fd_list (fds s) (fd_head (ks s)) (x # xs)"
    and "layout (cells s) a hs 0" "heap_head (private_heap s) = of_nat a" "40 \<le> a"
    and "first_fit a 64 hs = Some (q, hs')" and "t \<notin> set (x # xs)"
    and "\<exists>y \<in> set (x # xs). fd_pid (fds s y) = p"
    and "\<forall>y \<in> set (x # xs). fd_pid (fds s y) = p \<longrightarrow> k_fd (fds s y) <s k"
  shows "\<exists>s'. insert_fd p h k s = Some (0, s') \<and> fd_list (fds s') (fd_head (ks s')) [x, t] \<and>
           get_host_fd p k s' = Some h \<and>
           (\<forall>p' k'. (p', k') \<noteq> (p, k) \<longrightarrow> (p', k') \<noteq> (fd_pid (fds s x), k_fd (fds s x)) \<longrightarrow>
              get_host_fd p' k' s' = Some (- ENOENT))"
proof -
  have "\<forall>y \<in> set (x # xs). fd_pid (fds s y) = p \<longrightarrow>
          \<not> k <s k_fd (fds s y) \<and> \<not> fd_match p h k (fds s y)"
    using assms(9) by (auto simp: fd_match_def word_sless_alt)
  then obtain s' where s': "insert_fd p h k s = Some (0, s')" "ks s' = ks s" and t: "t \<noteq> 0"
    and f: "fds s' = (fds s)(x := (fds s x)\<lparr>fd_next := t\<rparr>,
                            t := zero_fd\<lparr>fd_pid := p, host_fd := h, k_fd := k\<rparr>)"
    using insert_fd_after_head [OF assms(2-6) assms(7) [unfolded t_def] assms(8), of k h]
    unfolding t_def by blast
  have x: "fd_head (ks s) = x" "x \<noteq> 0" "t \<noteq> x" using assms(2,7) by auto
  have "fd_list (fds s') (fd_head (ks s')) [x, t]"
    using x t by (simp add: s' f zero_fd_def)
  moreover have "\<not> (fd_pid (fds s x) = p \<and> k_fd (fds s x) = k)"
    using assms(9) by (auto simp: word_sless_alt)
  ultimately show ?thesis using s'(1) x t
    by (intro exI [of _ s'] conjI allI impI)
      (auto simp: get_host_fd_def s'(2) f node_search.simps zero_fd_def)
qed

lemma of_nat_int_not_less:
  "i \<le> n \<Longrightarrow> n < 2147483648 \<Longrightarrow> \<not> (of_nat n :: c_int) <s of_nat i"
  by (simp add: word_sless_alt sint_uint uint_nat unat_of_nat signed_take_bit_int_eq_self
      take_bit_nat_eq_self take_bit_int_eq_self flip: of_nat_take_bit)

text \<open>When the descriptors of a process are 0 to n, \<open>append_fd\<close> hands out n again: the number it
  returns is the highest one in use, not a new one (and the insertion then drops the list behind
  the head).\<close>

lemma append_fd_reuses_last:
  fixes s :: kst and q :: nat
  defines "t \<equiv> (of_nat (q + 32) :: u64)"
  assumes "fd_list (fds s) (fd_head (ks s)) (x # xs)"
    and "layout (cells s) a hs 0" "heap_head (private_heap s) = of_nat a" "40 \<le> a"
    and "first_fit a 64 hs = Some (q, hs')" and "t \<notin> set (x # xs)"
    and "map (\<lambda>y. k_fd (fds s y)) (filter (\<lambda>y. fd_pid (fds s y) = p) (x # xs)) = map of_nat [0..<Suc n]"
    and "n < 2147483648" and "\<forall>y \<in> set (x # xs). fd_pid (fds s y) = p \<longrightarrow> host_fd (fds s y) \<noteq> h"
  shows "\<exists>s' y. append_fd p h s = Some (of_nat n, s') \<and>
           y \<in> set (x # xs) \<and> fd_pid (fds s y) = p \<and> k_fd (fds s y) = of_nat n \<and>
           fd_list (fds s') (fd_head (ks s')) [x, t]"
proof -
  have K: "k_fd (fds s z) \<in> of_nat ` {0..<Suc n}" if "z \<in> set (x # xs)" "fd_pid (fds s z) = p" for z
  proof -
    have "k_fd (fds s z) \<in> set (map (\<lambda>y. k_fd (fds s y)) (filter (\<lambda>y. fd_pid (fds s y) = p) (x # xs)))"
      unfolding set_map using that by (intro imageI) auto
    then show ?thesis unfolding assms(8) by (simp only: set_map set_upt)
  qed
  have "of_nat n \<in> set (map (\<lambda>y. k_fd (fds s y)) (filter (\<lambda>y. fd_pid (fds s y) = p) (x # xs)))"
    unfolding assms(8) by simp
  then obtain y where y: "y \<in> set (x # xs)" "fd_pid (fds s y) = p" "k_fd (fds s y) = of_nat n"
    by (auto simp only: set_map image_iff set_filter mem_Collect_eq)
  have le: "\<not> of_nat n <s k_fd (fds s z)" if zz: "z \<in> set (x # xs)" "fd_pid (fds s z) = p" for z
  proof -
    obtain i where "k_fd (fds s z) = of_nat i" "i \<le> n" using K [OF zz] by auto
    then show ?thesis using assms(9) of_nat_int_not_less [of i n] by simp
  qed
  then obtain s' where s': "insert_fd p h (of_nat n) s = Some (0, s')" "ks s' = ks s" and t: "t \<noteq> 0"
    and f: "fds s' = (fds s)(x := (fds s x)\<lparr>fd_next := t\<rparr>,
                            t := zero_fd\<lparr>fd_pid := p, host_fd := h, k_fd := of_nat n\<rparr>)"
    using insert_fd_after_head [OF assms(2-6) assms(7) [unfolded t_def], of p "of_nat n" h] y assms(10)
    unfolding t_def fd_match_def by blast
  have "append_scan (fds s) p (fd_head (ks s)) (-1) = Some (of_nat n)"
    using append_scan_consecutive [OF assms(2,8)] by simp
  moreover have "(of_nat n :: c_int) \<noteq> -1"
    using of_nat_int_not_less [of 0 n] assms(9) by auto
  ultimately have "append_fd p h s = Some (of_nat n, s')"
    by (simp add: append_fd_def s'(1))
  moreover have "fd_list (fds s') (fd_head (ks s')) [x, t]"
    using assms(2,7) t by (auto simp: s'(2) f zero_fd_def)
  ultimately show ?thesis using y by blast
qed

subsection \<open>Removal\<close>

lemma fd_next_same: "\<exists>n. e = e\<lparr>fd_next := n\<rparr>"
  by (intro exI [of _ "fd_next e"]) simp

text \<open>C33. \<open>delete_fd\<close> removes exactly the first entry with the given process, host and kernel
  descriptor, and leaves every other entry's fields as they were.\<close>

theorem delete_fd_removes:
  assumes "fd_list (fds s) (fd_head (ks s)) (xs @ y # ys)"
    and "\<forall>z \<in> set xs. \<not> fd_match p h k (fds s z)" and "fd_match p h k (fds s y)"
    and "layout (cells s) a hs 0" "heap_head (private_heap s) = of_nat a" "hs \<noteq> []"
  shows "\<exists>s'. delete_fd p h k s = Some (0, s') \<and> fd_list (fds s') (fd_head (ks s')) (xs @ ys) \<and>
           (\<forall>z. \<exists>n. fds s' z = (fds s z)\<lparr>fd_next := n\<rparr>)"
proof -
  have scan: "delete_scan (fds s) p h k (fd_head (ks s)) = Some y"
    by (rule delete_scan_found [OF assms(1-3)])
  have y: "y \<noteq> 0" using chain_nonnull [OF assms(1)] by auto
  show ?thesis
  proof (cases xs rule: rev_cases)
    case Nil
    then have hd: "fd_head (ks s) = y" and L: "fd_list (fds s) (fd_next (fds s y)) ys"
      using assms(1) by auto
    obtain m where "kfree y (s\<lparr>ks := (ks s)\<lparr>fd_head := fd_next (fds s y)\<rparr>\<rparr>) =
        Some (s\<lparr>ks := (ks s)\<lparr>fd_head := fd_next (fds s y)\<rparr>, cells := m\<rparr>)"
      using kfree_total [of "s\<lparr>ks := (ks s)\<lparr>fd_head := fd_next (fds s y)\<rparr>\<rparr>" a hs y] assms(4-6) by auto
    then show ?thesis using scan hd L y Nil
      by (auto simp: delete_fd_def fd_next_same)
  next
    case (snoc us u)
    have L: "fd_list (fds s) (fd_head (ks s)) (us @ u # y # ys)" using assms(1) snoc by simp
    have ne: "y \<noteq> fd_head (ks s)"
      using chain_distinct [OF L] L by (cases us) auto
    define st where "st = set_fd_next u (fd_next (fds s y)) (fds s)"
    obtain m where "kfree y (s\<lparr>fds := st\<rparr>) = Some (s\<lparr>fds := st, cells := m\<rparr>)"
      using kfree_total [of "s\<lparr>fds := st\<rparr>" a hs y] assms(4-6) by auto
    then have "delete_fd p h k s = Some (0, s\<lparr>fds := st, cells := m\<rparr>)"
      using scan y ne delete_prev_found [OF L] by (simp add: delete_fd_def st_def)
    moreover have "fd_list st (fd_head (ks s)) (us @ u # ys)"
      unfolding st_def by (rule fdl.unlink_after [OF L])
    moreover have "\<exists>n. st z = (fds s z)\<lparr>fd_next := n\<rparr>" for z
      using fd_next_same by (cases "z = u") (auto simp: st_def set_fd_next_def)
    ultimately show ?thesis using snoc by simp
  qed
qed

text \<open>When no entry matches and the table is not empty, \<open>delete_fd\<close> does not return the
  \<open>-ENOENT\<close> it is written for: its search loop never ends.\<close>

lemma delete_fd_diverges:
  assumes "fd_list (fds s) (fd_head (ks s)) xs" and "xs \<noteq> []"
    and "\<forall>z \<in> set xs. \<not> fd_match p h k (fds s z)"
  shows "delete_fd p h k s = None"
  by (simp add: delete_fd_def delete_scan_stuck [OF assms])

subsection \<open>Instances\<close>

text \<open>A process 5 with the kernel descriptors 0 and 1, on the heap of \<open>ex_heap\<close>.\<close>

definition ex_fds :: kst where
  "ex_fds = (ex_heap 0xFFFFF00000402000)\<lparr>fds := (\<lambda>_. zero_fd)
       (0x2000 := zero_fd\<lparr>fd_pid := 5, host_fd := 10, fd_next := 0x3000\<rparr>,
        0x3000 := zero_fd\<lparr>fd_pid := 5, host_fd := 11, k_fd := 1\<rparr>),
     ks := (ks (ex_heap 0xFFFFF00000402000))\<lparr>fd_head := 0x2000\<rparr>\<rparr>"

lemma ex_fds_list: "fd_list (fds ex_fds) (fd_head (ks ex_fds)) [0x2000, 0x3000]"
  by (simp add: ex_fds_def zero_fd_def)

lemma ex_fds_heap:
  "layout (cells ex_fds) 0xFFFFF00000400000 [(0x5000, False)] 0"
  "heap_head (private_heap ex_fds) = of_nat 0xFFFFF00000400000"
  by (simp_all add: ex_fds_def ex_heap_def)

lemma ex_fds_fit:
  "first_fit 0xFFFFF00000400000 64 [(0x5000, False)] =
     Some (0xFFFFF00000400000, [(64, True), (0x5000 - 64, False)])"
  by simp

lemma insert_fd_truncates_witness:
  "\<exists>s'. insert_fd 5 12 7 ex_fds = Some (0, s') \<and>
     fd_list (fds s') (fd_head (ks s')) [0x2000, of_nat (0xFFFFF00000400000 + 32)] \<and>
     get_host_fd 5 7 s' = Some 12 \<and>
     (\<forall>p' k'. (p', k') \<noteq> (5, 7) \<longrightarrow>
        (p', k') \<noteq> (fd_pid (fds ex_fds 0x2000), k_fd (fds ex_fds 0x2000)) \<longrightarrow>
        get_host_fd p' k' s' = Some (- ENOENT))"
  by (rule insert_fd_truncates [OF ex_fds_list ex_fds_heap _ ex_fds_fit])
    (simp_all add: ex_fds_def zero_fd_def word_sless_alt)

lemma append_fd_reuses_last_witness:
  "\<exists>s' y. append_fd 5 12 ex_fds = Some (of_nat 1, s') \<and>
     y \<in> set [0x2000, 0x3000] \<and> fd_pid (fds ex_fds y) = 5 \<and> k_fd (fds ex_fds y) = of_nat 1 \<and>
     fd_list (fds s') (fd_head (ks s')) [0x2000, of_nat (0xFFFFF00000400000 + 32)]"
  by (rule append_fd_reuses_last [OF ex_fds_list ex_fds_heap _ ex_fds_fit])
    (simp_all add: ex_fds_def zero_fd_def upt_rec)

theorem delete_fd_removes_witness:
  "\<exists>s'. delete_fd 5 11 1 ex_fds = Some (0, s') \<and>
     fd_list (fds s') (fd_head (ks s')) ([0x2000] @ []) \<and>
     (\<forall>z. \<exists>n. fds s' z = (fds ex_fds z)\<lparr>fd_next := n\<rparr>)"
  by (rule delete_fd_removes [where y = "0x3000", OF _ _ _ ex_fds_heap])
    (use ex_fds_list in simp, simp_all add: ex_fds_def zero_fd_def fd_match_def)

lemma delete_fd_diverges_witness: "delete_fd 5 11 0 ex_fds = None"
  by (rule delete_fd_diverges [OF ex_fds_list]) (simp_all add: ex_fds_def zero_fd_def fd_match_def)

end
