(* ===== verification/Uart.thy ===== *)
theory Uart
  imports Prelude
begin

text \<open>
  The drivers of the two PL011 UARTs (\<open>kernel/uart.c\<close> for the console, \<open>kernel/uart_syscall.c\<close>
  for the port on which requests go to the VMM). The two files are copies of each other. The device
  is a parameter: what a read of the flag register returns and what a write of the data register
  does. A transmitter that stays full makes the polling loop run for ever: no result.
\<close>

subsection \<open>Registers\<close>

definition UART_RSR :: u64 where "UART_RSR = 0x04"
definition UART_BRD :: u64 where "UART_BRD = 0x24"
definition UART_FBRD :: u64 where "UART_FBRD = 0x28"
definition UART_LCRH :: u64 where "UART_LCRH = 0x2c"
definition UART_CR :: u64 where "UART_CR = 0x30"
definition UART_BASE :: u64 where "UART_BASE = 0x9000000"
definition UART_SYSCALL_BASE :: u64 where "UART_SYSCALL_BASE = 0x9001000"
definition UART_FREQUENCY :: int where "UART_FREQUENCY = 100 * 1000000"
definition UART_BAUDRATE :: int where "UART_BAUDRATE = 230000"

definition CalcBaudRateInt :: "int \<Rightarrow> int \<Rightarrow> int" where
  "CalcBaudRateInt baudrate freq = freq div (16 * baudrate)"

definition CalcBaudRateFraq :: "int \<Rightarrow> int \<Rightarrow> int" where
  "CalcBaudRateFraq baudrate freq = ((freq mod (16 * baudrate)) * 64 + 8 * freq) div (16 * freq)"

text \<open>The line control and control registers as their bit fields lay them out.\<close>

record uart_lcrh_reg =
  STP2 :: bool
  WLEN :: u16

record uart_cr_reg =
  uarten :: bool
  txe :: bool
  rxe :: bool

definition lcrh_value :: "uart_lcrh_reg \<Rightarrow> u16" where
  "lcrh_value r = push_bit 3 (of_bool (STP2 r)) OR push_bit 5 (WLEN r AND 3)"

definition cr_value :: "uart_cr_reg \<Rightarrow> u16" where
  "cr_value r = of_bool (uarten r) OR push_bit 8 (of_bool (txe r)) OR push_bit 9 (of_bool (rxe r))"

text \<open>The stores of \<open>uart_init\<close>, in order: the \<open>clear\<close> byte of the status register is its second.\<close>

definition uart_init :: "u64 \<Rightarrow> (u64 \<times> u16) list" where
  "uart_init base =
     (let int_baud = CalcBaudRateInt UART_BAUDRATE UART_FREQUENCY;
          frac_baud = CalcBaudRateFraq UART_BAUDRATE UART_FREQUENCY;
          control_reg = \<lparr>uarten = True, txe = True, rxe = True\<rparr>;
          lcrh_reg = \<lparr>STP2 = False, WLEN = 3\<rparr>
      in [(base + UART_RSR + 1, 0), (base + UART_LCRH, lcrh_value lcrh_reg),
          (base + UART_BRD, word_of_int int_baud), (base + UART_FBRD, word_of_int frac_baud AND 0x3F),
          (base + UART_CR, cr_value control_reg)])"

definition get_uart_base :: "u64 \<Rightarrow> u64" where
  "get_uart_base shared = UART_BASE OR shared"

definition get_uart_syscall_base :: "u64 \<Rightarrow> u64" where
  "get_uart_syscall_base shared = UART_SYSCALL_BASE OR shared"

subsection \<open>Transmission and reception\<close>

text \<open>
  \<open>read_flags\<close> is a read of the flag register, \<open>put\<close> a write and \<open>take\<close> a read of the data register;
  \<open>put\<close> has no result when the write ends the machine.
\<close>

record 'd uart_port =
  read_flags :: "'d \<Rightarrow> u16 \<times> 'd"
  put :: "u8 \<Rightarrow> 'd \<Rightarrow> 'd option"
  take_byte :: "'d \<Rightarrow> u8 \<times> 'd"

definition TXFF :: "u16 \<Rightarrow> bool" where "TXFF f = bit f 5"
definition RXFE :: "u16 \<Rightarrow> u8" where "RXFE f = of_bool (bit f 4)"

partial_function (option) uart_send_byte :: "'d uart_port \<Rightarrow> u8 \<Rightarrow> 'd \<Rightarrow> (u8 \<times> 'd) option" where
  "uart_send_byte port c d =
     (let (f, d) = read_flags port d in
      if \<not> TXFF f then do { d \<leftarrow> put port c d; Some (1, d) } else uart_send_byte port c d)"

definition uart_has_char :: "'d uart_port \<Rightarrow> 'd \<Rightarrow> u8 \<times> 'd" where
  "uart_has_char port d = (let (f, d) = read_flags port d in (RXFE f, d))"

partial_function (option) uart_get_byte :: "'d uart_port \<Rightarrow> 'd \<Rightarrow> (u8 \<times> 'd) option" where
  "uart_get_byte port d =
     (let (h, d) = uart_has_char port d in
      if h = 0 then uart_get_byte port d else Some (take_byte port d))"

text \<open>The bytes of the array from index \<open>count\<close> on; the result is the number sent.\<close>

fun uart_send_byte_array :: "'d uart_port \<Rightarrow> u8 list \<Rightarrow> nat \<Rightarrow> 'd \<Rightarrow> (nat \<times> 'd) option" where
  "uart_send_byte_array port [] count d = Some (count, d)"
| "uart_send_byte_array port (c # cs) count d = do {
     (r, d) \<leftarrow> uart_send_byte port c d;
     if r = 0 then Some (count, d) else uart_send_byte_array port cs (count + 1) d }"

definition u64_bytes :: "u64 \<Rightarrow> u8 list" where
  "u64_bytes v = map (\<lambda>i. ucast (drop_bit (8 * i) v)) [0..<8]"

definition uart_syscall_write :: "'d uart_port \<Rightarrow> u64 \<Rightarrow> 'd \<Rightarrow> 'd option" where
  "uart_syscall_write port v d = map_option snd (uart_send_byte_array port (u64_bytes v) 0 d)"

subsection \<open>Ports that take what they are given\<close>

fun push_all :: "(u8 \<Rightarrow> 'd \<Rightarrow> 'd option) \<Rightarrow> u8 list \<Rightarrow> 'd \<Rightarrow> 'd option" where
  "push_all push [] d = Some d"
| "push_all push (c # cs) d = do { d \<leftarrow> push c d; push_all push cs d }"

text \<open>A port that is never full and whose data register accepts each byte \<open>c\<close> with \<open>push c\<close>.\<close>

locale ready_port =
  fixes port :: "'d uart_port"
    and push :: "u8 \<Rightarrow> 'd \<Rightarrow> 'd option"
  assumes not_full: "read_flags port d = (f, d') \<Longrightarrow> \<not> TXFF f \<and> d' = d"
    and put_push: "put port c d = push c d"
begin

lemma send_byte: "uart_send_byte port c d = map_option (Pair 1) (push c d)"
  using not_full [of d] by (subst uart_send_byte.simps)
    (auto simp: put_push map_option_case split: prod.splits option.splits)

lemma send_array: "uart_send_byte_array port cs n d = map_option (Pair (n + length cs)) (push_all push cs d)"
proof (induction cs arbitrary: n d)
  case (Cons c cs)
  then show ?case by (cases "push c d") (simp_all add: send_byte)
qed simp

lemma write_all: "uart_syscall_write port v d = push_all push (u64_bytes v) d"
  by (simp add: uart_syscall_write_def send_array option.map_comp comp_def option.map_ident)

end

text \<open>A port that takes every byte and lets nothing be seen of it.\<close>

definition quiet_port :: "'d uart_port" where
  "quiet_port = \<lparr>read_flags = (\<lambda>s. (0, s)), put = (\<lambda>_ s. Some s), take_byte = (\<lambda>s. (0, s))\<rparr>"

interpretation quiet: ready_port quiet_port "\<lambda>_. Some"
  by unfold_locales (auto simp: quiet_port_def TXFF_def)

lemma quiet_sends: "uart_send_byte_array quiet_port cs n s = Some (n + length cs, s)"
proof -
  have "push_all (\<lambda>_. Some) cs s = Some s" for cs :: "u8 list" and s :: 'a by (induction cs) simp_all
  then show ?thesis by (simp add: quiet.send_array)
qed

lemma u64_bytes_eq:
  "u64_bytes v = [ucast v, ucast (drop_bit 8 v), ucast (drop_bit 16 v), ucast (drop_bit 24 v),
     ucast (drop_bit 32 v), ucast (drop_bit 40 v), ucast (drop_bit 48 v), ucast (drop_bit 56 v)]"
  by (simp add: u64_bytes_def upt_rec)

text \<open>The little-endian value of a list of bytes, as the VMM reads its buffer.\<close>

fun le_value :: "u8 list \<Rightarrow> u64" where
  "le_value [] = 0"
| "le_value (b # bs) = ucast b OR push_bit 8 (le_value bs)"

lemma bit_le_value:
  "n < 64 \<Longrightarrow> bit (le_value bs) n \<longleftrightarrow> n div 8 < length bs \<and> bit (bs ! (n div 8)) (n mod 8)"
proof (induction bs arbitrary: n)
  case (Cons b bs)
  show ?case
  proof (cases "n < 8")
    case True
    then show ?thesis by (simp add: bit_simps)
  next
    case False
    then have "n div 8 = Suc ((n - 8) div 8)" "(n - 8) mod 8 = n mod 8"
      by (simp_all add: le_div_geq le_mod_geq)
    moreover have "\<not> bit (ucast b :: u64) n" using False by (auto simp: bit_simps dest: bit_imp_le_length)
    ultimately show ?thesis using Cons.IH [of "n - 8"] Cons.prems False
      by (simp add: bit_or_iff bit_push_bit_iff)
  qed
qed simp

lemma le_value_u64_bytes: "le_value (u64_bytes v) = v"
proof (rule bit_word_eqI)
  fix n assume n: "n < LENGTH(64)"
  then have "n div 8 < 8" by simp
  moreover have "8 * (n div 8) + n mod 8 = n" by simp
  ultimately show "bit (le_value (u64_bytes v)) n = bit v n"
    using n by (simp add: bit_le_value u64_bytes_def bit_ucast_iff bit_drop_bit_eq)
qed

end
