(* ===== verification/Hypercall.thy ===== *)
theory Hypercall
  imports Heap Uart
begin

text \<open>
  The way out to the VMM (\<open>kernel/hypercall.c\<close>, and the globals of \<open>kernel/start.c\<close> it reads). In the
  I/O mode, the default, a request is a block of seven words on the shared heap, whose physical
  address goes byte by byte to the system call port; the VMM answers in the block's first word. In
  the other mode it is an \<open>hvc\<close> instruction. The machine under the kernel is a parameter:
  the address translation unit, the \<open>hvc\<close> instruction, the port and the console. The constant
  progress messages that most functions write to the console are left out.
\<close>

record machine =
  mmu :: "kst \<Rightarrow> at_unit"
  hvc :: "u64 \<Rightarrow> u64 list \<Rightarrow> kst \<Rightarrow> (u64 \<times> kst) option"
  sys_port :: "kst uart_port"
  con_port :: "kst uart_port"

subsection \<open>Codes (hypercall.h)\<close>

definition HVC_BASE :: u64 where "HVC_BASE = 0x8000"
definition HVC_OPEN :: u64 where "HVC_OPEN = HVC_BASE OR 1"
definition HVC_READ :: u64 where "HVC_READ = HVC_BASE OR 2"
definition HVC_WRITE :: u64 where "HVC_WRITE = HVC_BASE OR 3"
definition HVC_LSEEK :: u64 where "HVC_LSEEK = HVC_BASE OR 4"
definition HVC_CLOSE :: u64 where "HVC_CLOSE = HVC_BASE OR 5"
definition HVC_EXIT :: u64 where "HVC_EXIT = HVC_BASE OR 6"
definition HVC_SYSCALL_HV :: c_int where "HVC_SYSCALL_HV = 0"
definition HVC_SYSCALL_IO :: c_int where "HVC_SYSCALL_IO = 1"

lemmas hvc_codes = HVC_BASE_def HVC_OPEN_def HVC_READ_def HVC_WRITE_def HVC_LSEEK_def
  HVC_CLOSE_def HVC_EXIT_def

subsection \<open>Globals\<close>

definition set_hypercall_mode :: "c_int \<Rightarrow> kst \<Rightarrow> kst" where
  "set_hypercall_mode new_mode s = s\<lparr>hc_mode := 0x11 AND new_mode\<rparr>"

definition get_hypercall_mode :: "kst \<Rightarrow> c_int" where "get_hypercall_mode s = hc_mode s"

definition get_shared_bit :: "kst \<Rightarrow> u64" where "get_shared_bit s = shared_bit s"

text \<open>\<open>check_init_features\<close> reads a feature register but always takes the realm branch.\<close>

definition check_init_features :: "kst \<Rightarrow> kst" where
  "check_init_features s = s\<lparr>is_realm := 1, shared_bit := push_bit 32 1\<rparr>"

definition get_is_realm :: "kst \<Rightarrow> c_int" where "get_is_realm s = ucast (is_realm s)"

subsection \<open>Requests\<close>

text \<open>The seven stores of \<open>io_hypercall\<close> into its block.\<close>

definition io_block :: "u64 \<Rightarrow> u64 list \<Rightarrow> wordmem \<Rightarrow> wordmem" where
  "io_block io_call ws m =
     fold (\<lambda>i m. m(io_call + 8 * of_nat i := ws ! i)) [0..<length ws] m"

text \<open>The test \<open>io_call < 0\<close> on the pointer is never true; a null pointer is dereferenced.\<close>

definition io_hypercall ::
  "machine \<Rightarrow> u64 \<Rightarrow> u64 \<Rightarrow> u64 \<Rightarrow> u64 \<Rightarrow> u64 \<Rightarrow> u64 \<Rightarrow> u64 \<Rightarrow> kst \<Rightarrow> (u64 \<times> kst) option" where
  "io_hypercall env hvc_code arg0 arg1 arg2 arg3 arg4 arg5 s = do {
     (io_call, s) \<leftarrow> scalloc 8 7 s;
     if io_call = 0 then None
     else
       let s = s\<lparr>cells := io_block io_call [hvc_code, arg0, arg1, arg2, arg3, arg4, arg5] (cells s)\<rparr>;
           address = get_physical_address (mmu env s) io_call;
           address = address AND NOT (get_shared_bit s)
       in do {
         s \<leftarrow> uart_syscall_write (sys_port env) address s;
         let ret_val = cells s io_call in do {
         s \<leftarrow> sfree io_call s;
         Some (ret_val, s) } } }"

text \<open>The functions \<open>hypercall_open\<close> .. \<open>hypercall_exit\<close> of the macro: the arguments are in x0 to x5.\<close>

definition hypercall_macro ::
  "machine \<Rightarrow> u64 \<Rightarrow> u64 \<Rightarrow> u64 \<Rightarrow> u64 \<Rightarrow> u64 \<Rightarrow> u64 \<Rightarrow> u64 \<Rightarrow> kst \<Rightarrow> (u64 \<times> kst) option" where
  "hypercall_macro env code arg0 arg1 arg2 arg3 arg4 arg5 s =
     hvc env code [arg0, arg1, arg2, arg3, arg4, arg5] s"

definition hvc_hypercall ::
  "machine \<Rightarrow> u64 \<Rightarrow> u64 \<Rightarrow> u64 \<Rightarrow> u64 \<Rightarrow> u64 \<Rightarrow> u64 \<Rightarrow> u64 \<Rightarrow> kst \<Rightarrow> (u64 \<times> kst) option" where
  "hvc_hypercall env hvc_code arg0 arg1 arg2 arg3 arg4 arg5 s =
     (if hvc_code = HVC_OPEN then hypercall_macro env HVC_OPEN arg0 arg1 arg1 arg3 arg4 arg5 s
      else if hvc_code = HVC_READ then hypercall_macro env HVC_READ arg0 arg1 arg1 arg3 arg4 arg5 s
      else if hvc_code = HVC_WRITE then hypercall_macro env HVC_WRITE arg0 arg1 arg1 arg3 arg4 arg5 s
      else if hvc_code = HVC_LSEEK then hypercall_macro env HVC_LSEEK arg0 arg1 arg1 arg3 arg4 arg5 s
      else if hvc_code = HVC_CLOSE then hypercall_macro env HVC_CLOSE arg0 arg1 arg1 arg3 arg4 arg5 s
      else if hvc_code = HVC_EXIT then hypercall_macro env HVC_EXIT arg0 arg1 arg1 arg3 arg4 arg5 s
      else Some (to_u64 (- EINVAL), s))"

definition hvc_call ::
  "machine \<Rightarrow> u64 \<Rightarrow> u64 \<Rightarrow> u64 \<Rightarrow> u64 \<Rightarrow> u64 \<Rightarrow> u64 \<Rightarrow> u64 \<Rightarrow> kst \<Rightarrow> (u64 \<times> kst) option" where
  "hvc_call env hvc_code arg0 arg1 arg2 arg3 arg4 arg5 s =
     (if hc_mode s = HVC_SYSCALL_HV
      then hvc_hypercall env hvc_code arg0 arg1 arg2 arg3 arg4 arg5 s
      else io_hypercall env hvc_code arg0 arg1 arg2 arg3 arg4 arg5 s)"

definition hvc_call_exit :: "machine \<Rightarrow> u64 \<Rightarrow> kst \<Rightarrow> kst option" where
  "hvc_call_exit env reason s = map_option snd (hvc_call env HVC_EXIT reason 0 0 0 0 0 s)"

definition hvc_call_exit_fatal :: "machine \<Rightarrow> u64 \<Rightarrow> kst \<Rightarrow> kst option" where
  "hvc_call_exit_fatal env reason s = map_option snd (hvc_call env HVC_EXIT reason 0 0 0 0 0 s)"

text \<open>\<open>crash\<close> of \<open>handler.c\<close>: when the VMM answers it instead of ending the machine, the caller goes on.\<close>

definition crash :: "machine \<Rightarrow> kst \<Rightarrow> kst option" where
  "crash env s = hvc_call_exit_fatal env (-1) s"

subsection \<open>What reaches the VMM\<close>

lemma io_block_cell:
  assumes "j < length ws" "length ws \<le> 16"
  shows "io_block a ws m (a + 8 * of_nat j) = ws ! j"
proof -
  have inj: "a + 8 * of_nat i = a + 8 * of_nat j \<longleftrightarrow> i = j" if "i < 16" "j < 16" for i j :: nat
  proof -
    have "unat (8 * of_nat i :: u64) = 8 * i" "unat (8 * of_nat j :: u64) = 8 * j"
      using that by (simp_all add: unat_word_ariths unat_of_nat)
    then show ?thesis by (metis add_left_cancel mult_left_cancel zero_neq_numeral)
  qed
  have "fold (\<lambda>i m. m(a + 8 * of_nat i := ws ! i)) [0..<k] m (a + 8 * of_nat j) =
        (if j < k then ws ! j else m (a + 8 * of_nat j))" if "k \<le> 16" for k
    using that
  proof (induction k)
    case (Suc k)
    then show ?case using inj [of k j] assms by (auto simp: less_Suc_eq)
  qed simp
  then show ?thesis using assms by (simp add: io_block_def)
qed

end
