(* ===== verification/Vmm.thy ===== *)
theory Vmm
  imports Hypercall Heap_Safety
begin

text \<open>
  The other side of the system call port: the part of the VMM (\<open>src/main.rs\<close>) that collects the
  bytes of a request, reads the block the kernel prepared and calls the C library of the host. The C
  library is a parameter, and so is \<open>view\<close>, which sends an address of the VMM to the kernel
  address of the same memory. \<open>None\<close> is the end of the VMM, or a panic.
\<close>

record libc =
  lib_open :: "u64 \<Rightarrow> c_int \<Rightarrow> c_int \<Rightarrow> kst \<Rightarrow> c_int"
  lib_read :: "c_int \<Rightarrow> u64 \<Rightarrow> u64 \<Rightarrow> kst \<Rightarrow> u64 \<times> kst"
  lib_write :: "c_int \<Rightarrow> u64 \<Rightarrow> u64 \<Rightarrow> kst \<Rightarrow> u64"
  lib_lseek :: "c_int \<Rightarrow> u64 \<Rightarrow> c_int \<Rightarrow> u64"
  lib_close :: "c_int \<Rightarrow> c_int"

subsection \<open>Requests (main.rs)\<close>

text \<open>
  \<open>hypercall_read\<close>: the loop counts down \<open>remaining\<close>; at the end of a file, where the library
  returns 0, it never ends.
\<close>

partial_function (option) vmm_read_loop ::
  "libc \<Rightarrow> c_int \<Rightarrow> u64 \<Rightarrow> u64 \<Rightarrow> u64 \<Rightarrow> u64 \<Rightarrow> kst \<Rightarrow> (u64 \<times> kst) option" where
  "vmm_read_loop lib fdn buf len total_read remaining s =
     (if remaining = 0 then Some (total_read, s)
      else
        let (result, s) = lib_read lib fdn (buf + total_read) remaining s in
        if result = -1 then Some (if remaining < len then len - remaining else result, s)
        else vmm_read_loop lib fdn buf len (total_read + result) (remaining - result) s)"

definition vmm_hypercall_read :: "libc \<Rightarrow> c_int \<Rightarrow> u64 \<Rightarrow> u64 \<Rightarrow> kst \<Rightarrow> (u64 \<times> kst) option" where
  "vmm_hypercall_read lib fdn buf len s = vmm_read_loop lib fdn buf len 0 len s"

text \<open>\<open>hypercall_write\<close>: an error is unwrapped by the caller, a panic.\<close>

partial_function (option) vmm_write_loop ::
  "libc \<Rightarrow> c_int \<Rightarrow> u64 \<Rightarrow> u64 \<Rightarrow> u64 \<Rightarrow> kst \<Rightarrow> u64 option" where
  "vmm_write_loop lib fdn buf_ptr len count s =
     (if len = 0 then Some count
      else
        let ret = lib_write lib fdn buf_ptr (min len 0x7FFFFFFFFFFFFFFF) s in
        if ret <s 0 then None
        else if buf_ptr + ret = 0 then None
        else vmm_write_loop lib fdn (buf_ptr + ret) (len - ret) count s)"

definition vmm_hypercall_write :: "libc \<Rightarrow> c_int \<Rightarrow> u64 \<Rightarrow> u64 \<Rightarrow> kst \<Rightarrow> u64 option" where
  "vmm_hypercall_write lib fdn buf len s =
     (if buf = 0 then None else vmm_write_loop lib fdn buf len len s)"

definition handle_hypercall :: "libc \<Rightarrow> (u64 \<Rightarrow> u64) \<Rightarrow> u64 \<Rightarrow> kst \<Rightarrow> kst option" where
  "handle_hypercall lib view address s =
     (let hvc_args = (\<lambda>i. cells s (view address + 8 * i));
          answer = (\<lambda>r s. s\<lparr>cells := (cells s)(view address := r)\<rparr>)
      in if hvc_args 0 = HVC_OPEN then
           Some (answer (to_u64 (lib_open lib (hvc_args 1) (ucast (hvc_args 2)) (ucast (hvc_args 3)) s)) s)
         else if hvc_args 0 = HVC_READ then do {
           (r, s) \<leftarrow> vmm_hypercall_read lib (ucast (hvc_args 1)) (hvc_args 2) (hvc_args 3) s;
           Some (answer r s) }
         else if hvc_args 0 = HVC_WRITE then do {
           r \<leftarrow> vmm_hypercall_write lib (ucast (hvc_args 1)) (hvc_args 2) (hvc_args 3) s;
           Some (answer r s) }
         else if hvc_args 0 = HVC_LSEEK then
           Some (answer (lib_lseek lib (ucast (hvc_args 1)) (hvc_args 2) (ucast (hvc_args 3))) s)
         else if hvc_args 0 = HVC_CLOSE then
           Some (answer (to_u64 (lib_close lib (ucast (hvc_args 2)))) s)
         else if hvc_args 0 = HVC_EXIT then None
         else Some (answer (-1) s))"

text \<open>
  The run loop of the VMM for a store to the data register of the system call port: after the eighth
  byte the buffer is read as a little-endian address, the request handled and the buffer cleared.
\<close>

definition vmm_put :: "libc \<Rightarrow> (u64 \<Rightarrow> u64) \<Rightarrow> u8 \<Rightarrow> kst \<Rightarrow> kst option" where
  "vmm_put lib view c s =
     (let buf = requests s @ [c]; s = s\<lparr>requests := buf\<rparr> in
      if length buf < 8 then Some s
      else do { s \<leftarrow> handle_hypercall lib view (le_value (take 8 buf)) s; Some (s\<lparr>requests := []\<rparr>) })"

definition vmm_port :: "libc \<Rightarrow> (u64 \<Rightarrow> u64) \<Rightarrow> kst uart_port" where
  "vmm_port lib view = \<lparr>read_flags = (\<lambda>s. (0, s)), put = vmm_put lib view, take_byte = (\<lambda>s. (0, s))\<rparr>"

interpretation vp: ready_port "vmm_port lib view" "vmm_put lib view"
  by unfold_locales (auto simp: vmm_port_def TXFF_def)

lemma bind_Some_map: "Option.bind x (\<lambda>y. Some (f y)) = map_option f x"
  by (cases x) simp_all

lemma push_all_Nil: "push_all push [] = Some"
  by (rule ext) simp

lemma push_all_request:
  "requests s = [] \<Longrightarrow>
   push_all (vmm_put lib view) (u64_bytes v) s =
     map_option (\<lambda>s. s\<lparr>requests := []\<rparr>)
       (handle_hypercall lib view v (s\<lparr>requests := u64_bytes v\<rparr>))"
  using le_value_u64_bytes [of v] unfolding u64_bytes_eq
  by (simp add: vmm_put_def bind_Some_map push_all_Nil option.map_ident Let_def)

lemma port_write:
  "requests s = [] \<Longrightarrow>
   uart_syscall_write (vmm_port lib view) v s =
     map_option (\<lambda>s. s\<lparr>requests := []\<rparr>)
       (handle_hypercall lib view v (s\<lparr>requests := u64_bytes v\<rparr>))"
  by (simp add: vp.write_all push_all_request)

subsection \<open>A request from end to end\<close>

text \<open>
  The shared heap can take the block of a request at \<open>p + 32\<close>, and the VMM sees that memory at the
  address that the kernel computes.
\<close>

definition request_ready ::
  "machine \<Rightarrow> libc \<Rightarrow> (u64 \<Rightarrow> u64) \<Rightarrow> nat \<Rightarrow> (nat \<times> bool) list \<Rightarrow> nat \<Rightarrow> (nat \<times> bool) list \<Rightarrow> kst \<Rightarrow> bool" where
  "request_ready env lib view a xs p ys s \<longleftrightarrow>
     sys_port env = vmm_port lib view \<and> requests s = [] \<and> hc_mode s = HVC_SYSCALL_IO \<and>
     layout (cells s) a xs 0 \<and> heap_head (shared_heap s) = of_nat a \<and> 40 \<le> a \<and>
     first_fit a 88 xs = Some (p, ys) \<and>
     (\<forall>s'. shared_bit s' = shared_bit s \<longrightarrow>
        view (get_physical_address (mmu env s') (of_nat (p + 32)) AND NOT (shared_bit s)) = of_nat (p + 32))"

lemma io_block_outside: "(\<forall>i < length ws. d \<noteq> q + 8 * of_nat i) \<Longrightarrow> io_block q ws m d = m d"
proof -
  assume d: "\<forall>i < length ws. d \<noteq> q + 8 * of_nat i"
  have "fold (\<lambda>i m. m(q + 8 * of_nat i := ws ! i)) [0..<k] m d = m d" if "k \<le> length ws" for k
    using that
  proof (induction k)
    case (Suc k)
    then show ?case using d by simp
  qed simp
  then show ?thesis by (simp add: io_block_def)
qed

text \<open>Stores into the payload of a chunk leave the layout alone.\<close>

lemma layout_payload:
  assumes L: "layout m a (bs @ (n, u) # cs) e"
    and out: "\<And>c. c < 18446744073709551616 \<Longrightarrow> c < a + extent bs + 32 \<or> a + extent bs + n \<le> c \<Longrightarrow>
                m' (of_nat c) = m (of_nat c)"
  shows "layout m' a (bs @ (n, u) # cs) e"
proof -
  note c = layout_chunk [OF L]
  have b: "a + extent bs + n + extent cs < 18446744073709551616"
    using layout_bound [OF L] by (simp add: add.assoc)
  have "layout m' a bs (of_nat (a + extent bs))"
    by (rule layout_cong [of a bs m]) (use L b in \<open>auto simp: layout_append intro!: out [symmetric]\<close>)
  moreover have "layout m' (a + extent bs + n) cs e"
    by (rule layout_cong [of _ cs m]) (use L b in \<open>auto simp: layout_append intro!: out [symmetric]\<close>)
  moreover have "m' (of_nat (a + extent bs)) = m (of_nat (a + extent bs))"
    "m' (of_nat (a + extent bs + 8)) = m (of_nat (a + extent bs + 8))"
    "m' (of_nat (a + extent bs + 24)) = m (of_nat (a + extent bs + 24))"
    by (rule out; use c(3) b in linarith)+
  ultimately show ?thesis using c by (simp add: layout_append del: of_nat_add)
qed

lemma layout_request:
  assumes F: "first_fit a 88 xs = Some (p, ys)" and L: "layout m a ys 0"
    and out: "\<And>c. c < 18446744073709551616 \<Longrightarrow> c < p + 32 \<or> p + 88 \<le> c \<Longrightarrow> m' (of_nat c) = m (of_nat c)"
  shows "layout m' a ys 0"
proof -
  obtain bs n cs where f: "p = a + extent bs" "88 \<le> n"
    "ys = bs @ (if 88 + 40 < n then [(88, True), (n - 88, False)] else [(n, True)]) @ cs"
    using first_fit_Some [OF F] by blast
  define k ds where "k = (if 128 < n then 88 else n)" and "ds = (if 128 < n then (n - 88, False) # cs else cs)"
  have y: "ys = bs @ (k, True) # ds" by (simp add: f(3) k_def ds_def)
  have "layout m' a (bs @ (k, True) # ds) 0"
  proof (rule layout_payload [OF L [unfolded y]])
    fix c :: nat
    have "88 \<le> k" using f(2) by (simp add: k_def)
    moreover assume "c < 18446744073709551616" "c < a + extent bs + 32 \<or> a + extent bs + k \<le> c"
    ultimately show "m' (of_nat c) = m (of_nat c)" using f(1) by (intro out) auto
  qed
  then show ?thesis by (simp add: y)
qed

lemma block_cells:
  assumes "length ws = 7" "c < 18446744073709551616" "c < p + 32 \<or> p + 88 \<le> c" "p + 88 < 18446744073709551616"
  shows "io_block (of_nat (p + 32)) ws m (of_nat c) = m (of_nat c)"
proof (rule io_block_outside, intro allI impI)
  fix i assume "i < length ws"
  then have "p + 32 + 8 * i \<noteq> c" "p + 32 + 8 * i < 18446744073709551616" using assms by auto
  then have "(of_nat c :: u64) \<noteq> of_nat (p + 32 + 8 * i)" using assms(2) by (subst of_nat_eq_u64_iff) auto
  then show "(of_nat c :: u64) \<noteq> of_nat (p + 32) + 8 * of_nat i" by simp
qed

lemma io_request:
  fixes p :: nat
  defines "q \<equiv> (of_nat (p + 32) :: u64)"
  assumes R: "request_ready env lib view a xs p ys s"
  shows "\<exists>adr s1. view adr = q \<and> layout (cells s1) a ys 0 \<and> heap_head (shared_heap s1) = of_nat a \<and>
     (\<forall>i < 7. cells s1 (q + 8 * of_nat i) = [code, a0, a1, a2, a3, a4, a5] ! i) \<and>
     ks s1 = ks s \<and> fds s1 = fds s \<and> procs s1 = procs s \<and>
     hvc_call env code a0 a1 a2 a3 a4 a5 s = do {
       s2 \<leftarrow> handle_hypercall lib view adr s1;
       s3 \<leftarrow> sfree q (s2\<lparr>requests := []\<rparr>);
       Some (cells s2 q, s3) }"
proof -
  note r = R [unfolded request_ready_def]
  have H: "layout (cells s) a xs 0" "heap_head (shared_heap s) = of_nat a" "40 \<le> a"
    "first_fit a 88 xs = Some (p, ys)" using r by auto
  have pb: "p + 88 < 18446744073709551616"
  proof -
    obtain bs n cs where x: "xs = bs @ (n, False) # cs" "p = a + extent bs" "88 \<le> n"
      using first_fit_Some [OF H(4)] by blast
    show ?thesis using layout_chunk(6) [OF H(1) [unfolded x(1)]] x(2,3) by linarith
  qed
  have "\<exists>h m b. scalloc 8 7 s = Some (of_nat (p + 32), s\<lparr>shared_heap := h, cells := m, bytes := b\<rparr>) \<and>
     layout m a ys 0 \<and> heap_head h = of_nat a \<and> (of_nat (p + 32) :: u64) \<noteq> 0"
    by (rule scalloc_fits [OF H(1-3)]) (simp_all add: need_of_def H(4))
  then obtain h m b where c: "scalloc 8 7 s = Some (q, s\<lparr>shared_heap := h, cells := m, bytes := b\<rparr>)"
    "layout m a ys 0" "heap_head h = of_nat a" "q \<noteq> 0"
    unfolding q_def by blast
  let ?ws = "[code, a0, a1, a2, a3, a4, a5]"
  define s0 where "s0 = s\<lparr>shared_heap := h, bytes := b, cells := io_block q ?ws m\<rparr>"
  define adr where "adr = get_physical_address (mmu env s0) q AND NOT (shared_bit s)"
  define s1 where "s1 = s0\<lparr>requests := u64_bytes adr\<rparr>"
  have v: "view adr = q" using r by (simp add: adr_def q_def s0_def)
  have cs: "cells s1 (q + 8 * of_nat i) = ?ws ! i" if "i < 7" for i
    using io_block_cell [of i ?ws q m] that by (simp add: s1_def s0_def)
  have L: "layout (cells s1) a ys 0"
    by (rule layout_request [OF H(4) c(2)]) (simp add: s1_def s0_def q_def block_cells pb del: of_nat_add)
  have "hvc_call env code a0 a1 a2 a3 a4 a5 s = do {
       s2 \<leftarrow> handle_hypercall lib view adr s1;
       s3 \<leftarrow> sfree q (s2\<lparr>requests := []\<rparr>);
       Some (cells s2 q, s3) }"
    using r c(4) unfolding hvc_call_def io_hypercall_def c(1)
    by (simp add: HVC_SYSCALL_HV_def HVC_SYSCALL_IO_def port_write get_shared_bit_def s0_def
        adr_def s1_def bind_map_option comp_def Let_def)
  then show ?thesis using v cs L c(3) by (intro exI [of _ adr] exI [of _ s1]) (simp add: s1_def s0_def)
qed

text \<open>A request that the VMM answers without touching the guest's memory otherwise.\<close>

lemma io_request_answer:
  assumes R: "request_ready env lib view a xs p ys s"
    and A: "\<And>adr s1. view adr = of_nat (p + 32) \<Longrightarrow>
       \<forall>i < 7. cells s1 (of_nat (p + 32) + 8 * of_nat i) = [code, a0, a1, a2, a3, a4, a5] ! i \<Longrightarrow>
       handle_hypercall lib view adr s1 = Some (s1\<lparr>cells := (cells s1)(of_nat (p + 32) := v)\<rparr>)"
  shows "\<exists>s'. hvc_call env code a0 a1 a2 a3 a4 a5 s = Some (v, s') \<and>
     ks s' = ks s \<and> fds s' = fds s \<and> procs s' = procs s"
proof -
  obtain adr s1 where x: "view adr = of_nat (p + 32)" "layout (cells s1) a ys 0"
    "heap_head (shared_heap s1) = of_nat a"
    "\<forall>i < 7. cells s1 (of_nat (p + 32) + 8 * of_nat i) = [code, a0, a1, a2, a3, a4, a5] ! i"
    "ks s1 = ks s" "fds s1 = fds s" "procs s1 = procs s"
    "hvc_call env code a0 a1 a2 a3 a4 a5 s = do {
       s2 \<leftarrow> handle_hypercall lib view adr s1;
       s3 \<leftarrow> sfree (of_nat (p + 32)) (s2\<lparr>requests := []\<rparr>);
       Some (cells s2 (of_nat (p + 32)), s3) }"
    using io_request [OF R, of code a0 a1 a2 a3 a4 a5] by blast
  have F: "first_fit a 88 xs = Some (p, ys)" using R by (simp add: request_ready_def)
  have "ys \<noteq> []" using first_fit_Some [OF F] by (auto split: if_split_asm)
  let ?s2 = "s1\<lparr>cells := (cells s1)(of_nat (p + 32) := v)\<rparr>"
  have b: "p + 32 < 18446744073709551616"
  proof -
    obtain bs n cs where f: "p = a + extent bs" "88 \<le> n"
      "ys = bs @ (if 88 + 40 < n then [(88, True), (n - 88, False)] else [(n, True)]) @ cs"
      using first_fit_Some [OF F] by blast
    show ?thesis using layout_bound [OF x(2) \<open>ys \<noteq> []\<close>] f by (auto split: if_splits)
  qed
  have "layout (cells ?s2) a ys 0"
    by (rule layout_request [OF F x(2)]) (auto simp: cell_upd b simp del: of_nat_add fun_upd_apply)
  then obtain m where "sfree (of_nat (p + 32)) (?s2\<lparr>requests := []\<rparr>) = Some (?s2\<lparr>requests := [], cells := m\<rparr>)"
    using sfree_total [of "?s2\<lparr>requests := []\<rparr>" a ys] x(3) \<open>ys \<noteq> []\<close> by fastforce
  then show ?thesis using x(5-8) A [OF x(1,4)] by simp
qed

subsection \<open>An instance\<close>

text \<open>
  A C library whose \<open>close\<close> and \<open>lseek\<close> return their argument, a translation unit that maps
  every address to itself, and the shared heap right after \<open>heap_init\<close> at \<open>0x80000\<close>.
\<close>

definition ex_libc :: libc where
  "ex_libc = \<lparr>lib_open = (\<lambda>_ _ _ _. 3), lib_read = (\<lambda>_ _ n s. (n, s)), lib_write = (\<lambda>_ _ n _. n),
     lib_lseek = (\<lambda>f off _. to_u64 f + off), lib_close = (\<lambda>f. f)\<rparr>"

definition ex_at :: at_unit where
  "ex_at = \<lparr>at_s1e1r = (\<lambda>va. va AND NOT 0xFFF), at_s1e1w = (\<lambda>va. va AND NOT 0xFFF),
     at_s1e0r = (\<lambda>va. va AND NOT 0xFFF), at_s1e0w = (\<lambda>va. va AND NOT 0xFFF)\<rparr>"

definition ex_env :: machine where
  "ex_env = \<lparr>mmu = (\<lambda>_. ex_at), hvc = (\<lambda>_ _ s. Some (0, s)), sys_port = vmm_port ex_libc (\<lambda>v. v),
     con_port = vmm_port ex_libc (\<lambda>v. v)\<rparr>"

definition ex_kst :: kst where
  "ex_kst = zero_kst\<lparr>cells := (\<lambda>_. 0)(0x80000 := 0x5000),
     shared_heap := \<lparr>heap_head = 0x80000, heap_tail = 0x80000\<rparr>, shared_bit := 0x100000000\<rparr>"

lemma ex_request_ready:
  "request_ready ex_env ex_libc (\<lambda>v. v) 0x80000 [(0x5000, False)] 0x80000 [(88, True), (0x5000 - 88, False)] ex_kst"
  by (simp add: request_ready_def ex_env_def ex_kst_def zero_kst_def HVC_SYSCALL_IO_def
      get_physical_address_def translate_va_to_pa_def ex_at_def)

end
