(* ===== verification/Syscall.thy ===== *)
theory Syscall
  imports Vmm Fds Cstring
begin

text \<open>
  The system calls of \<open>kernel/syscall.c\<close>: the requests \<open>open\<close> .. \<open>exit\<close> to the VMM (here
  \<open>hc_open\<close> ..), the \<open>sys_\<close> functions that serve a process, their dispatch, and the copies between
  kernel and user memory of \<open>kernel/vma.c\<close>. A \<open>size_t\<close> or \<open>int64_t\<close> is a 64-bit word.
\<close>

subsection \<open>Copies between kernel and user memory (vma.c)\<close>

text \<open>
  Both enable and disable user access, which does nothing, and check one address with the
  permissions of the kernel. Then they copy byte by byte: a byte on the user's side at an address that
  the hardware does not translate, or not for this kind of access, is a data abort in the kernel, from
  which the copy does not come back (None). The kernel's own buffer is taken to be accessible.
\<close>

function copy_loop :: "(kst \<Rightarrow> u64 \<Rightarrow> bool) \<Rightarrow> u64 \<Rightarrow> u64 \<Rightarrow> u64 \<Rightarrow> u64 \<Rightarrow> kst \<Rightarrow> kst option" where
  "copy_loop ok dst src copied count s =
     (if copied < count then
        if ok s copied
        then copy_loop ok dst src (copied + 1) count (s\<lparr>bytes := (bytes s)(dst + copied := bytes s (src + copied))\<rparr>)
        else None
      else Some s)"
  by pat_completeness auto
termination
  by (relation "measure (\<lambda>(ok, dst, src, copied, count, s). unat count - unat copied)")
    (auto simp: unat_Suc_less word_less_nat_alt)

declare copy_loop.simps [simp del]

definition may_write :: "machine \<Rightarrow> kst \<Rightarrow> u64 \<Rightarrow> bool" where
  "may_write env s va \<longleftrightarrow> at_s1e1w (mmu env s) va AND 1 = 0"

definition may_read :: "machine \<Rightarrow> kst \<Rightarrow> u64 \<Rightarrow> bool" where
  "may_read env s va \<longleftrightarrow> at_s1e1r (mmu env s) va AND 1 = 0"

definition copy_to_user :: "machine \<Rightarrow> u64 \<Rightarrow> u64 \<Rightarrow> u64 \<Rightarrow> kst \<Rightarrow> (u64 \<times> kst) option" where
  "copy_to_user env dst src count s =
     (if access_kernel_ok (mmu env s) dst PROT_RW \<noteq> 0 then Some (to_u64 (- EINVAL), s)
      else do {
        s \<leftarrow> copy_loop (\<lambda>s copied. may_write env s (dst + copied)) dst src 0 count s;
        Some (count, s) })"

definition copy_from_user :: "machine \<Rightarrow> u64 \<Rightarrow> u64 \<Rightarrow> u64 \<Rightarrow> kst \<Rightarrow> (u64 \<times> kst) option" where
  "copy_from_user env dst src count s =
     (if access_kernel_ok (mmu env s) src PROT_R \<noteq> 0 then Some (to_u64 (- EINVAL), s)
      else do {
        s \<leftarrow> copy_loop (\<lambda>s copied. may_read env s (src + copied)) dst src 0 count s;
        Some (count, s) })"

subsection \<open>Requests to the VMM\<close>

definition hc_open :: "machine \<Rightarrow> u64 \<Rightarrow> c_int \<Rightarrow> u32 \<Rightarrow> kst \<Rightarrow> (c_int \<times> kst) option" where
  "hc_open env pathname flags md s =
     (let data = get_physical_address (mmu env s) pathname;
          data = data AND NOT (get_shared_bit s)
      in do {
        (val, s) \<leftarrow> hvc_call env HVC_OPEN data (to_u64 flags) (ucast md) 0 0 0 s;
        Some (ucast val, s) })"

definition hc_read :: "machine \<Rightarrow> c_int \<Rightarrow> u64 \<Rightarrow> u64 \<Rightarrow> kst \<Rightarrow> (u64 \<times> kst) option" where
  "hc_read env fdn buf count s =
     (if buf = 0 then Some (to_u64 (- EINVAL), s)
      else
        let addr = get_physical_address (mmu env s) buf;
            addr = addr AND NOT (get_shared_bit s)
        in if addr = -1 then Some (to_u64 (- EINVAL), s)
           else hvc_call env HVC_READ (to_u64 fdn) addr count 0 0 0 s)"

definition hc_write :: "machine \<Rightarrow> c_int \<Rightarrow> u64 \<Rightarrow> u64 \<Rightarrow> kst \<Rightarrow> (u64 \<times> kst) option" where
  "hc_write env fdn buf count s =
     (if buf = 0 then Some (to_u64 (- EINVAL), s)
      else
        let addr = get_physical_address (mmu env s) buf;
            addr = addr AND NOT (get_shared_bit s)
        in if addr = -1 then Some (to_u64 (- EINVAL), s)
           else hvc_call env HVC_WRITE (to_u64 fdn) addr count 0 0 0 s)"

text \<open>\<open>lseek\<close> has parameters for the offset and its origin, and does not pass them on.\<close>

definition hc_lseek :: "machine \<Rightarrow> c_int \<Rightarrow> u64 \<Rightarrow> c_int \<Rightarrow> kst \<Rightarrow> (u64 \<times> kst) option" where
  "hc_lseek env fdn offset whence s = hvc_call env HVC_LSEEK (to_u64 fdn) 0 0 0 0 0 s"

definition hc_close :: "machine \<Rightarrow> c_int \<Rightarrow> kst \<Rightarrow> (c_int \<times> kst) option" where
  "hc_close env fdn s = do {
     (r, s) \<leftarrow> hvc_call env HVC_CLOSE (to_u64 fdn) 0 0 0 0 0 s; Some (ucast r, s) }"

definition hc_exit :: "machine \<Rightarrow> c_int \<Rightarrow> kst \<Rightarrow> (c_int \<times> kst) option" where
  "hc_exit env no s = do {
     (r, s) \<leftarrow> hvc_call env HVC_EXIT (to_u64 no) 0 0 0 0 0 s; Some (ucast r, s) }"

subsection \<open>System calls\<close>

text \<open>\<open>len\<close> is an \<open>int\<close>; the copy does not include the terminator of the path.\<close>

definition sys_open :: "machine \<Rightarrow> u64 \<Rightarrow> c_int \<Rightarrow> u32 \<Rightarrow> kst \<Rightarrow> (c_int \<times> kst) option" where
  "sys_open env pathname flags md s =
     (if pathname = 0 then Some (- EINVAL, s)
      else do {
        n \<leftarrow> strlen (bytes s) pathname;
        let len = (ucast n :: c_int) in
        if len = 0 then Some (- EINVAL, s)
        else do {
          (new_path, s) \<leftarrow> smalloc (to_u64 (len + 1)) s;
          if new_path = 0 then Some (- ENOMEM, s)
          else
            let s = s\<lparr>bytes := snd (memcpy (bytes s) new_path pathname (to_u64 len))\<rparr> in do {
            (ret, s) \<leftarrow> hc_open env new_path flags md s;
            s \<leftarrow> sfree new_path s;
            Some (ret, s) } } })"

text \<open>The tests \<open>found < 0\<close> and \<open>transferred < 0\<close> compare a \<open>size_t\<close> and are never true.\<close>

definition sys_read :: "machine \<Rightarrow> c_int \<Rightarrow> u64 \<Rightarrow> u64 \<Rightarrow> kst \<Rightarrow> (u64 \<times> kst) option" where
  "sys_read env fdn buf count s = do {
     host \<leftarrow> get_host_fd (get_current_process_pid s) fdn s;
     if host <s 0 then Some (to_u64 (- ENOENT), s)
     else do {
       (new_buffer, s) \<leftarrow> smalloc count s;
       if new_buffer = 0 then Some (to_u64 (- ENOMEM), s)
       else do {
         (found, s) \<leftarrow> hc_read env fdn new_buffer count s;
         (_, s) \<leftarrow> copy_to_user env buf new_buffer found s;
         s \<leftarrow> sfree new_buffer s;
         Some (found, s) } } }"

definition sys_write :: "machine \<Rightarrow> c_int \<Rightarrow> u64 \<Rightarrow> u64 \<Rightarrow> kst \<Rightarrow> (u64 \<times> kst) option" where
  "sys_write env fdn buf count s = do {
     host \<leftarrow> get_host_fd (get_current_process_pid s) fdn s;
     if host <s 0 then Some (to_u64 (- ENOENT), s)
     else do {
       (new_buffer, s) \<leftarrow> smalloc count s;
       if new_buffer = 0 then Some (to_u64 (- ENOMEM), s)
       else do {
         (_, s) \<leftarrow> copy_from_user env new_buffer buf count s;
         (transferred, s) \<leftarrow> hc_write env fdn new_buffer count s;
         s \<leftarrow> sfree new_buffer s;
         Some (transferred, s) } } }"

definition sys_lseek :: "machine \<Rightarrow> c_int \<Rightarrow> u64 \<Rightarrow> c_int \<Rightarrow> kst \<Rightarrow> (u64 \<times> kst) option" where
  "sys_lseek env fdn offset whence s = do {
     host \<leftarrow> get_host_fd (get_current_process_pid s) fdn s;
     if host <s 0 then Some (to_u64 (- ENOENT), s) else hc_lseek env host offset whence s }"

text \<open>\<open>delete_fd\<close> takes the host descriptor first; here the kernel descriptor is passed first.\<close>

definition sys_close :: "machine \<Rightarrow> c_int \<Rightarrow> kst \<Rightarrow> (c_int \<times> kst) option" where
  "sys_close env fdn s =
     (let p = get_current_process_pid s in do {
        host \<leftarrow> get_host_fd p fdn s;
        if host <s 0 then Some (- ENOENT, s)
        else do {
          (_, s) \<leftarrow> hc_close env host s;
          (_, s) \<leftarrow> delete_fd p fdn host s;
          Some (0, s) } })"

definition sys_exit :: "machine \<Rightarrow> c_int \<Rightarrow> kst \<Rightarrow> (c_int \<times> kst) option" where
  "sys_exit env v s = do { (_, s) \<leftarrow> hc_exit env v s; Some (0, s) }"

definition SYS_OPEN :: u64 where "SYS_OPEN = 56"
definition SYS_READ :: u64 where "SYS_READ = 63"
definition SYS_WRITE :: u64 where "SYS_WRITE = 64"
definition SYS_LSEEK :: u64 where "SYS_LSEEK = 61"
definition SYS_CLOSE :: u64 where "SYS_CLOSE = 57"
definition SYS_EXIT :: u64 where "SYS_EXIT = 93"

lemmas sys_numbers = SYS_OPEN_def SYS_READ_def SYS_WRITE_def SYS_LSEEK_def SYS_CLOSE_def SYS_EXIT_def

definition syscall ::
  "machine \<Rightarrow> u64 \<Rightarrow> u64 \<Rightarrow> u64 \<Rightarrow> u64 \<Rightarrow> u64 \<Rightarrow> u64 \<Rightarrow> u64 \<Rightarrow> kst \<Rightarrow> (u64 \<times> kst) option" where
  "syscall env nr arg0 arg1 arg2 arg3 arg4 arg5 s =
     (if nr = SYS_OPEN then map_option (map_prod to_u64 id) (sys_open env arg0 (ucast arg1) (ucast arg2) s)
      else if nr = SYS_READ then sys_read env (ucast arg0) arg1 arg2 s
      else if nr = SYS_WRITE then sys_write env (ucast arg0) arg1 arg2 s
      else if nr = SYS_LSEEK then sys_lseek env (ucast arg0) arg1 (ucast arg2) s
      else if nr = SYS_CLOSE then map_option (map_prod to_u64 id) (sys_close env (ucast arg0) s)
      else if nr = SYS_EXIT then map_option (map_prod to_u64 id) (sys_exit env (ucast arg0) s)
      else Some (to_u64 (- ENOSYS), s))"

definition kernel_system_call_entry_handler ::
  "machine \<Rightarrow> context_t \<Rightarrow> kst \<Rightarrow> (context_t \<times> kst) option" where
  "kernel_system_call_entry_handler env c s =
     (let x = ctx_x c in do {
        (r, s) \<leftarrow> syscall env (x ! 8) (x ! 0) (x ! 1) (x ! 2) (x ! 3) (x ! 4) (x ! 5) s;
        Some (c\<lparr>ctx_x := x[0 := r]\<rparr>, s) })"

end
