(* ===== verification/Syscall_Safety.thy ===== *)
theory Syscall_Safety
  imports Syscall
begin

text \<open>
  Properties of the system calls, some of them together with the VMM at the other end of the port.
\<close>

lemma ucast_to_u64 [simp]: "ucast (to_u64 x) = x"
  by (rule bit_word_eqI) (simp add: to_u64_def bit_simps)

lemma to_u64_of_nat: "n < 2147483648 \<Longrightarrow> to_u64 (of_nat n) = of_nat n"
proof -
  assume "n < 2147483648"
  then have "sint (of_nat n :: c_int) = int n"
    by (simp add: sint_c_int unat_of_nat take_bit_nat_eq_self)
  then show ?thesis by (simp add: to_u64_def scast_eq)
qed

lemma ucast_of_nat_int: "(ucast (of_nat n :: u64) :: c_int) = of_nat n"
  by transfer simp

subsection \<open>Requests and the VMM\<close>

lemma vmm_answers:
  assumes "view adr = q" and "\<forall>i < 7. cells t (q + 8 * of_nat i) = [code, x, y, z, u, v, w] ! i"
  shows "code = HVC_CLOSE \<Longrightarrow> handle_hypercall lib view adr t =
           Some (t\<lparr>cells := (cells t)(q := to_u64 (lib_close lib (ucast y)))\<rparr>)"
    and "code = HVC_LSEEK \<Longrightarrow> handle_hypercall lib view adr t =
           Some (t\<lparr>cells := (cells t)(q := lib_lseek lib (ucast x) y (ucast z))\<rparr>)"
    and "code = HVC_EXIT \<Longrightarrow> handle_hypercall lib view adr t = None"
proof -
  have c: "cells t q = code" "cells t (q + 8) = x" "cells t (q + 16) = y" "cells t (q + 24) = z"
    using assms(2) [rule_format, of 0] assms(2) [rule_format, of 1]
      assms(2) [rule_format, of 2] assms(2) [rule_format, of 3] by simp_all
  show "code = HVC_CLOSE \<Longrightarrow> handle_hypercall lib view adr t =
          Some (t\<lparr>cells := (cells t)(q := to_u64 (lib_close lib (ucast y)))\<rparr>)"
    "code = HVC_LSEEK \<Longrightarrow> handle_hypercall lib view adr t =
          Some (t\<lparr>cells := (cells t)(q := lib_lseek lib (ucast x) y (ucast z))\<rparr>)"
    "code = HVC_EXIT \<Longrightarrow> handle_hypercall lib view adr t = None"
    using assms(1) c by (simp_all add: handle_hypercall_def hvc_codes)
qed

text \<open>A close request, whatever the descriptor, as the VMM answers it.\<close>

lemma close_request:
  assumes "request_ready env lib view a xs p ys s"
  shows "\<exists>s'. hc_close env fdn s = Some (lib_close lib 0, s') \<and>
           ks s' = ks s \<and> fds s' = fds s \<and> procs s' = procs s"
proof -
  have "\<exists>s'. hvc_call env HVC_CLOSE (to_u64 fdn) 0 0 0 0 0 s = Some (to_u64 (lib_close lib 0), s') \<and>
          ks s' = ks s \<and> fds s' = fds s \<and> procs s' = procs s"
  proof (rule io_request_answer [OF assms])
    fix adr and s1 :: kst
    assume v: "view adr = of_nat (p + 32)"
      and c: "\<forall>i < 7. cells s1 (of_nat (p + 32) + 8 * of_nat i) = [HVC_CLOSE, to_u64 fdn, 0, 0, 0, 0, 0] ! i"
    show "handle_hypercall lib view adr s1 = Some (s1\<lparr>cells := (cells s1)(of_nat (p + 32) := to_u64 (lib_close lib 0))\<rparr>)"
      using vmm_answers(1) [where view = view and adr = adr and code = HVC_CLOSE and t = s1 and x = "to_u64 fdn" and y = 0 and z = 0 and u = 0 and v = 0 and w = 0 and lib = lib, OF v c] by (simp del: of_nat_add)
  qed
  then show ?thesis by (auto simp: hc_close_def)
qed

text \<open>Requests lose their arguments on the way to the host: the kernel sends the descriptor of a
  \<open>close\<close> as the first argument and the VMM reads the second, so that the host closes its
  descriptor 0 whatever was to be closed; and \<open>lseek\<close> always seeks to offset 0 from the start.\<close>

lemma requests_lose_arguments:
  assumes "request_ready env lib view a xs p ys s"
  shows "(\<exists>s'. hc_close env fdn s = Some (lib_close lib 0, s')) \<and>
         (\<exists>s'. hc_lseek env fdn offset whence s = Some (lib_lseek lib fdn 0 0, s'))"
proof
  show "\<exists>s'. hc_close env fdn s = Some (lib_close lib 0, s')"
    using close_request [OF assms] by blast
  have "\<exists>s'. hvc_call env HVC_LSEEK (to_u64 fdn) 0 0 0 0 0 s = Some (lib_lseek lib fdn 0 0, s') \<and>
          ks s' = ks s \<and> fds s' = fds s \<and> procs s' = procs s"
  proof (rule io_request_answer [OF assms])
    fix adr and s1 :: kst
    assume v: "view adr = of_nat (p + 32)"
      and c: "\<forall>i < 7. cells s1 (of_nat (p + 32) + 8 * of_nat i) = [HVC_LSEEK, to_u64 fdn, 0, 0, 0, 0, 0] ! i"
    show "handle_hypercall lib view adr s1 = Some (s1\<lparr>cells := (cells s1)(of_nat (p + 32) := lib_lseek lib fdn 0 0)\<rparr>)"
      using vmm_answers(2) [where view = view and adr = adr and code = HVC_LSEEK and t = s1 and x = "to_u64 fdn" and y = 0 and z = 0 and u = 0 and v = 0 and w = 0 and lib = lib, OF v c] by (simp del: of_nat_add)
  qed
  then show "\<exists>s'. hc_lseek env fdn offset whence s = Some (lib_lseek lib fdn 0 0, s')"
    by (auto simp: hc_lseek_def)
qed

lemma requests_lose_arguments_witness:
  "(\<exists>s'. hc_close ex_env 7 ex_kst = Some (lib_close ex_libc 0, s')) \<and>
   (\<exists>s'. hc_lseek ex_env 7 512 0 ex_kst = Some (lib_lseek ex_libc 7 0 0, s'))"
  by (rule requests_lose_arguments [OF ex_request_ready])

text \<open>C38. \<open>sys_close\<close> of an open descriptor \<open>k\<close>, whose host number is \<open>h\<close>, passes the two to \<open>delete_fd\<close> in the
  wrong order: it does not return unless the process also has an entry with host number \<open>k\<close> and kernel number \<open>h\<close>,
  since the search of \<open>delete_fd\<close> for an entry that is not there never ends.\<close>

theorem sys_close_hangs:
  assumes "request_ready env lib view a xs p ys s"
    and "fd_list (fds s) (fd_head (ks s)) zs" and "zs \<noteq> []"
    and "get_host_fd (get_current_process_pid s) k s = Some h" and "\<not> h <s 0"
    and "\<forall>z \<in> set zs. \<not> fd_match (get_current_process_pid s) k h (fds s z)"
  shows "sys_close env k s = None"
proof -
  obtain s' where c: "hc_close env h s = Some (lib_close lib 0, s')" "ks s' = ks s" "fds s' = fds s"
    using close_request [OF assms(1)] by blast
  have "delete_scan (fds s') (get_current_process_pid s) k h (fd_head (ks s')) = None"
    by (rule delete_scan_stuck [of _ _ zs]) (use assms c in simp_all)
  then show ?thesis using assms(4,5) c by (simp add: sys_close_def delete_fd_def)
qed

definition ex_open :: kst where
  "ex_open = ex_kst\<lparr>ks := (ks ex_kst)\<lparr>fd_head := 0x2000, current := 0x9000\<rparr>,
     procs := (procs ex_kst)(0x9000 := zero_process\<lparr>pid := 5\<rparr>),
     fds := (\<lambda>_. zero_fd)(0x2000 := zero_fd\<lparr>fd_pid := 5, host_fd := 10, k_fd := 3\<rparr>)\<rparr>"

lemma ex_open_ready:
  "request_ready ex_env ex_libc (\<lambda>v. v) 0x80000 [(0x5000, False)] 0x80000 [(88, True), (0x5000 - 88, False)] ex_open"
  using ex_request_ready by (simp add: request_ready_def ex_open_def)

theorem sys_close_hangs_witness: "sys_close ex_env 3 ex_open = None"
  by (rule sys_close_hangs [OF ex_open_ready, where zs = "[0x2000]" and h = 10])
    (simp_all add: ex_open_def get_current_process_pid_def get_host_fd_def node_search.simps
      zero_fd_def zero_process_def fd_match_def word_sless_alt)

subsection \<open>Errors\<close>

text \<open>C25. A system call on a descriptor that the process does not have is refused with \<open>-ENOENT\<close> and
  an unknown system call with \<open>-ENOSYS\<close>, both without a request and without any effect.\<close>

theorem syscall_refused:
  "get_host_fd (get_current_process_pid s) (ucast arg0) s = Some (- ENOENT) \<Longrightarrow>
   nr \<in> {SYS_READ, SYS_WRITE, SYS_LSEEK, SYS_CLOSE} \<or> nr \<notin> {SYS_OPEN, SYS_EXIT} \<Longrightarrow>
   syscall env nr arg0 arg1 arg2 arg3 arg4 arg5 s =
     Some (to_u64 (if nr \<in> {SYS_READ, SYS_WRITE, SYS_LSEEK, SYS_CLOSE} then - ENOENT else - ENOSYS), s)"
  by (auto simp: syscall_def sys_numbers sys_read_def sys_write_def sys_lseek_def sys_close_def
      ENOENT_def word_sless_alt)

theorem syscall_refused_witness:
  "syscall ex_env 64 4 0x1000 10 0 0 0 ex_open = Some (to_u64 (- ENOENT), ex_open)"
  using syscall_refused [of ex_open 4 64 ex_env "0x1000" 10 0 0 0]
  by (simp add: sys_numbers ex_open_def get_current_process_pid_def get_host_fd_def node_search.simps
      zero_fd_def zero_process_def)

subsection \<open>Paths\<close>

lemma cstr_end: "cstr m a xs \<Longrightarrow> m (a + of_nat (length xs)) = 0"
proof (induction xs arbitrary: a)
  case (Cons x xs)
  then show ?case using Cons.IH [of "a + 1"] by (simp add: add.assoc)
qed simp

text \<open>\<open>sys_open\<close> copies a path without its terminator: when the byte behind the copy is not zero
  by chance, the request is made for a block that does not hold the path as a string.\<close>

lemma sys_open_unterminated:
  fixes q :: nat
  assumes "cstr (bytes s) pathname str" and "str \<noteq> []" and "length str < 2147483647"
    and "pathname \<noteq> 0"
    and "layout (cells s) a xs 0" "heap_head (shared_heap s) = of_nat a" "40 \<le> a"
    and "first_fit a (need_of (length str + 1)) xs = Some (q, ys)"
    and "length str \<le> unat (of_nat (q + 32) - pathname)"
    and "bytes s (of_nat (q + 32) + of_nat (length str)) \<noteq> 0"
  shows "\<exists>s1. sys_open env pathname fl md s = do {
             (ret, s) \<leftarrow> hc_open env (of_nat (q + 32)) fl md s1;
             s \<leftarrow> sfree (of_nat (q + 32)) s;
             Some (ret, s) } \<and>
           (\<forall>i < length str. bytes s1 (of_nat (q + 32) + of_nat i) = bytes s (pathname + of_nat i)) \<and>
           \<not> cstr (bytes s1) (of_nat (q + 32)) str"
proof -
  let ?n = "length str" and ?q = "of_nat (q + 32) :: u64"
  have b: "?n < 18446744073709551616" using assms(3) by simp
  have int_n: "unat (of_nat ?n :: c_int) = ?n" using assms(3) by (simp add: unat_of_nat take_bit_nat_eq_self)
  have len: "to_u64 (ucast (of_nat ?n :: u64)) = of_nat ?n" "to_u64 (ucast (of_nat ?n :: u64) + 1) = of_nat (?n + 1)"
    "(ucast (of_nat ?n :: u64) :: c_int) \<noteq> 0"
    using assms(2,3) to_u64_of_nat [of ?n] to_u64_of_nat [of "Suc ?n"] int_n
    by (auto simp add: ucast_of_nat_int add.commute)
  have "unat (of_nat (?n + 1) :: u64) = ?n + 1" using assms(3) by (intro unat_of_nat_u64) simp
  moreover from this have "(of_nat (?n + 1) :: u64) \<noteq> 0" by (metis unat_0 add_is_0 one_neq_zero)
  ultimately obtain h m where al: "smalloc (of_nat (?n + 1)) s = Some (?q, s\<lparr>shared_heap := h, cells := m\<rparr>)" "?q \<noteq> 0"
    using smalloc_fits [OF assms(5-7), of "of_nat (?n + 1)" q ys] assms(3,8) by (auto simp del: of_nat_add)
  define s1 where "s1 = s\<lparr>shared_heap := h, cells := m, bytes := snd (memcpy (bytes s) ?q pathname (of_nat ?n))\<rparr>"
  have cp: "bytes s1 x = (if unat (x - ?q) < ?n then bytes s (pathname + (x - ?q)) else bytes s x)" for x
    using memcpy_loop_copy [of "of_nat ?n" ?q pathname "bytes s"] assms(9) b
    by (simp add: s1_def memcpy_def unat_of_nat_u64 del: of_nat_add)
  have "sys_open env pathname fl md s = do {
             (ret, s) \<leftarrow> hc_open env ?q fl md s1; s \<leftarrow> sfree ?q s; Some (ret, s) }"
    using assms(4) al len by (simp add: sys_open_def strlen_cstr [OF assms(1)] s1_def Let_def del: of_nat_add)
  moreover have "bytes s1 (?q + of_nat i) = bytes s (pathname + of_nat i)" if "i < ?n" for i
    using that b by (simp add: cp unat_of_nat_u64 del: of_nat_add)
  moreover have "bytes s1 (?q + of_nat ?n) \<noteq> 0"
    using assms(10) b by (simp add: cp unat_of_nat_u64 del: of_nat_add)
  then have "\<not> cstr (bytes s1) ?q str"
    by (metis cstr_end)
  ultimately show ?thesis by blast
qed

definition ex_path :: kst where
  "ex_path = ex_kst\<lparr>bytes := (\<lambda>_. 0)(0x1000 := 97, 0x80021 := 0x55)\<rparr>"

lemma sys_open_unterminated_witness:
  "\<exists>s1. sys_open ex_env 0x1000 0 0 ex_path = do {
       (ret, s) \<leftarrow> hc_open ex_env (of_nat (0x80000 + 32)) 0 0 s1;
       s \<leftarrow> sfree (of_nat (0x80000 + 32)) s;
       Some (ret, s) } \<and>
     (\<forall>i < length [97 :: u8]. bytes s1 (of_nat (0x80000 + 32) + of_nat i) = bytes ex_path (0x1000 + of_nat i)) \<and>
     \<not> cstr (bytes s1) (of_nat (0x80000 + 32)) [97]"
  by (rule sys_open_unterminated [where a = "0x80000" and xs = "[(0x5000, False)]" and
        ys = "[(40, True), (0x5000 - 40, False)]"])
    (simp_all add: ex_path_def ex_kst_def zero_kst_def need_of_def)

subsection \<open>Copies between the kernel and the user\<close>

text \<open>The loop either copies like \<open>memcpy\<close> or ends at the first byte that is not accessible.\<close>

lemma copy_loop_memcpy:
  assumes "\<And>b j. j < n \<Longrightarrow> ok (s\<lparr>bytes := b\<rparr>) j = acc j" and "i \<le> n"
  shows "copy_loop ok dst src i n s =
    (if \<forall>j. i \<le> j \<and> j < n \<longrightarrow> acc j then Some (s\<lparr>bytes := memcpy_loop (bytes s) (dst + i) (src + i) (n - i)\<rparr>) else None)"
  using assms
proof (induction ok dst src i n s rule: copy_loop.induct)
  case (1 ok dst src i n s)
  show ?case
  proof (cases "i < n")
    case True
    have a: "ok s i = acc i" using 1(2) [OF True, of "bytes s"] by simp
    let ?s = "s\<lparr>bytes := (bytes s)(dst + i := bytes s (src + i))\<rparr>"
    have "unat (i + 1) = Suc (unat i)" using True by (rule unat_Suc_less)
    then have le: "i + 1 \<le> n" and ge: "i + 1 \<le> j \<longleftrightarrow> i \<le> j \<and> j \<noteq> i" for j
      using True by (auto simp: word_less_nat_alt word_le_nat_alt Suc_le_eq le_less word_unat_eq_iff)
    have all: "(\<forall>j. i \<le> j \<and> j < n \<longrightarrow> acc j) \<longleftrightarrow> acc i \<and> (\<forall>j. i + 1 \<le> j \<and> j < n \<longrightarrow> acc j)"
      unfolding ge using True by auto
    have pos: "0 < n - i" using True by (metis word_gt_0 right_minus_eq less_irrefl)
    have step: "memcpy_loop (bytes s) (dst + i) (src + i) (n - i) =
        memcpy_loop (bytes ?s) (dst + (i + 1)) (src + (i + 1)) (n - (i + 1))"
      using pos by (subst memcpy_loop.simps) (simp add: add.assoc diff_diff_eq)
    have ok': "ok (?s\<lparr>bytes := b\<rparr>) j = acc j" if "j < n" for b j using 1(2) [OF that, of b] by simp
    show ?thesis
    proof (cases "acc i")
      case acc: True
      then have "copy_loop ok dst src i n s = copy_loop ok dst src (i + 1) n ?s"
        using True a by (subst copy_loop.simps) simp
      then show ?thesis using 1(1) [OF True _ ok' le] a acc unfolding all step by simp
    next
      case False
      then show ?thesis unfolding all using True a by (subst copy_loop.simps) simp
    qed
  next
    case False
    then have "i = n" using 1(3) by simp
    moreover from this have "\<forall>j. i \<le> j \<and> j < n \<longrightarrow> acc j" by (auto simp: not_less [symmetric])
    ultimately show ?thesis by (simp add: copy_loop.simps memcpy_loop.simps)
  qed
qed

lemma copy_loop_bytes:
  assumes "\<And>b j. j < n \<Longrightarrow> ok (s\<lparr>bytes := b\<rparr>) j = acc j" and "unat n \<le> unat (dst - src)"
  shows "copy_loop ok dst src 0 n s =
    (if \<forall>j < n. acc j then Some (s\<lparr>bytes := \<lambda>x. if x - dst < n then bytes s (src + (x - dst)) else bytes s x\<rparr>) else None)"
proof -
  have "memcpy_loop (bytes s) dst src n = (\<lambda>x. if x - dst < n then bytes s (src + (x - dst)) else bytes s x)"
    using memcpy_loop_copy [OF disjI1 [OF assms(2)], of "bytes s"] by (simp add: word_less_nat_alt)
  then show ?thesis using copy_loop_memcpy [of n ok s acc 0 dst src, OF assms(1)] by simp
qed

lemma copy_to_user_bytes:
  assumes "\<And>b j. unat j < unat n \<or> j = 0 \<Longrightarrow> may_write env (s\<lparr>bytes := b\<rparr>) (dst + j)" and "unat n \<le> unat (dst - src)"
  shows "\<exists>m. copy_to_user env dst src n s = Some (n, s\<lparr>bytes := m\<rparr>) \<and>
     (\<forall>x. m x = (if unat (x - dst) < unat n then bytes s (src + (x - dst)) else bytes s x))"
proof -
  have "may_write env s dst" using assms(1) [of 0 "bytes s"] by simp
  then show ?thesis
    using copy_loop_bytes [of n "\<lambda>s i. may_write env s (dst + i)" s "\<lambda>_. True" dst src] assms
    by (intro exI [of _ "\<lambda>x. if x - dst < n then bytes s (src + (x - dst)) else bytes s x"])
      (simp add: copy_to_user_def access_kernel_ok_def may_write_def word_less_nat_alt)
qed

text \<open>C26. What \<open>copy_to_user\<close> and \<open>copy_from_user\<close> do, in every case: they refuse with \<open>-EINVAL\<close> and no
  effect if the kernel may not access the first byte on the user's side (the permissions of the user do
  not matter); otherwise they copy exactly the given bytes if all of them are accessible, and end in a
  data abort if one is not. The hardware translates from the tables, which the copy does not write, and
  the destination does not start inside the source.\<close>

theorem user_copies:
  assumes mmu: "\<And>b. mmu env (s\<lparr>bytes := b\<rparr>) = mmu env s" and ov: "unat n \<le> unat (dst - src)"
  shows "copy_to_user env dst src n s =
      (if \<not> may_write env s dst then Some (to_u64 (- EINVAL), s)
       else if \<forall>i < n. may_write env s (dst + i)
       then Some (n, s\<lparr>bytes := \<lambda>x. if x - dst < n then bytes s (src + (x - dst)) else bytes s x\<rparr>)
       else None) \<and>
    copy_from_user env dst src n s =
      (if \<not> may_read env s src then Some (to_u64 (- EINVAL), s)
       else if \<forall>i < n. may_read env s (src + i)
       then Some (n, s\<lparr>bytes := \<lambda>x. if x - dst < n then bytes s (src + (x - dst)) else bytes s x\<rparr>)
       else None)"
proof -
  have "may_write env (s\<lparr>bytes := b\<rparr>) x = may_write env s x" "may_read env (s\<lparr>bytes := b\<rparr>) x = may_read env s x" for b x
    by (simp_all add: may_write_def may_read_def mmu)
  then have loops: "copy_loop (\<lambda>s i. may_write env s (dst + i)) dst src 0 n s = (if \<forall>i < n. may_write env s (dst + i) then
      Some (s\<lparr>bytes := \<lambda>x. if x - dst < n then bytes s (src + (x - dst)) else bytes s x\<rparr>) else None)"
    "copy_loop (\<lambda>s i. may_read env s (src + i)) dst src 0 n s = (if \<forall>i < n. may_read env s (src + i) then
      Some (s\<lparr>bytes := \<lambda>x. if x - dst < n then bytes s (src + (x - dst)) else bytes s x\<rparr>) else None)"
    by (intro copy_loop_bytes ov; simp)+
  have first: "access_kernel_ok (mmu env s) dst PROT_RW \<noteq> 0 \<longleftrightarrow> \<not> may_write env s dst"
    "access_kernel_ok (mmu env s) src PROT_R \<noteq> 0 \<longleftrightarrow> \<not> may_read env s src"
    by (simp_all add: access_kernel_ok_def may_write_def may_read_def PROT_RW_def PROT_R_def PROT_W_def)
  show ?thesis unfolding copy_to_user_def copy_from_user_def first loops by (intro conjI; simp only: split: if_split; simp)
qed

text \<open>Two mapped pages, the second one only readable: a copy that stays in the first is made, a copy that
  runs into the second ends the kernel, and so does reading back what lies behind both.\<close>

definition two_pages :: machine where
  "two_pages = ex_env\<lparr>mmu := \<lambda>_. ex_at\<lparr>at_s1e1w := \<lambda>va. if 0x9000 \<le> va \<and> va < 0xA000 then va AND NOT 0xFFF else 1,
     at_s1e1r := \<lambda>va. if 0x9000 \<le> va \<and> va < 0xB000 then va AND NOT 0xFFF else 1\<rparr>\<rparr>"

theorem user_copies_witness:
  "copy_to_user two_pages 0x9F00 0x1000 0x200 ex_path = None \<and>
   copy_from_user two_pages 0x1000 0x9F00 0x200 ex_path =
     Some (0x200, ex_path\<lparr>bytes := \<lambda>x. if x - 0x1000 < 0x200 then bytes ex_path (0x9F00 + (x - 0x1000)) else bytes ex_path x\<rparr>)"
proof -
  have even: "(va AND NOT 0xFFF) AND 1 = 0" for va :: u64
  proof -
    have m: "(0xFFF :: u64) = mask 12" by (simp add: mask_eq_exp_minus_1)
    show ?thesis unfolding m by (rule bit_word_eqI) (auto simp: bit_simps)
  qed
  have w: "may_write two_pages ex_path va \<longleftrightarrow> 0x9000 \<le> va \<and> va < 0xA000"
    and r: "may_read two_pages ex_path va \<longleftrightarrow> 0x9000 \<le> va \<and> va < 0xB000" for va
    using even by (simp_all add: may_write_def may_read_def two_pages_def)
  have m: "mmu two_pages (ex_path\<lparr>bytes := b\<rparr>) = mmu two_pages ex_path" for b by (simp add: two_pages_def)
  have "\<exists>i < 0x200. \<not> may_write two_pages ex_path (0x9F00 + i)" by (rule exI [of _ "0x100"]) (simp add: w)
  moreover have "\<forall>i < 0x200. may_read two_pages ex_path (0x9F00 + i)"
  proof (intro allI impI)
    fix i :: u64 assume "i < 0x200"
    then have "unat (0x9F00 + i) = 0x9F00 + unat i" by (subst unat_add_nowrap) (simp_all add: word_less_nat_alt)
    then show "may_read two_pages ex_path (0x9F00 + i)" using \<open>i < 0x200\<close> by (simp add: r word_less_nat_alt word_le_nat_alt)
  qed
  moreover have "may_write two_pages ex_path 0x9F00" "may_read two_pages ex_path 0x9F00" by (simp_all add: w r)
  ultimately show ?thesis
    using user_copies [of two_pages ex_path "0x200" "0x9F00" "0x1000", OF m, THEN conjunct1]
      user_copies [of two_pages ex_path "0x200" "0x1000" "0x9F00", OF m, THEN conjunct2] by (simp split: if_splits)
qed

end
