(* ===== verification/Vmm_Loop.thy ===== *)
theory Vmm_Loop
  imports Vmm
begin

text \<open>
  The run loop of the VMM (\<open>src/main.rs\<close>, \<open>UartDevice\<close> and \<open>runloop\<close>): the exits of the processor, the two
  serial ports, and the requests that arrive through the second one. The exits come from KVM and are the
  input of the loop; \<open>vmm_put\<close> of \<^theory_text>\<open>Vmm\<close> is shown to be what the loop does to requests.
\<close>

subsection \<open>Devices\<close>

definition UART_SYS_BASE_ADDRESS :: u64 where "UART_SYS_BASE_ADDRESS = 0x9001000"
definition UART_SYS_DR_ADDRESS :: u64 where "UART_SYS_DR_ADDRESS = UART_SYS_BASE_ADDRESS OR 0x00"
definition UART_SYS_FR_ADDRESS :: u64 where "UART_SYS_FR_ADDRESS = UART_SYS_BASE_ADDRESS OR 0x18"
definition UART0_BASE_ADDRESS :: u64 where "UART0_BASE_ADDRESS = 0x9000000"
definition UART0_DR_ADDRESS :: u64 where "UART0_DR_ADDRESS = UART0_BASE_ADDRESS OR 0x00"
definition UART0_FR_ADDRESS :: u64 where "UART0_FR_ADDRESS = UART0_BASE_ADDRESS OR 0x18"

lemmas uart_addresses =
  UART_SYS_BASE_ADDRESS_def UART_SYS_DR_ADDRESS_def UART_SYS_FR_ADDRESS_def UART0_BASE_ADDRESS_def
  UART0_DR_ADDRESS_def UART0_FR_ADDRESS_def

record uart_device =
  data_reg :: u16
  flag_reg :: u16
  status_reg :: u16
  ibrd_reg :: u8
  fbrd_reg :: u8
  lcrh_reg :: u16
  cr_reg :: u16
  recv_buffer :: "u8 list"

text \<open>The result, the device, and what is printed. Only the first byte is looked at; \<open>None\<close> is a panic when there is none.\<close>

definition handle_write_request :: "u64 \<Rightarrow> u8 list \<Rightarrow> uart_device \<Rightarrow> (u64 \<times> uart_device \<times> u8 list) option" where
  "handle_write_request addr bs d =
     (if addr = UART0_DR_ADDRESS then
        (case bs of [] \<Rightarrow> None | c # _ \<Rightarrow> Some (0, d\<lparr>data_reg := ucast c\<rparr>, [c]))
      else if addr = UART_SYS_DR_ADDRESS then
        (case bs of [] \<Rightarrow> None
         | c # _ \<Rightarrow> let d = d\<lparr>data_reg := ucast c, recv_buffer := recv_buffer d @ [c]\<rparr>
                   in Some (of_nat (length (recv_buffer d)), d, []))
      else Some (0, d, []))"

definition handle_read_request :: "u64 \<Rightarrow> u8 list \<Rightarrow> (bool \<times> u8 list) option" where
  "handle_read_request addr bs =
     (if addr = UART0_FR_ADDRESS \<or> addr = UART_SYS_FR_ADDRESS then
        (if bs = [] then None else Some (True, bs[0 := 0]))
      else Some (False, bs))"

definition clear_device :: "uart_device \<Rightarrow> uart_device" where
  "clear_device d = d\<lparr>recv_buffer := []\<rparr>"

subsection \<open>The loop\<close>

datatype vcpu_exit =
  MmioRead u64 "u8 list" | MmioWrite u64 "u8 list" | Hlt | DebugExit | SystemEvent | HypercallExit | OtherExit

record vmm_state =
  uart_dev0 :: uart_device
  uart_dev1 :: uart_device
  answers :: "u8 list list"
  printed :: "u8 list"
  guest :: kst

text \<open>
  One turn: whether the loop goes on, and the state. \<open>answers\<close> are the buffers handed back for reads. The memory of
  the guest is \<open>guest\<close>; its field \<open>requests\<close> is set to the buffer of the second port when a request is handled. A store or read
  elsewhere prints its first byte.
\<close>

definition vmm_step :: "libc \<Rightarrow> (u64 \<Rightarrow> u64) \<Rightarrow> vcpu_exit \<Rightarrow> vmm_state \<Rightarrow> (bool \<times> vmm_state) option" where
  "vmm_step lib view e st =
     (case e of
        MmioRead pa bs \<Rightarrow>
          (if pa = UART0_FR_ADDRESS \<or> pa = UART_SYS_FR_ADDRESS then do {
             (_, bs) \<leftarrow> handle_read_request pa bs;
             Some (True, st\<lparr>answers := answers st @ [bs]\<rparr>) }
           else if bs = [] then None else Some (True, st\<lparr>answers := answers st @ [bs]\<rparr>))
      | MmioWrite pa bs \<Rightarrow>
          (if pa = UART0_BASE_ADDRESS then do {
             (_, d, out) \<leftarrow> handle_write_request pa bs (uart_dev0 st);
             Some (True, st\<lparr>uart_dev0 := d, printed := printed st @ out\<rparr>) }
           else if pa = UART_SYS_BASE_ADDRESS then do {
             (n, d, _) \<leftarrow> handle_write_request pa bs (uart_dev1 st);
             let st = st\<lparr>uart_dev1 := d\<rparr> in
             if n < 8 then Some (True, st)
             else do {
               g \<leftarrow> handle_hypercall lib view (le_value (take 8 (recv_buffer d))) ((guest st)\<lparr>requests := recv_buffer d\<rparr>);
               Some (True, st\<lparr>guest := g, uart_dev1 := clear_device d\<rparr>) } }
           else if bs = [] then None else Some (True, st))
      | Hlt \<Rightarrow> Some (False, st)
      | DebugExit \<Rightarrow> Some (False, st)
      | SystemEvent \<Rightarrow> Some (False, st)
      | HypercallExit \<Rightarrow> Some (True, st)
      | OtherExit \<Rightarrow> None)"

fun runloop :: "libc \<Rightarrow> (u64 \<Rightarrow> u64) \<Rightarrow> vcpu_exit list \<Rightarrow> vmm_state \<Rightarrow> (bool \<times> vmm_state) option" where
  "runloop lib view [] st = Some (True, st)"
| "runloop lib view (e # es) st = do {
     (go, st) \<leftarrow> vmm_step lib view e st;
     if go then runloop lib view es st else Some (False, st) }"

subsection \<open>The requests in a sequence of exits\<close>

text \<open>The exits the loop goes on after, and the bytes for the two ports.\<close>

fun goes_on :: "vcpu_exit \<Rightarrow> bool" where
  "goes_on (MmioRead pa bs) = (bs \<noteq> [])"
| "goes_on (MmioWrite pa bs) = (bs \<noteq> [])"
| "goes_on e = (e = HypercallExit)"

fun bytes_to :: "u64 \<Rightarrow> vcpu_exit \<Rightarrow> u8 list" where
  "bytes_to addr (MmioWrite pa bs) = (if pa = addr then take 1 bs else [])"
| "bytes_to addr e = []"

text \<open>
  What the kernel sees of the VMM: its memory and the bytes of an unfinished request. Between two exits
  there are at most seven of them.
\<close>

definition vmm_abs :: "vmm_state \<Rightarrow> kst" where
  "vmm_abs st = (guest st)\<lparr>requests := recv_buffer (uart_dev1 st)\<rparr>"

definition vmm_inv :: "vmm_state \<Rightarrow> bool" where
  "vmm_inv st \<longleftrightarrow> length (recv_buffer (uart_dev1 st)) < 8"

lemma step_sys_write:
  assumes "vmm_inv st"
  shows "map_option (apsnd vmm_abs) (vmm_step lib view (MmioWrite UART_SYS_BASE_ADDRESS (c # cs)) st) =
      map_option (Pair True) (vmm_put lib view c (vmm_abs st))"
    and "vmm_step lib view (MmioWrite UART_SYS_BASE_ADDRESS (c # cs)) st = Some (go, st') \<Longrightarrow>
      vmm_inv st' \<and> printed st' = printed st"
proof -
  let ?buf = "recv_buffer (uart_dev1 st) @ [c]"
  define d where "d = (uart_dev1 st)\<lparr>data_reg := ucast c, recv_buffer := ?buf\<rparr>"
  define N where "N = (of_nat (length ?buf) :: u64)"
  have w: "handle_write_request UART_SYS_BASE_ADDRESS (c # cs) (uart_dev1 st) = Some (N, d, [])"
    by (simp add: handle_write_request_def uart_addresses d_def N_def)
  have n: "N < 8 \<longleftrightarrow> length ?buf < 8"
    using assms unfolding N_def by (simp add: vmm_inv_def word_less_nat_alt unat_of_nat_u64 del: of_nat_Suc)
  have ne: "UART_SYS_BASE_ADDRESS \<noteq> UART0_BASE_ADDRESS" and rb: "recv_buffer d = ?buf"
    by (simp_all add: uart_addresses d_def)
  have s: "vmm_step lib view (MmioWrite UART_SYS_BASE_ADDRESS (c # cs)) st =
      (if length ?buf < 8 then Some (True, st\<lparr>uart_dev1 := d\<rparr>)
       else do {
         g \<leftarrow> handle_hypercall lib view (le_value (take 8 ?buf)) ((guest st)\<lparr>requests := ?buf\<rparr>);
         Some (True, st\<lparr>guest := g, uart_dev1 := clear_device d\<rparr>) })"
    unfolding vmm_step_def by (simp add: w n ne rb Let_def del: length_append)
  show "map_option (apsnd vmm_abs) (vmm_step lib view (MmioWrite UART_SYS_BASE_ADDRESS (c # cs)) st) =
      map_option (Pair True) (vmm_put lib view c (vmm_abs st))"
    unfolding s vmm_put_def
    by (auto simp: vmm_abs_def d_def clear_device_def Let_def split: bind_splits)
  show "vmm_step lib view (MmioWrite UART_SYS_BASE_ADDRESS (c # cs)) st = Some (go, st') \<Longrightarrow>
      vmm_inv st' \<and> printed st' = printed st"
    unfolding s using assms by (auto simp: vmm_inv_def d_def clear_device_def split: if_splits bind_splits)
qed

lemma step_other:
  assumes "goes_on e" "\<forall>bs. e \<noteq> MmioWrite UART_SYS_BASE_ADDRESS bs"
  shows "\<exists>st'. vmm_step lib view e st = Some (True, st') \<and> vmm_abs st' = vmm_abs st \<and> (vmm_inv st' \<longleftrightarrow> vmm_inv st) \<and>
     printed st' = printed st @ bytes_to UART0_BASE_ADDRESS e \<and> bytes_to UART_SYS_BASE_ADDRESS e = []"
proof (cases e)
  case (MmioWrite pa bs)
  then obtain c cs where bs: "bs = c # cs" using assms(1) by (cases bs) auto
  show ?thesis using MmioWrite assms(2)
    by (auto simp: bs vmm_step_def handle_write_request_def vmm_abs_def vmm_inv_def uart_addresses)
qed (use assms in \<open>auto simp: vmm_step_def handle_read_request_def vmm_abs_def vmm_inv_def\<close>)

lemma runloop_requests:
  "vmm_inv st \<Longrightarrow> \<forall>e \<in> set es. goes_on e \<Longrightarrow>
   map_option (apsnd vmm_abs) (runloop lib view es st) =
     map_option (Pair True) (push_all (vmm_put lib view) (concat (map (bytes_to UART_SYS_BASE_ADDRESS) es)) (vmm_abs st)) \<and>
   (\<forall>go st'. runloop lib view es st = Some (go, st') \<longrightarrow>
      vmm_inv st' \<and> printed st' = printed st @ concat (map (bytes_to UART0_BASE_ADDRESS) es))"
proof (induction es arbitrary: st)
  case (Cons e es)
  show ?case
  proof (cases "\<exists>bs. e = MmioWrite UART_SYS_BASE_ADDRESS bs")
    case True
    then obtain c cs where e: "e = MmioWrite UART_SYS_BASE_ADDRESS (c # cs)"
      using Cons.prems(2) by (auto simp: neq_Nil_conv)
    have b: "bytes_to UART_SYS_BASE_ADDRESS e = [c]" "bytes_to UART0_BASE_ADDRESS e = []"
      by (simp_all add: e) (simp add: uart_addresses)
    note W = step_sys_write [OF Cons.prems(1), of lib view c cs, folded e]
    show ?thesis
    proof (cases "vmm_step lib view e st")
      case None
      then have "vmm_put lib view c (vmm_abs st) = None" using W(1) by simp
      then show ?thesis using None b by simp
    next
      case (Some r)
      obtain go st1 where r: "r = (go, st1)" by (cases r)
      have p: "go" "vmm_put lib view c (vmm_abs st) = Some (vmm_abs st1)"
        using W(1) Some r by (cases "vmm_put lib view c (vmm_abs st)"; simp)+
      have i: "vmm_inv st1" "printed st1 = printed st" using W(2) Some r by blast+
      show ?thesis using Cons.IH [OF i(1)] Cons.prems(2) Some r p b i(2) by simp
    qed
  next
    case False
    then obtain st1 where S: "vmm_step lib view e st = Some (True, st1)" "vmm_abs st1 = vmm_abs st" "vmm_inv st1"
        "printed st1 = printed st @ bytes_to UART0_BASE_ADDRESS e" "bytes_to UART_SYS_BASE_ADDRESS e = []"
      using step_other [of e lib view st] Cons.prems by auto
    show ?thesis using Cons.IH [OF S(3)] Cons.prems(2) S by simp
  qed
qed simp

text \<open>C9. The run loop of the VMM refines the port the kernel talks to. For every sequence of exits it goes on after,
  with accesses to the two ports and elsewhere in any order, what happens to the memory of the kernel is
  what the port does for the bytes stored into the data register of the second port, in their order: an
  unfinished request has at most seven bytes, and what is stored into the first port is printed and does not
  disturb requests. In particular, when these bytes are an address the kernel sends, the exits have
  the effect of \<open>uart_syscall_write\<close>.\<close>

theorem runloop_refines_port:
  assumes inv: "vmm_inv st" and go: "\<forall>e \<in> set es. goes_on e"
  defines "sent \<equiv> concat (map (bytes_to UART_SYS_BASE_ADDRESS) es)"
  shows "map_option (apsnd vmm_abs) (runloop lib view es st) =
       map_option (Pair True) (push_all (vmm_put lib view) sent (vmm_abs st)) \<and>
     (\<forall>v. sent = u64_bytes v \<longrightarrow> map_option (apsnd vmm_abs) (runloop lib view es st) =
       map_option (Pair True) (uart_syscall_write (vmm_port lib view) v (vmm_abs st))) \<and>
     (\<forall>r st'. runloop lib view es st = Some (r, st') \<longrightarrow>
       vmm_inv st' \<and> printed st' = printed st @ concat (map (bytes_to UART0_BASE_ADDRESS) es))"
  using runloop_requests [OF inv go] vp.write_all unfolding sent_def by metis

text \<open>An instance: a request for the block at \<open>0x1234\<close>, with output to the first port in between.\<close>

definition ex_device :: uart_device where
  "ex_device = \<lparr>data_reg = 0, flag_reg = 0, status_reg = 0, ibrd_reg = 0, fbrd_reg = 0, lcrh_reg = 0, cr_reg = 0,
     recv_buffer = []\<rparr>"

definition ex_vmm :: vmm_state where
  "ex_vmm = \<lparr>uart_dev0 = ex_device, uart_dev1 = ex_device, answers = [], printed = [], guest = ex_kst\<rparr>"

definition ex_exits :: "vcpu_exit list" where
  "ex_exits = [MmioRead UART_SYS_FR_ADDRESS [1], MmioWrite UART_SYS_BASE_ADDRESS [0x34], MmioWrite UART0_BASE_ADDRESS [65]] @
     map (\<lambda>b. MmioWrite UART_SYS_BASE_ADDRESS [b]) [0x12, 0, 0, 0, 0, 0, 0] @ [HypercallExit]"

theorem runloop_refines_port_witness:
  "map_option (apsnd vmm_abs) (runloop ex_libc (\<lambda>v. v) ex_exits ex_vmm) =
     map_option (Pair True) (uart_syscall_write (vmm_port ex_libc (\<lambda>v. v)) 0x1234 (vmm_abs ex_vmm))"
proof -
  have "vmm_inv ex_vmm" by (simp add: vmm_inv_def ex_vmm_def ex_device_def)
  moreover have "\<forall>e \<in> set ex_exits. goes_on e" by (simp add: ex_exits_def)
  moreover have "concat (map (bytes_to UART_SYS_BASE_ADDRESS) ex_exits) = u64_bytes 0x1234"
    by (simp add: ex_exits_def u64_bytes_eq) (simp add: uart_addresses)
  ultimately show ?thesis using runloop_refines_port by blast
qed

end
