(* ===== verification/Handler.thy ===== *)
theory Handler
  imports Syscall_Safety Vmm_Loop
begin

text \<open>
  The exception handlers of \<open>kernel/handler.c\<close>. A handler gets the saved context of the interrupted
  code; the only ones that give control back are those for a system call, the others ask the VMM to
  end the machine and go on only if it answers.
\<close>

subsection \<open>The syndrome register\<close>

definition esr_ISS :: "u64 \<Rightarrow> u64" where "esr_ISS e = e AND mask 25"
definition esr_IL :: "u64 \<Rightarrow> u64" where "esr_IL e = drop_bit 25 e AND 1"
definition esr_EC :: "u64 \<Rightarrow> u64" where "esr_EC e = drop_bit 26 e AND mask 6"
definition esr_ISS2 :: "u64 \<Rightarrow> u64" where "esr_ISS2 e = drop_bit 32 e AND mask 5"

definition EL1_EC_UKNOWN :: u64 where "EL1_EC_UKNOWN = 0"
definition EL1_EC_Trap_WF :: u64 where "EL1_EC_Trap_WF = 1"
definition EL1_EC_Trap_MCR_MRC :: u64 where "EL1_EC_Trap_MCR_MRC = 3"
definition EL1_EC_Trap_MCRR_MRRC :: u64 where "EL1_EC_Trap_MCRR_MRRC = 4"
definition EL1_EC_Trap_MCR_MR :: u64 where "EL1_EC_Trap_MCR_MR = 5"
definition EL1_EC_Trap_LDC_STC :: u64 where "EL1_EC_Trap_LDC_STC = 6"
definition EL1_EC_SVE_SIMD :: u64 where "EL1_EC_SVE_SIMD = 7"
definition EL1_EC_Trap_LDST64B :: u64 where "EL1_EC_Trap_LDST64B = 10"
definition EL1_EC_Trap_MRRC :: u64 where "EL1_EC_Trap_MRRC = 12"
definition EL1_EC_BR_Target :: u64 where "EL1_EC_BR_Target = 13"
definition EL1_EC_IllExec :: u64 where "EL1_EC_IllExec = 14"
definition EL1_EC_SVC_32 :: u64 where "EL1_EC_SVC_32 = 17"
definition EL1_EC_SVC_64 :: u64 where "EL1_EC_SVC_64 = 21"
definition EL1_EC_Trap_Other_Inst64 :: u64 where "EL1_EC_Trap_Other_Inst64 = 24"
definition EL1_EC_SVE_TRAP :: u64 where "EL1_EC_SVE_TRAP = 25"
definition EL1_EC_PTR_AUTH :: u64 where "EL1_EC_PTR_AUTH = 28"
definition EL1_EC_INST_ABORT_0 :: u64 where "EL1_EC_INST_ABORT_0 = 32"
definition EL1_EC_INST_ABORT_1 :: u64 where "EL1_EC_INST_ABORT_1 = 33"
definition EL1_EC_PC_ALIGN_FAULT :: u64 where "EL1_EC_PC_ALIGN_FAULT = 34"
definition EL1_EC_DATA_ABORT_0 :: u64 where "EL1_EC_DATA_ABORT_0 = 36"
definition EL1_EC_DATA_ABORT_1 :: u64 where "EL1_EC_DATA_ABORT_1 = 37"
definition EL1_EC_SP_ALIGN :: u64 where "EL1_EC_SP_ALIGN = 38"
definition EL1_EC_TRAP_FP_0 :: u64 where "EL1_EC_TRAP_FP_0 = 40"
definition EL1_EC_TRAP_FP_1 :: u64 where "EL1_EC_TRAP_FP_1 = 44"
definition EL1_EC_SError :: u64 where "EL1_EC_SError = 47"
definition EL1_EC_BP_Except_0 :: u64 where "EL1_EC_BP_Except_0 = 48"
definition EL1_EC_BP_Except_1 :: u64 where "EL1_EC_BP_Except_1 = 49"
definition EL1_EC_SW_Step_0 :: u64 where "EL1_EC_SW_Step_0 = 50"
definition EL1_EC_SW_Step_1 :: u64 where "EL1_EC_SW_Step_1 = 51"
definition EL1_EC_WP_0 :: u64 where "EL1_EC_WP_0 = 52"
definition EL1_EC_WP_1 :: u64 where "EL1_EC_WP_1 = 53"
definition EL1_EC_BKPT_32 :: u64 where "EL1_EC_BKPT_32 = 56"
definition EL1_EC_BKPT_64 :: u64 where "EL1_EC_BKPT_64 = 60"

lemmas ec_codes = EL1_EC_UKNOWN_def EL1_EC_Trap_WF_def EL1_EC_Trap_MCR_MRC_def EL1_EC_Trap_MCRR_MRRC_def EL1_EC_Trap_MCR_MR_def EL1_EC_Trap_LDC_STC_def EL1_EC_SVE_SIMD_def EL1_EC_Trap_LDST64B_def EL1_EC_Trap_MRRC_def EL1_EC_BR_Target_def EL1_EC_IllExec_def EL1_EC_SVC_32_def EL1_EC_SVC_64_def EL1_EC_Trap_Other_Inst64_def EL1_EC_SVE_TRAP_def EL1_EC_PTR_AUTH_def EL1_EC_INST_ABORT_0_def EL1_EC_INST_ABORT_1_def EL1_EC_PC_ALIGN_FAULT_def EL1_EC_DATA_ABORT_0_def EL1_EC_DATA_ABORT_1_def EL1_EC_SP_ALIGN_def EL1_EC_TRAP_FP_0_def EL1_EC_TRAP_FP_1_def EL1_EC_SError_def EL1_EC_BP_Except_0_def EL1_EC_BP_Except_1_def EL1_EC_SW_Step_0_def EL1_EC_SW_Step_1_def EL1_EC_WP_0_def EL1_EC_WP_1_def EL1_EC_BKPT_32_def EL1_EC_BKPT_64_def

subsection \<open>Fatal exceptions\<close>

definition vm_exit_unhandled_exception :: "machine \<Rightarrow> context_t \<Rightarrow> kst \<Rightarrow> (context_t \<times> kst) option" where
  "vm_exit_unhandled_exception env c s = do {
     s \<leftarrow> hvc_call_exit_fatal env (esr_EC (esr_el1 c)) s; Some (c, s) }"

definition trap_exception_handler :: "machine \<Rightarrow> context_t \<Rightarrow> kst \<Rightarrow> (context_t \<times> kst) option" where
  "trap_exception_handler env c s = vm_exit_unhandled_exception env c s"

text \<open>The fault status codes of a data or instruction abort (exception_defines.h).\<close>

definition iss_data_ifsfc :: "(string \<times> u16) list" where
  "iss_data_ifsfc =
    [(''ISS_DATA_IFSFC_ADR_SZ_L0'', 0),
     (''ISS_DATA_IFSFC_ADR_SZ_L1'', 1),
     (''ISS_DATA_IFSFC_ADR_SZ_L2'', 2),
     (''ISS_DATA_IFSFC_ADR_SZ_L3'', 3),
     (''ISS_DATA_IFSFC_TF_L0'', 4),
     (''ISS_DATA_IFSFC_TF_L1'', 5),
     (''ISS_DATA_IFSFC_TF_L2'', 6),
     (''ISS_DATA_IFSFC_TF_L3'', 7),
     (''ISS_DATA_IFSFC_ACF_L0'', 8),
     (''ISS_DATA_IFSFC_ACF_L1'', 9),
     (''ISS_DATA_IFSFC_ACF_L2'', 10),
     (''ISS_DATA_IFSFC_ACF_L3'', 11),
     (''ISS_DATA_IFSFC_PERM_F0'', 12),
     (''ISS_DATA_IFSFC_PERM_F1'', 13),
     (''ISS_DATA_IFSFC_PERM_F2'', 14),
     (''ISS_DATA_IFSFC_PERM_F3'', 15),
     (''ISS_DATA_IFSFC_SEA'', 16),
     (''ISS_DATA_IFSFC_TCF'', 17),
     (''ISS_DATA_IFSFC_SEA_TL0'', 20),
     (''ISS_DATA_IFSFC_SEA_TL1'', 21),
     (''ISS_DATA_IFSFC_SEA_TL2'', 22),
     (''ISS_DATA_IFSFC_SEA_TL3'', 23),
     (''ISS_DATA_IFSFC_SEA_ECCNT'', 24),
     (''ISS_DATA_IFSFC_SEA_ECC_TL'', 27),
     (''ISS_DATA_IFSFC_SEA_ECC_TL0'', 28),
     (''ISS_DATA_IFSFC_SEA_ECC_TL1'', 29),
     (''ISS_DATA_IFSFC_SEA_ECC_TL2'', 30),
     (''ISS_DATA_IFSFC_SEA_ECC_TL3'', 31),
     (''ISS_DATA_IFSFC_ALIGN_FAULT'', 33),
     (''ISS_DATA_IFSFC_ADRSZ_FAULT'', 41),
     (''ISS_DATA_IFSFC_TRANS_FAULT'', 43),
     (''ISS_DATA_IFSFC_TLB_ABORT'', 48),
     (''ISS_DATA_IFSFC_UNSUPPORTED'', 49),
     (''ISS_DATA_IFSFC_IMPL_DEFINE_LOCKED'', 52),
     (''ISS_DATA_IFSFC_IMPL_DEFINE_ATOMIC'', 53)]"

text \<open>The message of an abort: the switch gives each code its name.\<close>

definition abort_reason :: "u16 \<Rightarrow> string option" where
  "abort_reason cause = map_option fst (find (\<lambda>(name, code). code = cause) iss_data_ifsfc)"

definition abort_exception_handler :: "machine \<Rightarrow> context_t \<Rightarrow> kst \<Rightarrow> (context_t \<times> kst) option" where
  "abort_exception_handler env c s =
     (let cause = ucast (esr_ISS (esr_el1 c)) AND 0x3F in do {
        s \<leftarrow> (case abort_reason cause of None \<Rightarrow> Some s
             | Some reason \<Rightarrow> map_option snd (uart_send_byte_array (con_port env) (map of_char reason) 0 s));
        vm_exit_unhandled_exception env c s })"

definition sve_simd_fp_exception_handler :: "machine \<Rightarrow> context_t \<Rightarrow> kst \<Rightarrow> (context_t \<times> kst) option" where
  "sve_simd_fp_exception_handler env c s = vm_exit_unhandled_exception env c s"

definition unsupported_exception_handler :: "machine \<Rightarrow> context_t \<Rightarrow> kst \<Rightarrow> (context_t \<times> kst) option" where
  "unsupported_exception_handler env c s = vm_exit_unhandled_exception env c s"

definition system_exception_handler :: "machine \<Rightarrow> context_t \<Rightarrow> kst \<Rightarrow> (context_t \<times> kst) option" where
  "system_exception_handler env c s = vm_exit_unhandled_exception env c s"

definition svc_exception_handler :: "machine \<Rightarrow> context_t \<Rightarrow> kst \<Rightarrow> (context_t \<times> kst) option" where
  "svc_exception_handler env c s = kernel_system_call_entry_handler env c s"

definition debug_exception_handler :: "machine \<Rightarrow> context_t \<Rightarrow> kst \<Rightarrow> (context_t \<times> kst) option" where
  "debug_exception_handler env c s = vm_exit_unhandled_exception env c s"

definition stack_alignment_exception_handler :: "machine \<Rightarrow> context_t \<Rightarrow> kst \<Rightarrow> (context_t \<times> kst) option" where
  "stack_alignment_exception_handler env c s = vm_exit_unhandled_exception env c s"

lemmas fatal_exits = trap_exception_handler_def sve_simd_fp_exception_handler_def unsupported_exception_handler_def
  system_exception_handler_def debug_exception_handler_def stack_alignment_exception_handler_def

subsection \<open>Dispatch\<close>

text \<open>Two cases of the switch have no \<open>break\<close> and run into the next one.\<close>

definition sync_handler :: "machine \<Rightarrow> context_t \<Rightarrow> kst \<Rightarrow> (context_t \<times> kst) option" where
  "sync_handler env c s =
     (let ec = esr_EC (esr_el1 c) in
      if ec \<in> {EL1_EC_Trap_MCR_MRC, EL1_EC_Trap_MCRR_MRRC, EL1_EC_Trap_MCR_MR, EL1_EC_Trap_LDC_STC,
               EL1_EC_Trap_WF, EL1_EC_Trap_LDST64B, EL1_EC_Trap_MRRC}
      then trap_exception_handler env c s
      else if ec \<in> {EL1_EC_INST_ABORT_0, EL1_EC_INST_ABORT_1, EL1_EC_PC_ALIGN_FAULT,
                    EL1_EC_DATA_ABORT_0, EL1_EC_DATA_ABORT_1}
      then abort_exception_handler env c s
      else if ec = EL1_EC_SP_ALIGN
      then do {
        (c, s) \<leftarrow> stack_alignment_exception_handler env c s;
        sve_simd_fp_exception_handler env c s }
      else if ec \<in> {EL1_EC_SVE_SIMD, EL1_EC_TRAP_FP_0, EL1_EC_TRAP_FP_1}
      then sve_simd_fp_exception_handler env c s
      else if ec \<in> {EL1_EC_BP_Except_0, EL1_EC_BP_Except_1, EL1_EC_SW_Step_0, EL1_EC_SW_Step_1,
                    EL1_EC_WP_0, EL1_EC_WP_1, EL1_EC_BKPT_32, EL1_EC_BKPT_64, EL1_EC_IllExec,
                    EL1_EC_BR_Target}
      then do { (c, s) \<leftarrow> debug_exception_handler env c s; svc_exception_handler env c s }
      else if ec \<in> {EL1_EC_SVC_32, EL1_EC_SVC_64}
      then svc_exception_handler env c s
      else if ec \<in> {EL1_EC_Trap_Other_Inst64, EL1_EC_SVE_TRAP}
      then system_exception_handler env c s
      else unsupported_exception_handler env c s)"

definition irq_handler :: "machine \<Rightarrow> context_t \<Rightarrow> kst \<Rightarrow> (context_t \<times> kst) option" where
  "irq_handler env c s = vm_exit_unhandled_exception env c s"

definition fiq_handler :: "machine \<Rightarrow> context_t \<Rightarrow> kst \<Rightarrow> (context_t \<times> kst) option" where
  "fiq_handler env c s = vm_exit_unhandled_exception env c s"

definition serror_handler :: "machine \<Rightarrow> context_t \<Rightarrow> kst \<Rightarrow> (context_t \<times> kst) option" where
  "serror_handler env c s = vm_exit_unhandled_exception env c s"

text \<open>The handlers of \<open>exception_defines.h\<close> for exceptions taken in the kernel are empty.\<close>

definition serror_el1_handler :: "context_t \<Rightarrow> kst \<Rightarrow> kst" where "serror_el1_handler c s = s"
definition irq_el1_handler :: "context_t \<Rightarrow> kst \<Rightarrow> kst" where "irq_el1_handler c s = s"
definition fiq_el1_handler :: "context_t \<Rightarrow> kst \<Rightarrow> kst" where "fiq_el1_handler c s = s"

subsection \<open>Which exceptions come back\<close>

text \<open>
  The \<open>hvc\<close> instruction when the VMM is under the kernel: it leaves the run loop with \<open>HypercallExit\<close>, and the kernel
  goes on if the loop does. What the instruction leaves in \<open>x0\<close> is not part of the source.
\<close>

definition vmm_hvc ::
  "libc \<Rightarrow> (u64 \<Rightarrow> u64) \<Rightarrow> vmm_state \<Rightarrow> (u64 list \<Rightarrow> u64) \<Rightarrow> u64 \<Rightarrow> u64 list \<Rightarrow> kst \<Rightarrow> (u64 \<times> kst) option" where
  "vmm_hvc lib view st x0 code args s =
     (case vmm_step lib view HypercallExit (st\<lparr>guest := s\<rparr>) of
        Some (go, st') \<Rightarrow> (if go then Some (x0 args, guest st') else None)
      | None \<Rightarrow> None)"

definition debug_classes :: "u64 set" where
  "debug_classes = {EL1_EC_BP_Except_0, EL1_EC_BP_Except_1, EL1_EC_SW_Step_0, EL1_EC_SW_Step_1, EL1_EC_WP_0,
     EL1_EC_WP_1, EL1_EC_BKPT_32, EL1_EC_BKPT_64, EL1_EC_IllExec, EL1_EC_BR_Target}"

text \<open>The fatal exit: over the port it ends the machine, by the \<open>hvc\<close> instruction it does nothing.\<close>

lemma fatal_exit_ends:
  assumes "request_ready env lib view a xs p ys s"
  shows "hvc_call_exit_fatal env r s = None"
proof -
  obtain adr s1 where x: "view adr = of_nat (p + 32)"
    "\<forall>i < 7. cells s1 (of_nat (p + 32) + 8 * of_nat i) = [HVC_EXIT, r, 0, 0, 0, 0, 0] ! i"
    "hvc_call env HVC_EXIT r 0 0 0 0 0 s = do {
       s2 \<leftarrow> handle_hypercall lib view adr s1;
       s3 \<leftarrow> sfree (of_nat (p + 32)) (s2\<lparr>requests := []\<rparr>);
       Some (cells s2 (of_nat (p + 32)), s3) }"
    using io_request [OF assms, of HVC_EXIT r 0 0 0 0 0] by blast
  have "handle_hypercall lib view adr s1 = None" 
    using vmm_answers(3) [where view = view and adr = adr and code = HVC_EXIT and t = s1 and x = r and y = 0 and z = 0
        and u = 0 and v = 0 and w = 0 and lib = lib, OF x(1,2)] by simp
  then show ?thesis using x(3) by (simp add: hvc_call_exit_fatal_def)
qed

lemma fatal_exit_answered:
  assumes "hc_mode s = HVC_SYSCALL_HV" and "hvc env = vmm_hvc lib view st x0"
  shows "hvc_call_exit_fatal env r s = Some s"
  using assms
  by (simp add: hvc_call_exit_fatal_def hvc_call_def hvc_hypercall_def hypercall_macro_def hvc_codes vmm_hvc_def vmm_step_def)

lemma svc_result:
  "svc_exception_handler env c s =
     map_option (\<lambda>(r, s'). (c\<lparr>ctx_x := (ctx_x c)[0 := r]\<rparr>, s'))
       (syscall env (ctx_x c ! 8) (ctx_x c ! 0) (ctx_x c ! 1) (ctx_x c ! 2) (ctx_x c ! 3) (ctx_x c ! 4) (ctx_x c ! 5) s)"
  by (auto simp: svc_exception_handler_def kernel_system_call_entry_handler_def Let_def map_option_case
      split: option.splits)

text \<open>C14. What a synchronous exception does under the VMM, with a console that takes every byte. In the I/O mode the VMM
  ends the machine at every exception except a system call; a system call replaces the first register of the
  interrupted program by its result and leaves the rest of its context alone. In the other mode the VMM goes on
  after the fatal exit: then an exception of the debug classes also makes the system call that its registers
  happen to hold, since its case has no \<open>break\<close>, and all the others return with context and kernel as they were.\<close>

theorem exception_dispatch:
  fixes c :: context_t and s :: kst
  defines "ec \<equiv> esr_EC (esr_el1 c)" and "x \<equiv> ctx_x c"
  assumes con: "\<forall>cs t. \<exists>n. uart_send_byte_array (con_port env) cs 0 t = Some (n, t)"
    and vmm: "request_ready env lib view a xs p ys s \<or> hc_mode s = HVC_SYSCALL_HV \<and> hvc env = vmm_hvc lib view st x0"
  shows "sync_handler env c s =
     (if ec \<in> {EL1_EC_SVC_32, EL1_EC_SVC_64} \<or> hc_mode s = HVC_SYSCALL_HV \<and> ec \<in> debug_classes
      then map_option (\<lambda>(r, s'). (c\<lparr>ctx_x := x[0 := r]\<rparr>, s')) (syscall env (x ! 8) (x ! 0) (x ! 1) (x ! 2) (x ! 3) (x ! 4) (x ! 5) s)
      else if hc_mode s = HVC_SYSCALL_HV then Some (c, s) else None)"
proof -
  define m where "m = (hc_mode s = HVC_SYSCALL_HV)"
  have "hvc_call_exit_fatal env r s = (if m then Some s else None)" for r
  proof (cases "request_ready env lib view a xs p ys s")
    case True
    then have "\<not> m" by (simp add: request_ready_def m_def HVC_SYSCALL_HV_def HVC_SYSCALL_IO_def)
    then show ?thesis using fatal_exit_ends [OF True] by simp
  next
    case False
    then show ?thesis using vmm fatal_exit_answered by (auto simp: m_def)
  qed
  then have V: "vm_exit_unhandled_exception env c s = (if m then Some (c, s) else None)"
    by (simp add: vm_exit_unhandled_exception_def)
  have A: "abort_exception_handler env c s = vm_exit_unhandled_exception env c s"
  proof (cases "abort_reason (ucast (esr_ISS (esr_el1 c)) AND 0x3F)")
    case (Some reason)
    obtain n where "uart_send_byte_array (con_port env) (map of_char reason) 0 s = Some (n, s)" using con by blast
    then show ?thesis using Some by (simp add: abort_exception_handler_def)
  qed (simp add: abort_exception_handler_def)
  show ?thesis
    unfolding m_def [symmetric] sync_handler_def Let_def ec_def [symmetric] A svc_result x_def fatal_exits
    by (auto simp: V debug_classes_def ec_codes)
qed

definition ex_vmm_env :: machine where
  "ex_vmm_env = ex_env\<lparr>con_port := quiet_port, hvc := vmm_hvc ex_libc (\<lambda>v. v) ex_vmm (\<lambda>_. 0)\<rparr>"

definition ex_debug_context :: context_t where
  "ex_debug_context = zero_context\<lparr>esr_el1 := 0xC0000000, ctx_x := (replicate 32 0)[8 := 64, 0 := 4]\<rparr>"

text \<open>A data abort and a breakpoint in the I/O mode, and the same breakpoint in the other mode.\<close>

theorem exception_dispatch_witness:
  "sync_handler ex_vmm_env (zero_context\<lparr>esr_el1 := 0x92000006\<rparr>) ex_kst = None \<and>
   sync_handler ex_vmm_env ex_debug_context ex_kst = None \<and>
   sync_handler ex_vmm_env ex_debug_context (ex_kst\<lparr>hc_mode := 0\<rparr>) =
     Some (ex_debug_context\<lparr>ctx_x := (ctx_x ex_debug_context)[0 := to_u64 (- ENOENT)]\<rparr>, ex_kst\<lparr>hc_mode := 0\<rparr>)"
proof -
  have con: "\<forall>cs t. \<exists>n. uart_send_byte_array (con_port ex_vmm_env) cs 0 t = Some (n, t)"
    by (auto simp: ex_vmm_env_def quiet_sends)
  have io: "request_ready ex_vmm_env ex_libc (\<lambda>v. v) 0x80000 [(0x5000, False)] 0x80000 [(88, True), (0x5000 - 88, False)] ex_kst"
    using ex_request_ready by (simp add: request_ready_def ex_vmm_env_def)
  have hv: "hc_mode (ex_kst\<lparr>hc_mode := 0\<rparr>) = HVC_SYSCALL_HV \<and> hvc ex_vmm_env = vmm_hvc ex_libc (\<lambda>v. v) ex_vmm (\<lambda>_. 0)"
    by (simp add: ex_vmm_env_def HVC_SYSCALL_HV_def)
  have m: "hc_mode ex_kst \<noteq> HVC_SYSCALL_HV" by (simp add: ex_kst_def zero_kst_def HVC_SYSCALL_HV_def)
  have e: "esr_EC 0x92000006 = 36" "esr_EC (esr_el1 ex_debug_context) = 48"
    by (simp_all add: esr_EC_def ex_debug_context_def zero_context_def mask_eq_exp_minus_1)
  have sys: "syscall ex_vmm_env (ctx_x ex_debug_context ! 8) (ctx_x ex_debug_context ! 0) (ctx_x ex_debug_context ! 1)
      (ctx_x ex_debug_context ! 2) (ctx_x ex_debug_context ! 3) (ctx_x ex_debug_context ! 4) (ctx_x ex_debug_context ! 5)
      (ex_kst\<lparr>hc_mode := 0\<rparr>) = Some (to_u64 (- ENOENT), ex_kst\<lparr>hc_mode := 0\<rparr>)"
    by (simp add: ex_debug_context_def zero_context_def syscall_def sys_numbers sys_write_def get_host_fd_def
        get_current_process_pid_def node_search.simps ex_kst_def zero_kst_def zero_ks_def word_sless_alt ENOENT_def nth_list_update)
  have 1: "sync_handler ex_vmm_env (zero_context\<lparr>esr_el1 := 0x92000006\<rparr>) ex_kst = None"
    using exception_dispatch [OF con disjI1 [OF io], of "zero_context\<lparr>esr_el1 := 0x92000006\<rparr>"] m
    by (simp add: e) (simp add: ec_codes)
  have 2: "sync_handler ex_vmm_env ex_debug_context ex_kst = None"
    using exception_dispatch [OF con disjI1 [OF io], of ex_debug_context] m by (simp add: e) (simp add: ec_codes)
  have "(48 :: u64) \<in> debug_classes" by (simp add: debug_classes_def ec_codes)
  then show ?thesis
    using 1 2 exception_dispatch [OF con disjI2 [OF hv], of ex_debug_context] sys
    by (simp add: e HVC_SYSCALL_HV_def)
qed

end
