(* ===== verification/Vma.thy ===== *)
theory Vma
  imports Hypercall
begin

text \<open>
  Virtual memory regions and \<open>mmap\<close> (\<open>kernel/vma.c\<close>): lists of \<open>mem_region_t\<close>, the searches in
  them, the insertion of a region, and the functions that place and map new ones. A pointer to a
  region is its address in the region store; a \<open>mem_region_t **\<close> is the value of the pointer
  variable, returned updated. The value of an uninitialised variable is an argument \<open>uninit\<close>.
\<close>

subsection \<open>Regions\<close>

definition upd_region :: "u64 \<Rightarrow> (mem_region \<Rightarrow> mem_region) \<Rightarrow> kst \<Rightarrow> kst" where
  "upd_region p f s = s\<lparr>regions := (regions s)(p := f (regions s p))\<rparr>"

definition region_end :: "(u64 \<Rightarrow> mem_region) \<Rightarrow> u64 \<Rightarrow> u64" where
  "region_end rg p = va_base (rg p) + va_size (rg p)"

definition address_in_mmap_region :: "(u64 \<Rightarrow> mem_region) \<Rightarrow> u64 \<Rightarrow> u64 \<Rightarrow> bool" where
  "address_in_mmap_region rg src address =
     (if src = 0 then False else address \<ge> va_base (rg src) \<and> address \<le> region_end rg src)"

definition split_mmap_region :: "u64 \<Rightarrow> u64 \<Rightarrow> kst \<Rightarrow> (u64 \<times> kst) option" where
  "split_mmap_region src address s =
     (if src = 0 then Some (0, s)
      else do {
        (new, s) \<leftarrow> kmalloc sizeof_mem_region s;
        if new = 0 then Some (0, s)
        else
          let s = upd_region new (\<lambda>_. regions s src) s;
              s = upd_region new (\<lambda>r. r\<lparr>va_size := address - va_base r\<rparr>) s;
              s = upd_region new (\<lambda>r. r\<lparr>va_base := address\<rparr>) s;
              s = upd_region src (\<lambda>r. r\<lparr>va_size := va_size r - va_size (regions s new)\<rparr>) s
          in Some (new, s) })"

subsection \<open>Searches\<close>

partial_function (option) smr_loop :: "(u64 \<Rightarrow> mem_region) \<Rightarrow> u64 \<Rightarrow> u64 \<Rightarrow> u64 \<Rightarrow> u64 option" where
  "smr_loop rg sz head nxt =
     (if nxt = 0 then Some 0
      else if va_size (rg head) \<ge> sz then Some head
      else smr_loop rg sz nxt (region_next (rg nxt)))"

definition search_mmap_region :: "(u64 \<Rightarrow> mem_region) \<Rightarrow> u64 \<Rightarrow> u64 \<Rightarrow> u64 option" where
  "search_mmap_region rg region sz =
     (if region = 0 then Some 0
      else if region_next (rg region) = 0 then Some region
      else smr_loop rg sz region (region_next (rg region)))"

partial_function (option) smf_loop :: "(u64 \<Rightarrow> mem_region) \<Rightarrow> u64 \<Rightarrow> u64 \<Rightarrow> u64 \<Rightarrow> u64 option" where
  "smf_loop rg address request_end head =
     (if region_next (rg head) \<noteq> 0 then
        (if address \<ge> region_end rg head \<and> address < va_base (rg (region_next (rg head))) then Some head
         else smf_loop rg address request_end (region_next (rg head)))
      else if request_end \<le> region_end rg head then Some head
      else Some 0)"

definition search_mmap_region_fixed :: "(u64 \<Rightarrow> mem_region) \<Rightarrow> u64 \<Rightarrow> u64 \<Rightarrow> u64 \<Rightarrow> u64 option" where
  "search_mmap_region_fixed rg region address sz =
     (let request_end = address + sz in
      if region = 0 then Some 0
      else
        let range = region_end rg region in
        if range \<ge> request_end \<or> (address < range \<and> address \<ge> va_base (rg region)) then Some region
        else smf_loop rg address request_end region)"

subsection \<open>Insertion\<close>

text \<open>The result, the new value of \<open>*head\<close> and the new store.\<close>

partial_function (option) mri_loop ::
  "u64 \<Rightarrow> u64 \<Rightarrow> u64 \<Rightarrow> u64 \<Rightarrow> (u64 \<Rightarrow> mem_region) \<Rightarrow> (c_int \<times> u64 \<times> (u64 \<Rightarrow> mem_region)) option" where
  "mri_loop head to_insert prev cptr rg =
     (let insert_end = region_end rg to_insert in
      if region_next (rg cptr) \<noteq> 0 then
        let cur = region_end rg cptr in
        if va_base (rg cptr) > va_base (rg to_insert) then
          (if head = cptr then Some (1, to_insert, set_region_next to_insert cptr rg)
           else
             let rg = set_region_next to_insert (region_next (rg prev)) rg
             in Some (1, head, set_region_next prev to_insert rg))
        else if va_base (rg to_insert) \<ge> cur \<and> insert_end < va_base (rg (region_next (rg cptr))) then
          let rg = set_region_next to_insert (region_next (rg cptr)) rg
          in Some (1, head, set_region_next cptr to_insert rg)
        else mri_loop head to_insert cptr (region_next (rg cptr)) rg
      else if region_end rg cptr \<le> va_base (rg to_insert) then
        Some (1, head, set_region_next cptr to_insert rg)
      else Some (0, head, rg))"

definition mmap_region_insert ::
  "u64 \<Rightarrow> u64 \<Rightarrow> (u64 \<Rightarrow> mem_region) \<Rightarrow> (c_int \<times> u64 \<times> (u64 \<Rightarrow> mem_region)) option" where
  "mmap_region_insert head to_insert rg =
     (if head = 0 then Some (1, to_insert, rg) else mri_loop head to_insert head head rg)"

subsection \<open>Mapping\<close>

text \<open>The loop of \<open>generic_mmap\<close>, the same in both of its branches: \<open>n\<close> pages from \<open>va\<close> on.\<close>

fun gm_map_loop ::
  "machine \<Rightarrow> translation_tables \<Rightarrow> nat \<Rightarrow> u64 \<Rightarrow> c_int \<Rightarrow> kst \<Rightarrow> kst option" where
  "gm_map_loop env t 0 va prot s = Some s"
| "gm_map_loop env t (Suc n) va prot s =
     (let (frame, s) = kframe_allocate_secure 1 s in do {
        s \<leftarrow> (if frame = -1 then crash env s else Some s);
        (ret, s) \<leftarrow> kst_map t va frame prot 0 s;
        s \<leftarrow> (if ret \<noteq> 0 then crash env s else Some s);
        gm_map_loop env t n (va + PAGE_SIZE_4KB) prot s })"

definition generic_mmap ::
  "machine \<Rightarrow> translation_tables \<Rightarrow> u64 \<Rightarrow> c_int \<Rightarrow> c_int \<Rightarrow> u64 \<Rightarrow> u64 \<Rightarrow> c_int \<Rightarrow> c_int \<Rightarrow> c_int \<Rightarrow> u64 \<Rightarrow>
   kst \<Rightarrow> (u64 \<times> kst) option" where
  "generic_mmap env t head is_kern is_sec address sz prot fl fdn offset s =
     (if sz = 0 \<or> head = 0 then Some (MAP_FAILED, s)
      else
        let sz = PAGE_UP sz;
            fixed = (fl AND MAP_FIXED \<noteq> 0);
            fresh = (is_mapped (regions s head) = 0)
        in do {
          (region, search, s) \<leftarrow>
            (if fresh then Some (head, 0, s)
             else do {
               search \<leftarrow> (if fixed then search_mmap_region_fixed (regions s) head address sz
                         else search_mmap_region (regions s) head sz);
               if fixed \<and> search = MAP_FAILED then Some (0, 0, s)
               else
                 let search = (if search = 0 then address else search) in do {
                 (region, s) \<leftarrow> kcalloc sizeof_kernel_struct 1 s;
                 Some (region, search, if region = 0 then s else upd_region region (\<lambda>_. zero_region) s) } });
          if region = 0 then Some (MAP_FAILED, s)
          else
            let base = (if fresh then (if fixed then address else mmap_start (ks s)) else search);
                s = upd_region region (\<lambda>r. r\<lparr>is_kernel := is_kern, is_secure := is_sec, va_size := sz,
                      perm := prot, va_base := base, is_mapped := 1\<rparr>) s
            in do {
              s \<leftarrow> gm_map_loop env t (unat (sz div PAGE_SIZE_4KB)) base prot s;
              if region \<noteq> head then do {
                (_, nxt, rg) \<leftarrow> mmap_region_insert (region_next (regions s head)) region (regions s);
                Some (base, s\<lparr>regions := set_region_next head nxt rg\<rparr>) }
              else Some (base, s) } })"

definition kernel_mmap_insecure ::
  "machine \<Rightarrow> u64 \<Rightarrow> u64 \<Rightarrow> c_int \<Rightarrow> c_int \<Rightarrow> c_int \<Rightarrow> u64 \<Rightarrow> kst \<Rightarrow> (u64 \<times> kst) option" where
  "kernel_mmap_insecure env address sz prot fl fdn offset s =
     generic_mmap env (secure_t (ks s)) (mmap_region_head (ks s)) 1 0 address sz
       (perm_to_pt prot OR PT_KERNEL) fl fdn offset s"

definition kernel_mmap ::
  "machine \<Rightarrow> u64 \<Rightarrow> u64 \<Rightarrow> c_int \<Rightarrow> c_int \<Rightarrow> c_int \<Rightarrow> u64 \<Rightarrow> kst \<Rightarrow> (u64 \<times> kst) option" where
  "kernel_mmap env address sz prot fl fdn offset s =
     generic_mmap env (secure_t (ks s)) (mmap_region_head (ks s)) 1 1 address sz
       (perm_to_pt prot OR PT_KERNEL) fl fdn offset s"

definition sys_mmap_user ::
  "machine \<Rightarrow> translation_tables \<Rightarrow> u64 \<Rightarrow> u64 \<Rightarrow> u64 \<Rightarrow> c_int \<Rightarrow> c_int \<Rightarrow> c_int \<Rightarrow> u64 \<Rightarrow> kst \<Rightarrow>
   (u64 \<times> kst) option" where
  "sys_mmap_user env t region address sz prot fl fdn offset s =
     generic_mmap env t region 0 1 address sz (perm_to_pt prot OR PT_USER) fl fdn offset s"

subsection \<open>Region arithmetic\<close>

definition can_extend_vma :: "(u64 \<Rightarrow> mem_region) \<Rightarrow> u64 \<Rightarrow> u64 \<Rightarrow> bool" where
  "can_extend_vma rg src final_size =
     (if src = 0 then False
      else
        let nxt = region_next (rg src) in
        if nxt = 0 then True
        else if is_mapped (rg nxt) = 1 then False
        else if final_size + va_base (rg src) = 0 then True
        else va_base (rg src) + final_size \<le> region_end rg nxt)"

definition extend_vma :: "u64 \<Rightarrow> u64 \<Rightarrow> kst \<Rightarrow> u64 \<times> kst" where
  "extend_vma target final_size s =
     (if target = 0 then (0, s)
      else if va_size (regions s target) \<ge> final_size then (target, s)
      else
        let nxt = region_next (regions s target) in
        if nxt \<noteq> 0 then
          (if va_size (regions s nxt) + va_size (regions s target) \<le> final_size then
             let extension = final_size - va_size (regions s target);
                 s = upd_region nxt (\<lambda>r. r\<lparr>va_size := va_size r - extension\<rparr>) s;
                 s = upd_region nxt (\<lambda>r. r\<lparr>va_base := va_base r + extension\<rparr>) s;
                 s = upd_region target (\<lambda>r. r\<lparr>va_size := va_size r + extension\<rparr>) s
             in (0, s)
           else (0, s))
        else (target, upd_region target (\<lambda>r. r\<lparr>va_size := final_size\<rparr>) s))"

definition coalesce_vma :: "u64 \<Rightarrow> kst \<Rightarrow> (u64 \<times> kst) option" where
  "coalesce_vma start s =
     (if start = 0 then Some (0, s)
      else if region_next (regions s start) = 0 then Some (start, s)
      else
        let nxt = region_next (regions s start);
            s = upd_region start (\<lambda>r. r\<lparr>va_size := region_end (regions s) nxt - va_base r\<rparr>) s;
            s = upd_region start (\<lambda>r. r\<lparr>region_next := region_next (regions s nxt)\<rparr>) s
        in do { s \<leftarrow> kfree nxt s; Some (start, s) })"

definition split_vma :: "u64 \<Rightarrow> u64 \<Rightarrow> u64 \<Rightarrow> kst \<Rightarrow> (u64 \<times> kst) option" where
  "split_vma cwr address final_size s =
     (if cwr = 0 then Some (0, s)
      else if va_base (regions s cwr) > address then Some (0, s)
      else if va_size (regions s cwr) \<le> final_size then Some (cwr, s)
      else if va_base (regions s cwr) = address then do {
        (second, s) \<leftarrow> kmalloc sizeof_mem_region s;
        if second = 0 then Some (0, s)
        else
          let s = upd_region second (\<lambda>_. regions s cwr) s;
              s = upd_region cwr (\<lambda>r. r\<lparr>region_next := second, va_size := final_size\<rparr>) s;
              s = upd_region second (\<lambda>r. r\<lparr>va_size := va_size r - final_size, va_base := address + final_size\<rparr>) s
          in Some (cwr, s) }
      else if address + final_size = region_end (regions s) cwr then do {
        (second, s) \<leftarrow> kmalloc sizeof_mem_region s;
        if second = 0 then Some (0, s)
        else
          let s = upd_region second (\<lambda>_. regions s cwr) s;
              s = upd_region cwr (\<lambda>r. r\<lparr>region_next := second\<rparr>) s;
              s = upd_region second (\<lambda>r. r\<lparr>va_size := final_size, va_base := address\<rparr>) s;
              s = upd_region cwr (\<lambda>r. r\<lparr>va_size := va_size r - final_size\<rparr>) s
          in Some (second, s) }
      else do {
        (second, s) \<leftarrow> split_mmap_region cwr address s;
        if second = 0 then Some (0, s)
        else do {
          (third, s) \<leftarrow> split_mmap_region second (address + final_size) s;
          if third = 0 then do { (_, s) \<leftarrow> coalesce_vma cwr s; Some (0, s) }
          else Some (third, s) } })"

subsection \<open>Placement\<close>

text \<open>
  \<open>user_vma_alloc\<close>: both tests behind \<open>allocate_new\<close> read through \<open>location\<close> exactly when it is
  null, so the code at the two labels at the end is never reached.
\<close>

definition user_vma_alloc ::
  "u64 \<Rightarrow> u64 \<Rightarrow> u64 \<Rightarrow> u64 \<Rightarrow> c_int \<Rightarrow> c_int \<Rightarrow> kst \<Rightarrow> (u64 \<times> kst) option" where
  "user_vma_alloc uninit head address page_count fl prm s =
     (let request_size = page_count * PAGE_SIZE_4KB in do {
        (location, s) \<leftarrow>
          (if head = 0 then Some (0, s)
           else do {
             (_, s) \<leftarrow> coalesce_vma head s;
             location \<leftarrow> (if fl = MAP_FIXED then search_mmap_region_fixed (regions s) head address request_size
                         else search_mmap_region (regions s) head request_size);
             Some (location, s) });
        if location \<noteq> 0 \<and> is_mapped (regions s location) \<noteq> 0 then Some (location, s)
        else if location \<noteq> 0 \<and> va_size (regions s location) = request_size then Some (location, s)
        else do {
          (new_region, s) \<leftarrow> kcalloc sizeof_mem_region 1 s;
          if new_region = 0 then Some (0, s)
          else if location = 0 then None
          else Some (new_region, upd_region new_region (\<lambda>_. zero_region\<lparr>perm := prm, va_base := uninit,
                 va_size := page_count * PAGE_SIZE_4KB\<rparr>) s) } })"

definition kernel_vma_alloc :: "u64 \<Rightarrow> u64 \<Rightarrow> u64 \<Rightarrow> c_int \<Rightarrow> kst \<Rightarrow> (u64 \<times> kst) option" where
  "kernel_vma_alloc uninit address page_count fl s =
     (let request_size = page_count * PAGE_SIZE_4KB;
          head = mmap_region_head (ks s);
          finish = (\<lambda>target s. do {
            (new_region, s) \<leftarrow> kcalloc sizeof_mem_region 1 s;
            if new_region = 0 then Some (0, s)
            else Some (new_region, upd_region new_region (\<lambda>_. zero_region\<lparr>is_mapped := 1, is_kernel := 1,
                   va_base := target, va_size := page_count * PAGE_SIZE_4KB, perm := PROT_R OR PROT_W,
                   is_page_table := 1\<rparr>) s) })
      in if is_mapped (regions s head) \<noteq> 0 then do {
           target \<leftarrow> (if fl = MAP_FIXED then search_mmap_region_fixed (regions s) head address request_size
                     else search_mmap_region (regions s) head request_size);
           if target = 0 \<or> target = -1 then Some (0, s) else finish target s }
         else do {
           (new_region, s) \<leftarrow> kcalloc sizeof_mem_region 1 s;
           if new_region = 0 then Some (0, s)
           else
             let s = upd_region new_region (\<lambda>_. regions s head) s;
                 s = upd_region head (\<lambda>r. r\<lparr>region_next := new_region\<rparr>) s
             in if fl = MAP_FIXED then
                  (if address > va_base (regions s head) then
                     let s = upd_region new_region (\<lambda>r. r\<lparr>va_base := address, va_size := request_size\<rparr>) s;
                         s = upd_region head (\<lambda>r. r\<lparr>va_size := va_size r - request_size\<rparr>) s
                     in finish uninit s
                   else if address = va_base (regions s head) then
                     let s = upd_region head (\<lambda>r. r\<lparr>va_size := request_size\<rparr>) s;
                         s = upd_region new_region (\<lambda>r. r\<lparr>va_size := va_size r - request_size\<rparr>) s
                     in Some (head, s)
                   else Some (0, s))
                else
                  let s = upd_region head (\<lambda>r. r\<lparr>va_size := request_size\<rparr>) s;
                      s = upd_region new_region (\<lambda>r. r\<lparr>va_size := va_size r - request_size\<rparr>) s;
                      s = upd_region new_region
                            (\<lambda>r. r\<lparr>va_base := va_base (regions s head) + request_size\<rparr>) s
                  in Some (head, s) })"

subsection \<open>The tables of a process\<close>

text \<open>\<open>page_table_map_kernel\<close> for \<open>n\<close> consecutive pages, its result ignored.\<close>

fun map_kernel_pages ::
  "nat \<Rightarrow> u64 \<Rightarrow> u64 \<Rightarrow> c_int \<Rightarrow> kst \<Rightarrow> kst option" where
  "map_kernel_pages 0 va pa prot s = Some s"
| "map_kernel_pages (Suc n) va pa prot s = do {
     (_, s) \<leftarrow> kst_map_kernel (secure_t (ks s)) va pa prot s;
     map_kernel_pages n (va + PAGE_SIZE_4KB) (pa + PAGE_SIZE_4KB) prot s }"

definition create_user_translation_table ::
  "u64 \<Rightarrow> machine \<Rightarrow> translation_tables \<Rightarrow> kst \<Rightarrow> (translation_tables \<times> kst) option" where
  "create_user_translation_table uninit env t s =
     (let (pgd, s) = kframe_allocate_secure 1 s;
          (pud, s) = kframe_allocate_secure 1 s;
          (pmd, s) = kframe_allocate_secure 1 s;
          (pt3, s) = kframe_allocate_secure 4 s;
          t = t\<lparr>PGD := pgd, PUD := pud, PMD := pmd, PT3 := pt3\<rparr>
      in do {
        s \<leftarrow> (if pgd = -1 \<or> pud = -1 \<or> pmd = -1 \<or> pt3 = -1 then crash env s else Some s);
        (region, s) \<leftarrow> kernel_vma_alloc uninit 0 8 0 s;
        s \<leftarrow> (if region = 0 then crash env s else Some s);
        if region = 0 then None
        else
          let va = va_base (regions s region) in do {
          (_, s) \<leftarrow> kst_map_kernel (secure_t (ks s)) va pgd PROT_RW s;
          (_, s) \<leftarrow> kst_map_kernel (secure_t (ks s)) (va + 0x1000) pud PROT_RW s;
          (_, s) \<leftarrow> kst_map_kernel (secure_t (ks s)) (va + 0x2000) pmd PROT_RW s;
          s \<leftarrow> map_kernel_pages 4 (va + 0x3000) pt3 PROT_RW s;
          Some (t\<lparr>va_PGD := va, va_PUD := va + 0x1000, va_PMD := va + 0x2000, va_PT3 := va + 0x3000\<rparr>, s) } })"

end
