(* ===== verification/Vma_Safety.thy ===== *)
theory Vma_Safety
  imports Vma PageMap Vmm
begin

text \<open>
  Properties of the regions and of \<open>mmap\<close>: a mapping puts fresh frames under exactly its pages; a
  second mapping is placed at the address of a kernel record; insertion in ascending order.
\<close>

subsection \<open>The mapping loop\<close>

abbreviation sec_avail :: "kst \<Rightarrow> u64 set" where
  "sec_avail s \<equiv> kf_avail (bytes s, secure_frames (ks s))"

abbreviation sec_inv :: "kst \<Rightarrow> bool" where
  "sec_inv s \<equiv> kf_inv (bytes s) (secure_frames (ks s))"

text \<open>The bytes of the bitmap; nothing else in byte memory changes when frames are taken.\<close>

definition bitmap_area :: "kframe_alloc \<Rightarrow> u64 set" where
  "bitmap_area fa = {x. unat (x - bitmap_frame fa) < unat (frame_count fa)}"

text \<open>The invariants of the frames only read the bitmap.\<close>

lemma kf_cong:
  assumes "\<forall>x \<in> bitmap_area fa. m' x = m x"
  shows "kf_inv m' fa = kf_inv m fa" "kf_avail (m', fa) = kf_avail (m, fa)" "kf_free_set m' fa = kf_free_set m fa"
proof -
  have "m' (bitmap_frame fa + of_nat k) = m (bitmap_frame fa + of_nat k)" if "k < unat (frame_count fa)" for k
    using assms that unat_less_2p64 [of "frame_count fa"] by (simp add: bitmap_area_def unat_of_nat_u64)
  then have "kf_free_set m' fa = kf_free_set m fa" "\<forall>k < unat (frame_count fa). m' (bitmap_frame fa + of_nat k) = m (bitmap_frame fa + of_nat k)"
    by (auto simp: kf_free_set_def kf_free_at_def)
  then show "kf_inv m' fa = kf_inv m fa" "kf_avail (m', fa) = kf_avail (m, fa)" "kf_free_set m' fa = kf_free_set m fa"
    by (auto simp: kf_inv_def kf_avail_def)
qed

lemma range1_bytes:
  assumes "kf_inv m fa" and "kframe_allocate_range m fa 1 = (r, m', fa')"
  shows "bitmap_area fa' = bitmap_area fa" and "x \<notin> bitmap_area fa \<Longrightarrow> m' x = m x"
proof (atomize (full), cases rule: kf_range1_cases [OF assms(1)])
  case (1 k m1)
  have "k < unat (frame_count fa)" using 1(2) by (simp add: kf_free_set_def)
  then have "bitmap_frame fa + of_nat k \<in> bitmap_area fa"
    using unat_less_2p64 [of "frame_count fa"] by (simp add: bitmap_area_def unat_of_nat_u64)
  then show "bitmap_area fa' = bitmap_area fa \<and> (x \<notin> bitmap_area fa \<longrightarrow> m' x = m x)"
    using 1(1,6) assms(2) by (auto simp: bitmap_area_def)
qed (use assms(2) in simp)

lemma secure_frame:
  assumes "sec_inv s" and "sec_avail s \<noteq> {}"
  obtains r m fa where "kframe_allocate_secure 1 s = (r, s\<lparr>bytes := m, ks := (ks s)\<lparr>secure_frames := fa\<rparr>\<rparr>)"
    "r \<in> sec_avail s" "r \<noteq> -1" "kf_inv m fa" "kf_avail (m, fa) = sec_avail s - {r}"
    "bitmap_area fa = bitmap_area (secure_frames (ks s))"
    "\<forall>x. x \<notin> bitmap_area (secure_frames (ks s)) \<longrightarrow> m x = bytes s x"
proof -
  obtain r m fa where a: "kf_alloc1 (bytes s, secure_frames (ks s)) = (r, m, fa)" by (metis prod_cases3)
  have "r \<in> sec_avail s \<and> kf_inv m fa \<and> kf_avail (m, fa) = sec_avail s - {r}"
    using kf.alloc_some [of "(bytes s, secure_frames (ks s))", OF _ assms(2) a] assms(1) by simp
  moreover have "r \<noteq> -1"
    using calculation kf.avail_managed [of "(bytes s, secure_frames (ks s))"]
      kf.failed_not_managed [of "(bytes s, secure_frames (ks s))"] assms(1) by auto
  moreover have "kframe_allocate_secure 1 s = (r, s\<lparr>bytes := m, ks := (ks s)\<lparr>secure_frames := fa\<rparr>\<rparr>)"
    using a by (simp add: kframe_allocate_secure_def kf_alloc1_def)
  moreover have "kframe_allocate_range (bytes s) (secure_frames (ks s)) 1 = (r, m, fa)"
    using a by (simp add: kf_alloc1_def)
  ultimately show thesis using that range1_bytes [OF assms(1)] by metis
qed

lemma pt_page_next:
  assumes "pt_page t va < 262144"
  shows "pt_page t (va + PAGE_SIZE_4KB) = Suc (pt_page t va)"
proof -
  have e: "va + PAGE_SIZE_4KB - start_va t = (va - start_va t) + 4096"
    by (simp add: PAGE_SIZE_4KB_def)
  have "unat (va - start_va t) < 262144 * 4096"
    using assms unfolding pt_page_def by (simp add: div_less_iff_less_mult)
  then have "unat ((va - start_va t) + 4096) = unat (va - start_va t) + 4096"
    by (simp add: unat_add_nowrap)
  then show ?thesis unfolding pt_page_def e by simp
qed

definition mapped_to :: "translation_tables \<Rightarrow> nat \<Rightarrow> nat \<Rightarrow> u64 list \<Rightarrow> c_int \<Rightarrow> wordmem \<Rightarrow> wordmem \<Rightarrow> bool" where
  "mapped_to t n p0 fs prot w w' \<longleftrightarrow>
     (\<forall>va'. pt_in_range t n va' \<longrightarrow>
        pt_walk t w' va' = (if p0 \<le> pt_page t va' \<and> pt_page t va' < p0 + length fs
                            then Some (page_descriptor (fs ! (pt_page t va' - p0)) prot 0)
                            else pt_walk t w va'))"

lemma mapped_to_step:
  assumes "\<forall>va'. pt_in_range t n va' \<longrightarrow> pt_walk t w1 va' =
      (if pt_page t va' = p0 then Some (page_descriptor f prot 0) else pt_walk t w va')"
    and "mapped_to t n (Suc p0) fs prot w1 w'"
  shows "mapped_to t n p0 (f # fs) prot w w'"
  unfolding mapped_to_def
proof (intro allI impI)
  fix va' assume r: "pt_in_range t n va'"
  note w1 = assms(1) [rule_format, OF r]
  note w' = assms(2) [unfolded mapped_to_def, rule_format, OF r]
  show "pt_walk t w' va' = (if p0 \<le> pt_page t va' \<and> pt_page t va' < p0 + length (f # fs)
      then Some (page_descriptor ((f # fs) ! (pt_page t va' - p0)) prot 0) else pt_walk t w va')"
  proof (cases "pt_page t va' \<le> p0")
    case True
    then show ?thesis using w1 w' by (cases "pt_page t va' = p0") simp_all
  next
    case False
    then obtain j where "pt_page t va' = Suc p0 + j" by (metis not_less_eq_eq le_Suc_ex)
    then show ?thesis using w1 w' by simp
  qed
qed

lemma gm_map_loop_maps:
  assumes "pt_layout t n" and "low_flags prot"
  shows "pt_inv t n (cells s) \<Longrightarrow> sec_inv s \<Longrightarrow> k \<le> card (sec_avail s) \<Longrightarrow> pt_page t va + k \<le> n * 512 \<Longrightarrow>
    \<exists>m fa w fs. gm_map_loop env t k va prot s =
        Some (s\<lparr>bytes := m, ks := (ks s)\<lparr>secure_frames := fa\<rparr>, cells := w\<rparr>) \<and>
      pt_inv t n w \<and> kf_inv m fa \<and> distinct fs \<and> length fs = k \<and> set fs \<subseteq> sec_avail s \<and>
      kf_avail (m, fa) = sec_avail s - set fs \<and> mapped_to t n (pt_page t va) fs prot (cells s) w \<and>
      (\<forall>x. x \<notin> bitmap_area (secure_frames (ks s)) \<longrightarrow> m x = bytes s x) \<and>
      (\<forall>x. x \<notin> pt_cell t ` pt_slots n \<longrightarrow> w x = cells s x) \<and> bitmap_area fa = bitmap_area (secure_frames (ks s))"
proof (induction k arbitrary: s va)
  case 0
  have "s = s\<lparr>bytes := bytes s, ks := (ks s)\<lparr>secure_frames := secure_frames (ks s)\<rparr>, cells := cells s\<rparr>" by simp
  then show ?case using 0
    by (intro exI [of _ "bytes s"] exI [of _ "secure_frames (ks s)"] exI [of _ "cells s"] exI [of _ "[]"])
      (auto simp: mapped_to_def)
next
  case (Suc k)
  have n: "n \<le> 512" using assms(1) by (simp add: pt_layout_def)
  have fin: "finite (sec_avail s)" using kf.finite_avail [of "(bytes s, secure_frames (ks s))"] Suc.prems(2) by simp
  have ne: "sec_avail s \<noteq> {}" using Suc.prems(3) by auto
  obtain r m fa where a: "kframe_allocate_secure 1 s = (r, s\<lparr>bytes := m, ks := (ks s)\<lparr>secure_frames := fa\<rparr>\<rparr>)"
    "r \<in> sec_avail s" "r \<noteq> -1" "kf_inv m fa" "kf_avail (m, fa) = sec_avail s - {r}"
    "bitmap_area fa = bitmap_area (secure_frames (ks s))"
    "\<forall>x. x \<notin> bitmap_area (secure_frames (ks s)) \<longrightarrow> m x = bytes s x"
    by (rule secure_frame [OF Suc.prems(2) ne])
  have rng: "pt_in_range t n va" using Suc.prems(4) by (simp add: pt_in_range_def)
  obtain w1 where w1: "page_table_map t va r prot 0 (cells s) = Some (0, w1)" "pt_inv t n w1"
    "\<forall>va'. pt_in_range t n va' \<longrightarrow> pt_walk t w1 va' =
      (if pt_page t va' = pt_page t va then Some (page_descriptor r prot 0) else pt_walk t (cells s) va')"
    using page_table_map_walk [OF assms(1) Suc.prems(1) rng assms(2), of r 0] by blast
  define s1 where "s1 = s\<lparr>bytes := m, ks := (ks s)\<lparr>secure_frames := fa\<rparr>, cells := w1\<rparr>"
  have nxt: "pt_page t (va + PAGE_SIZE_4KB) = Suc (pt_page t va)"
    by (rule pt_page_next) (use Suc.prems(4) n in linarith)
  have s1f: "cells s1 = w1" "bytes s1 = m" "secure_frames (ks s1) = fa" by (simp_all add: s1_def)
  have "k \<le> card (sec_avail s1)"
    using Suc.prems(3) a(2,5) fin by (simp add: s1f card_Diff_singleton)
  then obtain m' fa' w' fs where I: "gm_map_loop env t k (va + PAGE_SIZE_4KB) prot s1 =
      Some (s1\<lparr>bytes := m', ks := (ks s1)\<lparr>secure_frames := fa'\<rparr>, cells := w'\<rparr>)"
    "pt_inv t n w'" "kf_inv m' fa'" "distinct fs" "length fs = k" "set fs \<subseteq> sec_avail s1"
    "kf_avail (m', fa') = sec_avail s1 - set fs"
    "mapped_to t n (pt_page t (va + PAGE_SIZE_4KB)) fs prot (cells s1) w'"
    "\<forall>x. x \<notin> bitmap_area (secure_frames (ks s1)) \<longrightarrow> m' x = bytes s1 x"
    "\<forall>x. x \<notin> pt_cell t ` pt_slots n \<longrightarrow> w' x = cells s1 x" "bitmap_area fa' = bitmap_area (secure_frames (ks s1))"
    using Suc.IH [of s1 "va + PAGE_SIZE_4KB"] w1(2) a(4) Suc.prems(4) nxt by (auto simp: s1f)
  have "gm_map_loop env t (Suc k) va prot s =
      Some (s\<lparr>bytes := m', ks := (ks s)\<lparr>secure_frames := fa'\<rparr>, cells := w'\<rparr>)"
    using a(1,3) w1(1) I(1) by (simp add: kst_map_def s1_def)
  moreover have "mapped_to t n (pt_page t va) (r # fs) prot (cells s) w'"
    by (rule mapped_to_step [OF w1(3)]) (use I(8) nxt in \<open>simp add: s1f\<close>)
  moreover have "distinct (r # fs)" "set (r # fs) \<subseteq> sec_avail s" "kf_avail (m', fa') = sec_avail s - set (r # fs)"
    using I(4,6,7) a(2,5) by (auto simp: s1f)
  moreover have "\<forall>x. x \<notin> bitmap_area (secure_frames (ks s)) \<longrightarrow> m' x = bytes s x"
    using I(9) a(6,7) by (simp add: s1f)
  moreover have "\<forall>x. x \<notin> pt_cell t ` pt_slots n \<longrightarrow> w' x = cells s x"
    using I(10) page_table_map_frame [OF assms(1) rng w1(1)] by (simp add: s1f)
  moreover have "bitmap_area fa' = bitmap_area (secure_frames (ks s))" using I(11) a(6) by (simp add: s1f)
  ultimately show ?case using I(2,3,5)
    by (intro exI [of _ m'] exI [of _ fa'] exI [of _ w'] exI [of _ "r # fs"]) simp
qed

lemma user_flags_low: "low_flags (perm_to_pt prot OR PT_USER)"
  by (simp add: perm_to_pt_value PT_USER_def PT_RO_def low_flags_def)

subsection \<open>The first mapping of a process\<close>

lemma sys_mmap_user_first:
  fixes s :: kst and sz :: u64
  defines "k \<equiv> unat (PAGE_UP sz div PAGE_SIZE_4KB)"
  assumes "pt_layout t n" and "pt_inv t n (cells s)" and "sec_inv s" and "k \<le> card (sec_avail s)"
    and "pt_page t address + k \<le> n * 512" and "sz \<noteq> 0" and "head \<noteq> 0" and "is_mapped (regions s head) = 0"
  shows "\<exists>s' fs. sys_mmap_user env t head address sz prot MAP_FIXED fdn offset s = Some (address, s') \<and>
     distinct fs \<and> length fs = k \<and> set fs \<subseteq> sec_avail s \<and> sec_avail s' = sec_avail s - set fs \<and>
     mapped_to t n (pt_page t address) fs (perm_to_pt prot OR PT_USER) (cells s) (cells s') \<and>
     pt_inv t n (cells s') \<and> sec_inv s' \<and>
     va_base (regions s' head) = address \<and> va_size (regions s' head) = PAGE_UP sz \<and>
     is_mapped (regions s' head) = 1 \<and> procs s' = procs s \<and>
     (\<forall>x. x \<notin> bitmap_area (secure_frames (ks s)) \<longrightarrow> bytes s' x = bytes s x) \<and>
     (\<forall>x. x \<notin> pt_cell t ` pt_slots n \<longrightarrow> cells s' x = cells s x) \<and>
     bitmap_area (secure_frames (ks s')) = bitmap_area (secure_frames (ks s)) \<and> private_heap s' = private_heap s \<and>
     region_next (regions s' head) = region_next (regions s head)"
proof -
  let ?p = "perm_to_pt prot OR PT_USER"
  define s1 where "s1 = upd_region head (\<lambda>r. r\<lparr>is_kernel := 0, is_secure := 1, va_size := PAGE_UP sz,
      perm := ?p, va_base := address, is_mapped := 1\<rparr>) s"
  have f: "cells s1 = cells s" "bytes s1 = bytes s" "ks s1 = ks s" by (simp_all add: s1_def upd_region_def)
  obtain m fa w fs where I: "gm_map_loop env t k address ?p s1 =
        Some (s1\<lparr>bytes := m, ks := (ks s1)\<lparr>secure_frames := fa\<rparr>, cells := w\<rparr>)"
      "pt_inv t n w" "kf_inv m fa" "distinct fs" "length fs = k" "set fs \<subseteq> sec_avail s1"
      "kf_avail (m, fa) = sec_avail s1 - set fs" "mapped_to t n (pt_page t address) fs ?p (cells s1) w"
      "\<forall>x. x \<notin> bitmap_area (secure_frames (ks s1)) \<longrightarrow> m x = bytes s1 x"
      "\<forall>x. x \<notin> pt_cell t ` pt_slots n \<longrightarrow> w x = cells s1 x" "bitmap_area fa = bitmap_area (secure_frames (ks s1))"
    using gm_map_loop_maps [OF assms(2) user_flags_low, of s1 k address env prot] assms(3-6)
    by (auto simp: f)
  have "sys_mmap_user env t head address sz prot MAP_FIXED fdn offset s =
      Some (address, s1\<lparr>bytes := m, ks := (ks s1)\<lparr>secure_frames := fa\<rparr>, cells := w\<rparr>)"
    using I(1) assms(7-9)
    by (simp add: sys_mmap_user_def generic_mmap_def MAP_FIXED_def k_def [symmetric] s1_def Let_def)
  then show ?thesis using I(2-11)
    by (intro exI [of _ "s1\<lparr>bytes := m, ks := (ks s1)\<lparr>secure_frames := fa\<rparr>, cells := w\<rparr>"] exI [of _ fs])
      (auto simp: f s1_def upd_region_def)
qed

text \<open>C13. The first fixed \<open>sys_mmap_user\<close> of a process, on its unmapped head region, maps: it returns
  the requested address, takes as many frames as there are pages, all free before and different from
  each other, makes the four-level walk send the k-th page of the range to the k-th of them and
  every other page where it went before, and keeps the invariants of the tables and the allocator.\<close>

theorem sys_mmap_user_maps:
  fixes s :: kst and sz :: u64
  defines "k \<equiv> unat (PAGE_UP sz div PAGE_SIZE_4KB)"
  assumes "pt_layout t n" and "pt_inv t n (cells s)" and "sec_inv s" and "k \<le> card (sec_avail s)"
    and "pt_page t address + k \<le> n * 512" and "sz \<noteq> 0" and "head \<noteq> 0" and "is_mapped (regions s head) = 0"
  shows "\<exists>s' fs. sys_mmap_user env t head address sz prot MAP_FIXED fdn offset s = Some (address, s') \<and>
     distinct fs \<and> length fs = k \<and> set fs \<subseteq> sec_avail s \<and> sec_avail s' = sec_avail s - set fs \<and>
     mapped_to t n (pt_page t address) fs (perm_to_pt prot OR PT_USER) (cells s) (cells s') \<and>
     pt_inv t n (cells s') \<and> sec_inv s' \<and>
     va_base (regions s' head) = address \<and> va_size (regions s' head) = PAGE_UP sz \<and>
     is_mapped (regions s' head) = 1"
  using sys_mmap_user_first [OF assms(2-4) assms(5,6) [unfolded k_def] assms(7-9)] unfolding k_def by blast

subsection \<open>A second mapping\<close>

text \<open>A second mapping that is not fixed is not placed in free address space: the search returns
  the address of the record of the first region, and the pages are mapped at, and the caller gets,
  that address, which is in the kernel's heap.\<close>

lemma mmap_second_at_record:
  fixes s :: kst and p :: nat
  defines "q \<equiv> (of_nat (p + 32) :: u64)"
  assumes "is_mapped (regions s head) \<noteq> 0" and "region_next (regions s head) = 0" and "head \<noteq> 0"
    and "sz \<noteq> 0" and "fl AND MAP_FIXED = 0"
    and "layout (cells s) a xs 0" and "heap_head (private_heap s) = of_nat a" and "40 \<le> a"
    and "first_fit a 656 xs = Some (p, ys)" and "q \<noteq> head"
  shows "\<exists>s1. va_base (regions s1 q) = head \<and> regions s1 head = regions s head \<and>
     generic_mmap env t head is_kern is_sec address sz prot fl fdn offset s = do {
       s2 \<leftarrow> gm_map_loop env t (unat (PAGE_UP sz div PAGE_SIZE_4KB)) head prot s1;
       (_, nxt, rg) \<leftarrow> mmap_region_insert (region_next (regions s2 head)) q (regions s2);
       Some (head, s2\<lparr>regions := set_region_next head nxt rg\<rparr>) }"
proof -
  have "\<exists>h m b. kcalloc sizeof_kernel_struct 1 s =
      Some (of_nat (p + 32), s\<lparr>private_heap := h, cells := m, bytes := b\<rparr>) \<and>
     layout m a ys 0 \<and> heap_head h = of_nat a \<and> (of_nat (p + 32) :: u64) \<noteq> 0"
    by (rule kcalloc_fits [OF assms(7-9)])
      (simp_all add: sizeof_kernel_struct_def need_of_def assms(10))
  then obtain h m b where c: "kcalloc sizeof_kernel_struct 1 s = Some (q, s\<lparr>private_heap := h, cells := m, bytes := b\<rparr>)"
    "q \<noteq> 0" unfolding q_def by blast
  have S: "search_mmap_region (regions s) head (PAGE_UP sz) = Some head"
    using assms(3,4) by (simp add: search_mmap_region_def)
  define s0 where "s0 = upd_region q (\<lambda>_. zero_region) (s\<lparr>private_heap := h, cells := m, bytes := b\<rparr>)"
  define s1 where "s1 = upd_region q (\<lambda>r. r\<lparr>is_kernel := is_kern, is_secure := is_sec, va_size := PAGE_UP sz,
      perm := prot, va_base := head, is_mapped := 1\<rparr>) s0"
  have "generic_mmap env t head is_kern is_sec address sz prot fl fdn offset s = do {
       s2 \<leftarrow> gm_map_loop env t (unat (PAGE_UP sz div PAGE_SIZE_4KB)) head prot s1;
       (_, nxt, rg) \<leftarrow> mmap_region_insert (region_next (regions s2 head)) q (regions s2);
       Some (head, s2\<lparr>regions := set_region_next head nxt rg\<rparr>) }"
    using assms(2,4-6,11) c S
    by (simp add: generic_mmap_def Let_def s1_def s0_def)
  moreover have "va_base (regions s1 q) = head" "regions s1 head = regions s head"
    using assms(11) by (simp_all add: s1_def s0_def upd_region_def)
  ultimately show ?thesis by blast
qed

subsection \<open>Insertion\<close>

lemma mri_loop_ascending:
  assumes "va_base (rg ti) \<le> region_end rg ti"
  shows "chain (\<lambda>q. region_next (rg q)) c xs \<Longrightarrow> xs \<noteq> [] \<Longrightarrow>
     \<forall>x \<in> set xs. va_base (rg x) \<le> va_base (rg ti) \<and> region_end rg x \<le> va_base (rg ti) \<Longrightarrow>
     mri_loop head ti prev c rg = Some (1, head, set_region_next (last xs) ti rg)"
proof (induction xs arbitrary: prev c)
  case (Cons x xs)
  show ?case
  proof (cases xs)
    case Nil
    then show ?thesis using Cons.prems by (subst mri_loop.simps) (simp add: Let_def)
  next
    case (Cons y ys)
    then have nxt: "c = x" "region_next (rg x) = y" "y \<noteq> 0" "y \<in> set xs" using Cons.prems(1) by auto
    have "\<not> region_end rg ti < va_base (rg y)" "\<not> va_base (rg ti) < va_base (rg x)"
      using Cons.prems(3) nxt(4) assms by force+
    then have "mri_loop head ti prev c rg = mri_loop head ti x y rg"
      using nxt by (subst mri_loop.simps) (simp add: Let_def)
    moreover have "mri_loop head ti x y rg = Some (1, head, set_region_next (last xs) ti rg)"
      using Cons.IH [of y x] Cons.prems nxt(2) Cons by auto
    ultimately show ?thesis using Cons by simp
  qed
qed simp

text \<open>C23. A region that lies behind all regions of a list is appended to it by
  \<open>mmap_region_insert\<close>: the result is 1, the head stays, the list has exactly one more region, at
  the end, and every region keeps all its fields, except that the last one now points to the new one.
  This is how the boot code builds the map of the kernel.\<close>

theorem mmap_region_insert_ascending:
  assumes "chain (\<lambda>q. region_next (rg q)) head xs" and "xs \<noteq> []"
    and "to_insert \<noteq> 0" and "to_insert \<notin> set xs" and "region_next (rg to_insert) = 0"
    and "va_base (rg to_insert) \<le> region_end rg to_insert"
    and "\<forall>x \<in> set xs. va_base (rg x) \<le> va_base (rg to_insert) \<and> region_end rg x \<le> va_base (rg to_insert)"
  shows "\<exists>rg'. mmap_region_insert head to_insert rg = Some (1, head, rg') \<and>
     chain (\<lambda>q. region_next (rg' q)) head (xs @ [to_insert]) \<and>
     rg' = rg(last xs := (rg (last xs))\<lparr>region_next := to_insert\<rparr>)"
proof -
  have "head \<noteq> 0" using assms(1,2) by (cases xs) auto
  then have "mmap_region_insert head to_insert rg = Some (1, head, set_region_next (last xs) to_insert rg)"
    using mri_loop_ascending [OF assms(6,1,2,7)] by (simp add: mmap_region_insert_def)
  moreover have "chain (\<lambda>q. region_next (set_region_next (last xs) to_insert rg q)) head (xs @ [to_insert])"
    by (rule rgl.append_node [OF assms(1-5)])
  ultimately show ?thesis by (auto simp: set_region_next_def)
qed

text \<open>In front of a single region nothing is inserted: the region is dropped.\<close>

lemma mmap_region_insert_drops:
  assumes "head \<noteq> 0" "region_next (rg head) = 0" "va_base (rg to_insert) < region_end rg head"
  shows "mmap_region_insert head to_insert rg = Some (0, head, rg)"
  using assms by (simp add: mmap_region_insert_def mri_loop.simps [of head to_insert head head])

subsection \<open>Instances\<close>

text \<open>A fresh process with the table set \<open>ex_tt\<close> and four free secure frames.\<close>

definition ex_mm :: kst where
  "ex_mm = zero_kst\<lparr>ks := zero_ks\<lparr>secure_frames := zero_frames\<lparr>frame_count := 4, frame_start := 0x50000000,
     bitmap_frame := 0x7000, bitmap_count := 4, available_frame_count := 4\<rparr>\<rparr>\<rparr>"

lemma ex_mm_frames:
  "sec_inv ex_mm" "card (sec_avail ex_mm) = 4"
proof -
  let ?fa = "secure_frames (ks ex_mm)"
  have wf: "kf_wf ?fa"
    by (simp add: ex_mm_def kf_wf_def zero_frames_def)
  have fs: "kf_free_set (bytes ex_mm) ?fa = {..<4}"
    by (auto simp: ex_mm_def kf_free_set_def kf_free_at_def zero_kst_def zero_frames_def KFRAME_FREE_def)
  show "sec_inv ex_mm" using wf fs
    by (simp add: kf_inv_def ex_mm_def zero_kst_def zero_frames_def KFRAME_FREE_def)
  have "inj_on (kf_addr ?fa) {..<4}"
    by (rule inj_on_subset [OF kf_addr_inj [OF wf]]) (auto simp: ex_mm_def)
  then show "card (sec_avail ex_mm) = 4" by (simp add: kf_avail_def fs card_image)
qed

theorem sys_mmap_user_maps_witness:
  "\<exists>s' fs. sys_mmap_user ex_env ex_tt 0x3000 0x400000 0x1800 PROT_R MAP_FIXED 0 0 ex_mm = Some (0x400000, s') \<and>
     distinct fs \<and> length fs = unat (PAGE_UP 0x1800 div PAGE_SIZE_4KB) \<and> set fs \<subseteq> sec_avail ex_mm \<and>
     sec_avail s' = sec_avail ex_mm - set fs \<and>
     mapped_to ex_tt 4 (pt_page ex_tt 0x400000) fs (perm_to_pt PROT_R OR PT_USER) (cells ex_mm) (cells s') \<and>
     pt_inv ex_tt 4 (cells s') \<and> sec_inv s' \<and>
     va_base (regions s' 0x3000) = 0x400000 \<and> va_size (regions s' 0x3000) = PAGE_UP 0x1800 \<and>
     is_mapped (regions s' 0x3000) = 1"
proof (rule sys_mmap_user_maps [OF ex_tt_layout])
  show "pt_inv ex_tt 4 (cells ex_mm)" by (simp add: ex_mm_def zero_kst_def pt_inv_zero)
  show "sec_inv ex_mm" by (rule ex_mm_frames)
  show "unat (PAGE_UP 0x1800 div PAGE_SIZE_4KB) \<le> card (sec_avail ex_mm)"
    by (simp add: ex_mm_frames PAGE_UP_def PAGE_SIZE_4KB_def)
  show "pt_page ex_tt 0x400000 + unat (PAGE_UP 0x1800 div PAGE_SIZE_4KB) \<le> 4 * 512"
    by (simp add: pt_page_def ex_tt_def PAGE_UP_def PAGE_SIZE_4KB_def)
qed (simp_all add: ex_mm_def zero_kst_def zero_region_def)

definition ex_second :: kst where
  "ex_second = (ex_heap 0xFFFFF00000402000)\<lparr>regions := (\<lambda>_. zero_region)
     (0x3000 := zero_region\<lparr>is_mapped := 1, va_base := 0x400000, va_size := 0x2000\<rparr>)\<rparr>"

lemma mmap_second_at_record_witness:
  "\<exists>s1. va_base (regions s1 (of_nat (0xFFFFF00000400000 + 32))) = 0x3000 \<and>
     regions s1 0x3000 = regions ex_second 0x3000 \<and>
     generic_mmap ex_env ex_tt 0x3000 0 1 0 0x1000 0 0 0 0 ex_second = do {
       s2 \<leftarrow> gm_map_loop ex_env ex_tt (unat (PAGE_UP 0x1000 div PAGE_SIZE_4KB)) 0x3000 0 s1;
       (_, nxt, rg) \<leftarrow> mmap_region_insert (region_next (regions s2 0x3000))
           (of_nat (0xFFFFF00000400000 + 32)) (regions s2);
       Some (0x3000, s2\<lparr>regions := set_region_next 0x3000 nxt rg\<rparr>) }"
  by (rule mmap_second_at_record [where a = "0xFFFFF00000400000" and xs = "[(0x5000, False)]" and
        ys = "[(656, True), (0x5000 - 656, False)]"])
    (simp_all add: ex_second_def ex_heap_def zero_region_def)

definition ex_regions :: "u64 \<Rightarrow> mem_region" where
  "ex_regions = (\<lambda>_. zero_region)(0x100 := zero_region\<lparr>va_base := 0x1000, va_size := 0x1000, region_next := 0x200\<rparr>,
     0x200 := zero_region\<lparr>va_base := 0x2000, va_size := 0x3000\<rparr>,
     0x300 := zero_region\<lparr>va_base := 0x5000, va_size := 0x1000\<rparr>)"

theorem mmap_region_insert_ascending_witness:
  "\<exists>rg'. mmap_region_insert 0x100 0x300 ex_regions = Some (1, 0x100, rg') \<and>
     chain (\<lambda>q. region_next (rg' q)) 0x100 ([0x100, 0x200] @ [0x300]) \<and>
     rg' = ex_regions(last [0x100, 0x200] := (ex_regions (last [0x100, 0x200]))\<lparr>region_next := 0x300\<rparr>)"
  by (rule mmap_region_insert_ascending)
    (simp_all add: ex_regions_def zero_region_def region_end_def)

end
