(* ===== verification/Elf.thy ===== *)
theory Elf
  imports Memops Uart
begin

text \<open>
  The ELF structures of \<open>kernel/elf.h\<close>. A structure is laid out by the rule of the C ABI, every field
  at the next multiple of its alignment; the \<open>read_\<close> functions read a structure from memory. The
  header also gives the offsets and lengths of the fields as macros; they are the \<open>_macros\<close> lists.
\<close>

subsection \<open>Little-endian reads and writes\<close>

definition load_le :: "bytemem \<Rightarrow> u64 \<Rightarrow> nat \<Rightarrow> u64" where
  "load_le m p n = le_value (map (\<lambda>i. m (p + of_nat i)) [0..<n])"

definition store32 :: "bytemem \<Rightarrow> u64 \<Rightarrow> u32 \<Rightarrow> bytemem" where
  "store32 m p v = (\<lambda>x. if unat (x - p) < 4 then ucast (drop_bit (8 * unat (x - p)) v) else m x)"

lemma load64_store64: "load_le (store64 m p v) p 8 = v"
proof -
  have "map (\<lambda>i. store64 m p v (p + of_nat i)) [0..<8] = u64_bytes v"
    by (simp add: store64_def u64_bytes_def unat_of_nat upt_rec)
  then show ?thesis by (simp add: load_le_def le_value_u64_bytes)
qed

lemma load32_store32: "load_le (store32 m p v) p 4 = ucast v"
proof -
  have e: "map (\<lambda>i. store32 m p v (p + of_nat i)) [0..<4] = map (\<lambda>i. ucast (drop_bit (8 * i) v)) [0..<4]"
    by (simp add: store32_def unat_of_nat upt_rec)
  show ?thesis unfolding load_le_def e
  proof (rule bit_word_eqI)
    fix n assume n: "n < LENGTH(64)"
    have "8 * (n div 8) + n mod 8 = n" "n div 8 < 4 \<longleftrightarrow> n < 32" by auto
    then show "bit (le_value (map (\<lambda>i. ucast (drop_bit (8 * i) v)) [0..<4])) n = bit (ucast v :: u64) n"
      using n by (cases "n < 32") (auto simp: bit_le_value bit_ucast_iff bit_drop_bit_eq dest: bit_imp_le_length)
  qed
qed

lemma load_le_cong:
  "\<forall>i < n. m' (p + of_nat i) = m (p + of_nat i) \<Longrightarrow> load_le m' p n = load_le m p n"
  unfolding load_le_def by (intro arg_cong [of _ _ le_value] map_cong) auto

lemma window:
  fixes x v :: u64
  assumes "k + n \<le> 18446744073709551616"
  shows "unat (x - (v + of_nat k)) < n \<longleftrightarrow> k \<le> unat (x - v) \<and> unat (x - v) < k + n"
proof (cases "n = 0")
  case False
  then have k: "unat (of_nat k :: u64) = k" using assms by (intro unat_of_nat_u64) simp
  have e: "x - (v + of_nat k) = (x - v) - of_nat k" by simp
  show ?thesis
  proof (cases "k \<le> unat (x - v)")
    case True
    then have "unat ((x - v) - of_nat k) = unat (x - v) - k"
      using k by (subst unat_sub_le) (auto simp: word_le_nat_alt)
    then show ?thesis unfolding e using True by auto
  next
    case ge: False
    have "unat ((x - v) - of_nat k) = 18446744073709551616 + unat (x - v) - k"
      using ge k unat_less_2p64 [of "x - v"] unat_less_2p64 [of "of_nat k"]
      by (simp add: unat_word_ariths(1) unat_sub_if' word_le_nat_alt)
    then show ?thesis unfolding e using ge assms by auto
  qed
qed simp

subsection \<open>Constants\<close>

definition ET_EXEC :: u16 where "ET_EXEC = 2"
definition ET_DYN :: u16 where "ET_DYN = 3"
definition PT_LOAD :: u32 where "PT_LOAD = 1"
definition PF_R :: c_int where "PF_R = 4"
definition PF_W :: c_int where "PF_W = 2"
definition PF_X :: c_int where "PF_X = 1"
definition ELF64_SHT_RELA :: u32 where "ELF64_SHT_RELA = 4"
definition RAARCH64_ABS64 :: u64 where "RAARCH64_ABS64 = 257"
definition RAARCH64_GLOB_DATA :: u64 where "RAARCH64_GLOB_DATA = 1025"
definition RAARCH64_JUMP_SLOT :: u64 where "RAARCH64_JUMP_SLOT = 1026"
definition RAARCH64_RELATIVE :: u64 where "RAARCH64_RELATIVE = 1027"

definition ELF64_R_SYM :: "u64 \<Rightarrow> u64" where "ELF64_R_SYM i = drop_bit 32 i"
definition ELF64_R_TYPE :: "u64 \<Rightarrow> u64" where "ELF64_R_TYPE i = i AND 0xFFFFFFFF"
definition ELF64_R_INFO :: "u64 \<Rightarrow> u64 \<Rightarrow> u64" where
  "ELF64_R_INFO s t = push_bit 32 s + (t AND 0xFFFFFFFF)"

lemma ELF64_R_INFO_fields:
  assumes "unat s < 2 ^ 32"
  shows "ELF64_R_SYM (ELF64_R_INFO s t) = s" and "ELF64_R_TYPE (ELF64_R_INFO s t) = t AND 0xFFFFFFFF"
proof -
  have m: "(0xFFFFFFFF :: u64) = mask 32" by (simp add: mask_eq_exp_minus_1)
  have "push_bit 32 s AND (t AND mask 32) = 0"
    by (rule bit_word_eqI) (auto simp: bit_simps)
  then have e: "ELF64_R_INFO s t = push_bit 32 s OR (t AND mask 32)"
    unfolding ELF64_R_INFO_def m by (simp add: disjunctive_add_eq_or)
  have "take_bit 32 s = s"
    using assms by (simp add: word_unat_eq_iff unsigned_take_bit_eq take_bit_nat_eq_self)
  then have s: "bit s n \<Longrightarrow> n < 32" for n by (metis bit_take_bit_iff)
  show "ELF64_R_SYM (ELF64_R_INFO s t) = s"
    unfolding ELF64_R_SYM_def e by (rule bit_word_eqI) (use s in \<open>auto simp: bit_simps\<close>)
  show "ELF64_R_TYPE (ELF64_R_INFO s t) = t AND 0xFFFFFFFF"
    unfolding ELF64_R_TYPE_def m e by (rule bit_word_eqI) (auto simp: bit_simps)
qed

subsection \<open>Layout\<close>

text \<open>Offsets and lengths of fields, each given by alignment and length.\<close>

fun place :: "nat \<Rightarrow> (nat \<times> nat) list \<Rightarrow> (nat \<times> nat) list" where
  "place i [] = []"
| "place i ((a, n) # fs) = (let i = (i + a - 1) div a * a in (i, n) # place (i + n) fs)"

abbreviation char_array :: "nat \<Rightarrow> nat \<times> nat" where "char_array n \<equiv> (1, n)"
abbreviation half :: "nat \<times> nat" where "half \<equiv> (2, 2)"
abbreviation wrd :: "nat \<times> nat" where "wrd \<equiv> (4, 4)"
abbreviation xword :: "nat \<times> nat" where "xword \<equiv> (8, 8)"

definition ehdr_layout :: "(nat \<times> nat) list" where
  "ehdr_layout = place 0 [char_array 16, half, half, wrd, xword, xword, xword, wrd, half, half, half, half, half, half]"

definition phdr_layout :: "(nat \<times> nat) list" where
  "phdr_layout = place 0 [wrd, wrd, xword, xword, xword, xword, xword, xword]"

definition shdr_layout :: "(nat \<times> nat) list" where
  "shdr_layout = place 0 [wrd, wrd, xword, xword, xword, xword, wrd, wrd, xword, xword]"

definition sym_layout :: "(nat \<times> nat) list" where
  "sym_layout = place 0 [wrd, char_array 1, char_array 1, half, xword, xword]"

definition rel_layout :: "(nat \<times> nat) list" where "rel_layout = place 0 [xword, xword]"
definition rela_layout :: "(nat \<times> nat) list" where "rela_layout = place 0 [xword, xword, xword]"

definition field_at :: "bytemem \<Rightarrow> u64 \<Rightarrow> (nat \<times> nat) list \<Rightarrow> nat \<Rightarrow> u64" where
  "field_at m p fs i = load_le m (p + of_nat (fst (fs ! i))) (snd (fs ! i))"

lemma layouts:
  "ehdr_layout = [(0, 16), (16, 2), (18, 2), (20, 4), (24, 8), (32, 8), (40, 8), (48, 4), (52, 2),
     (54, 2), (56, 2), (58, 2), (60, 2), (62, 2)]"
  "phdr_layout = [(0, 4), (4, 4), (8, 8), (16, 8), (24, 8), (32, 8), (40, 8), (48, 8)]"
  "shdr_layout = [(0, 4), (4, 4), (8, 8), (16, 8), (24, 8), (32, 8), (40, 4), (44, 4), (48, 8), (56, 8)]"
  "sym_layout = [(0, 4), (4, 1), (5, 1), (6, 2), (8, 8), (16, 8)]"
  "rel_layout = [(0, 8), (8, 8)]"
  "rela_layout = [(0, 8), (8, 8), (16, 8)]"
  by code_simp+

subsection \<open>Structures\<close>

record elf64_ehdr =
  e_type :: u16
  e_machine :: u16
  e_version :: u32
  e_entry :: u64
  e_phoff :: u64
  e_shoff :: u64
  e_flags :: u32
  e_ehsize :: u16
  e_phentsize :: u16
  e_phnum :: u16
  e_shentsize :: u16
  e_shnum :: u16
  e_shstrndx :: u16

record elf64_phdr =
  p_type :: u32
  p_flags :: u32
  p_offset :: u64
  p_vaddr :: u64
  p_paddr :: u64
  p_filesz :: u64
  p_memsz :: u64
  p_align :: u64

record elf64_shdr =
  sh_name :: u32
  sh_type :: u32
  sh_flags :: u64
  sh_addr :: u64
  sh_offset :: u64
  sh_size :: u64
  sh_link :: u32
  sh_info :: u32
  sh_addralign :: u64
  sh_entsize :: u64

record elf64_sym =
  st_name :: u32
  st_info :: u8
  st_other :: u8
  st_shndx :: u16
  st_value :: u64
  st_size :: u64

record elf64_rela =
  r_offset :: u64
  r_info :: u64
  r_addend :: u64

text \<open>\<open>e_ident\<close>, the first field of the file header, is not read by the code.\<close>

definition read_ehdr :: "bytemem \<Rightarrow> u64 \<Rightarrow> elf64_ehdr" where
  "read_ehdr m p = (let g = field_at m p ehdr_layout in
     \<lparr>e_type = ucast (g 1), e_machine = ucast (g 2), e_version = ucast (g 3), e_entry = g 4, e_phoff = g 5,
      e_shoff = g 6, e_flags = ucast (g 7), e_ehsize = ucast (g 8), e_phentsize = ucast (g 9),
      e_phnum = ucast (g 10), e_shentsize = ucast (g 11), e_shnum = ucast (g 12), e_shstrndx = ucast (g 13)\<rparr>)"

definition read_phdr :: "bytemem \<Rightarrow> u64 \<Rightarrow> elf64_phdr" where
  "read_phdr m p = (let g = field_at m p phdr_layout in
     \<lparr>p_type = ucast (g 0), p_flags = ucast (g 1), p_offset = g 2, p_vaddr = g 3, p_paddr = g 4,
      p_filesz = g 5, p_memsz = g 6, p_align = g 7\<rparr>)"

definition read_shdr :: "bytemem \<Rightarrow> u64 \<Rightarrow> elf64_shdr" where
  "read_shdr m p = (let g = field_at m p shdr_layout in
     \<lparr>sh_name = ucast (g 0), sh_type = ucast (g 1), sh_flags = g 2, sh_addr = g 3, sh_offset = g 4,
      sh_size = g 5, sh_link = ucast (g 6), sh_info = ucast (g 7), sh_addralign = g 8, sh_entsize = g 9\<rparr>)"

definition read_sym :: "bytemem \<Rightarrow> u64 \<Rightarrow> elf64_sym" where
  "read_sym m p = (let g = field_at m p sym_layout in
     \<lparr>st_name = ucast (g 0), st_info = ucast (g 1), st_other = ucast (g 2), st_shndx = ucast (g 3),
      st_value = g 4, st_size = g 5\<rparr>)"

definition read_rela :: "bytemem \<Rightarrow> u64 \<Rightarrow> elf64_rela" where
  "read_rela m p = (let g = field_at m p rela_layout in
     \<lparr>r_offset = g 0, r_info = g 1, r_addend = g 2\<rparr>)"

text \<open>The sizes of the structures: the offset behind the last field.\<close>

definition sizeof_layout :: "(nat \<times> nat) list \<Rightarrow> nat" where
  "sizeof_layout fs = fst (last fs) + snd (last fs)"

lemma elf_sizes:
  "sizeof_layout ehdr_layout = 64" "sizeof_layout phdr_layout = 56" "sizeof_layout shdr_layout = 64"
  "sizeof_layout sym_layout = 24" "sizeof_layout rel_layout = 16" "sizeof_layout rela_layout = 24"
  by (simp_all add: sizeof_layout_def layouts)

subsection \<open>The macros\<close>

definition ELF64HDR_macros :: "(nat \<times> nat) list" where
  "ELF64HDR_macros = [(0, 16), (16, 2), (18, 2), (20, 4), (24, 8), (32, 8), (40, 8), (48, 4), (52, 2),
     (54, 2), (56, 2), (58, 2), (60, 2), (62, 2)]"

text \<open>The macros of the other structures, where each offset is the sum of the offset and the length before it.\<close>

fun running :: "nat \<Rightarrow> nat list \<Rightarrow> (nat \<times> nat) list" where
  "running i [] = []"
| "running i (n # ns) = (i, n) # running (i + n) ns"

definition ELF64_SH_macros :: "(nat \<times> nat) list" where
  "ELF64_SH_macros = running 0 [4, 4, 8, 8, 8, 8, 4, 4, 4, 4]"

definition ELF64_ST_macros :: "(nat \<times> nat) list" where
  "ELF64_ST_macros = running 0 [4, 1, 1, 2, 8, 8]"

definition ELF64_REL_macros :: "(nat \<times> nat) list" where "ELF64_REL_macros = [(0, 8), (8, 8)]"
definition ELF64_RELA_macros :: "(nat \<times> nat) list" where "ELF64_RELA_macros = [(0, 8), (8, 8), (16, 8)]"

text \<open>
  The macros describe the structures, except for the two last fields of a section header: the
  macros give the alignment field four bytes, so that the entry size would be read four bytes early.
\<close>

lemma elf_macros_agree:
  "ELF64HDR_macros = ehdr_layout" "ELF64_ST_macros = sym_layout" "ELF64_REL_macros = rel_layout"
  "ELF64_RELA_macros = rela_layout" "take 8 ELF64_SH_macros = take 8 shdr_layout"
  by (simp_all add: ELF64HDR_macros_def ELF64_ST_macros_def ELF64_REL_macros_def ELF64_RELA_macros_def
      ELF64_SH_macros_def layouts)

lemma elf_macros_entsize: "ELF64_SH_macros ! 9 = (52, 4)" "shdr_layout ! 9 = (56, 8)"
  by (simp_all add: ELF64_SH_macros_def layouts)

subsection \<open>Windows of memory\<close>

definition win :: "u64 \<Rightarrow> nat \<Rightarrow> u64 set" where
  "win a n = {x. unat (x - a) < n}"

lemma load_le_win: "\<forall>x \<in> win p n. m' x = m x \<Longrightarrow> n \<le> 64 \<Longrightarrow> load_le m' p n = load_le m p n"
  by (rule load_le_cong) (auto simp: win_def unat_of_nat_u64)

lemma win_part: "k + n \<le> w \<Longrightarrow> w \<le> 65536 \<Longrightarrow> win (p + of_nat k) n \<subseteq> win p w"
proof
  fix x assume A: "k + n \<le> w" "w \<le> 65536" "x \<in> win (p + of_nat k) n"
  have "x - p = (x - (p + of_nat k)) + of_nat k" by simp
  then have "unat (x - p) = unat (x - (p + of_nat k)) + k"
    using A by (simp only:) (subst unat_add_nowrap; simp add: win_def unat_of_nat_u64)
  then show "x \<in> win p w" using A by (simp add: win_def)
qed

lemma field_at_win:
  "\<forall>x \<in> win p w. m' x = m x \<Longrightarrow> fst (fs ! i) + snd (fs ! i) \<le> w \<Longrightarrow> w \<le> 64 \<Longrightarrow>
   field_at m' p fs i = field_at m p fs i"
  unfolding field_at_def by (rule load_le_win) (use win_part [of _ _ w] in force, simp)

lemma read_shdr_win: "\<forall>x \<in> win p 64. m' x = m x \<Longrightarrow> read_shdr m' p = read_shdr m p"
  using field_at_win [of p 64 m' m shdr_layout] by (simp add: read_shdr_def layouts Let_def)

lemma read_sym_win: "\<forall>x \<in> win p 24. m' x = m x \<Longrightarrow> read_sym m' p = read_sym m p"
  using field_at_win [of p 24 m' m sym_layout] by (simp add: read_sym_def layouts Let_def)

lemma read_rela_win: "\<forall>x \<in> win p 24. m' x = m x \<Longrightarrow> read_rela m' p = read_rela m p"
  using field_at_win [of p 24 m' m rela_layout] by (simp add: read_rela_def layouts Let_def)

lemma read_phdr_win: "\<forall>x \<in> win p 56. m' x = m x \<Longrightarrow> read_phdr m' p = read_phdr m p"
  using field_at_win [of p 56 m' m phdr_layout] by (simp add: read_phdr_def layouts Let_def)

lemma read_ehdr_win: "\<forall>x \<in> win p 64. m' x = m x \<Longrightarrow> read_ehdr m' p = read_ehdr m p"
  using field_at_win [of p 64 m' m ehdr_layout] by (simp add: read_ehdr_def layouts Let_def)

lemma win_disjoint:
  assumes "n \<le> unat (b - a)" and "k \<le> unat (a - b)"
  shows "win a n \<inter> win b k = {}"
proof (cases "a = b")
  case True
  then show ?thesis using assms by (simp add: win_def)
next
  case False
  have e: "a - b = - (b - a)" by simp
  have "unat (a - b) = 18446744073709551616 - unat (b - a)"
    unfolding e unat_neg_u64 using False by simp
  then have D: "unat (b - a) + k \<le> 18446744073709551616"
    using assms(2) unat_less_2p64 [of "b - a"] by linarith
  have "unat (x - b) < k \<Longrightarrow> n \<le> unat (x - a)" for x
    using window [OF D, of x a] assms(1) by simp
  then show ?thesis by (force simp: win_def)
qed

end
