(* ===== verification/Exec.thy ===== *)
theory Exec
  imports Vma Syscall Elf
begin

text \<open>
  Making a process from an ELF image: \<open>kernel/execve.c\<close>. The image lies in memory (\<open>user_binary\<close>),
  the process structure in the process store, and the argument vectors are arrays of pointers in
  memory. \<open>uninit\<close> is the value of the variable \<open>target\<close> of \<open>kernel_vma_alloc\<close> that the code
  reads without writing it.
\<close>

definition upd_proc :: "u64 \<Rightarrow> (process \<Rightarrow> process) \<Rightarrow> kst \<Rightarrow> kst" where
  "upd_proc p f s = s\<lparr>procs := (procs s)(p := f (procs s p))\<rparr>"

text \<open>A message of the given length on the console.\<close>

definition console :: "machine \<Rightarrow> string \<Rightarrow> nat \<Rightarrow> kst \<Rightarrow> kst option" where
  "console env msg n s =
     map_option snd (uart_send_byte_array (con_port env) (map of_char (take n msg)) 0 s)"

subsection \<open>The list of processes\<close>

partial_function (option) proc_last :: "(u64 \<Rightarrow> process) \<Rightarrow> u64 \<Rightarrow> u64 option" where
  "proc_last st ptr = (if proc_next (st ptr) = 0 then Some ptr else proc_last st (proc_next (st ptr)))"

definition add_new_process :: "u64 \<Rightarrow> kst \<Rightarrow> (c_int \<times> kst) option" where
  "add_new_process p s =
     (if p = 0 then Some (-1, s)
      else do {
        s \<leftarrow> (if process_head (ks s) = 0 then Some (s\<lparr>ks := (ks s)\<lparr>process_head := p\<rparr>\<rparr>)
              else do {
                ptr \<leftarrow> proc_last (procs s) (process_head (ks s));
                Some (s\<lparr>procs := set_proc_next ptr p (procs s)\<rparr>) });
        let n = next_pid (ks s) + 1;
            s = s\<lparr>ks := (ks s)\<lparr>next_pid := n\<rparr>\<rparr>;
            s = upd_proc p (\<lambda>r. r\<lparr>tid := n, pid := n\<rparr>) s
        in Some (n, s) })"

subsection \<open>Loading\<close>

definition elf_pf_to_prot :: "c_int \<Rightarrow> c_int" where
  "elf_pf_to_prot pflags =
     (let prot = (if pflags AND PF_R \<noteq> 0 then PROT_R else 0);
          prot = prot OR (if pflags AND PF_W \<noteq> 0 then PROT_W else 0)
      in prot OR (if pflags AND PF_X \<noteq> 0 then PROT_X else 0))"

text \<open>\<open>get_mem_region_tail\<close> returns the address of the \<open>next\<close> field of the region given here.\<close>

partial_function (option) get_mem_region_tail :: "(u64 \<Rightarrow> mem_region) \<Rightarrow> u64 \<Rightarrow> u64 option" where
  "get_mem_region_tail st ptr =
     (if region_next (st ptr) \<noteq> 0 then get_mem_region_tail st (region_next (st ptr)) else Some ptr)"

text \<open>The body of the loop of \<open>load_executable\<close> for a \<open>PT_LOAD\<close> entry.\<close>

definition load_segment :: "machine \<Rightarrow> u64 \<Rightarrow> u64 \<Rightarrow> u64 \<Rightarrow> kst \<Rightarrow> (c_int \<times> kst) option" where
  "load_segment env p dat phdr s =
     (let ph = read_phdr (bytes s) phdr;
          sz = p_filesz ph;
          prot = elf_pf_to_prot (ucast (p_flags ph)) OR PROT_W;
          vbase = PAGE_DOWN (p_vaddr ph);
          load_size = PAGE_UP (p_memsz ph);
          src_offset = p_offset ph + dat
      in do {
        (address, s) \<leftarrow> sys_mmap_user env (p_t (procs s p)) (head_region (procs s p)) vbase load_size prot
                          MAP_FIXED 0 0 s;
        if address = MAP_FAILED \<or> address = 0 then Some (- ENOMEM, s)
        else do {
            (_, s) \<leftarrow> copy_to_user env (PAGE_DOWN (p_vaddr (read_phdr (bytes s) phdr))) src_offset sz s;
            let pa = get_physical_address (mmu env s) address in do {
            (_, s) \<leftarrow> kst_map_user (p_t (procs s p)) address pa
                       (elf_pf_to_prot (ucast (p_flags (read_phdr (bytes s) phdr)))) s;
            Some (0, s) } } })"

partial_function (option) load_loop ::
  "machine \<Rightarrow> u64 \<Rightarrow> u64 \<Rightarrow> u64 \<Rightarrow> u64 \<Rightarrow> c_int \<Rightarrow> kst \<Rightarrow> (c_int \<times> kst) option" where
  "load_loop env p dat hdr phdr i s =
     (if i <s ucast (e_phnum (read_ehdr (bytes s) hdr)) then
        if p_type (read_phdr (bytes s) phdr) = PT_LOAD then do {
          (r, s) \<leftarrow> load_segment env p dat phdr s;
          if r \<noteq> 0 then Some (r, s) else load_loop env p dat hdr (phdr + 56) (i + 1) s }
        else load_loop env p dat hdr (phdr + 56) (i + 1) s
      else Some (0, s))"

definition load_executable :: "machine \<Rightarrow> c_int \<Rightarrow> u64 \<Rightarrow> u64 \<Rightarrow> u64 \<Rightarrow> kst \<Rightarrow> (c_int \<times> kst) option" where
  "load_executable env fdn p dat sz s = do {
     (buf, s) \<leftarrow> kmalloc 0x2000 s;
     if buf = 0 then Some (- ENOMEM, s)
     else do {
       (bad, s) \<leftarrow> (if dat \<noteq> 0 \<and> sz > 0
                    then Some (False, s\<lparr>bytes := snd (memcpy (bytes s) buf dat sz)\<rparr>)
                    else do { (count, s) \<leftarrow> sys_read env fdn buf 8 s; Some (count \<le>s 0, s) });
       if bad then Some (- ENOEXEC, s)
       else
         let hdr = read_ehdr (bytes s) buf in
         if \<not> (e_type hdr = ET_EXEC \<or> e_type hdr = ET_DYN) then Some (- ENOEXEC, s)
         else
           let s = upd_proc p (\<lambda>r. r\<lparr>entry := e_entry hdr\<rparr>) s in do {
           (r, s) \<leftarrow> load_loop env p dat buf (buf + e_phoff hdr) 0 s;
           if r \<noteq> 0 then Some (r, s)
           else
             let s = upd_proc p (\<lambda>r. r\<lparr>stack_base := 0x7ff000, stack_size := 0x4000\<rparr>) s in do {
             (a, s) \<leftarrow> sys_mmap_user env (p_t (procs s p)) (head_region (procs s p))
                         (stack_base (procs s p) - stack_size (procs s p)) (stack_size (procs s p))
                         PROT_RW MAP_FIXED 0 0 s;
             Some (if a = 0 then - ENOMEM else 0, s) } } } }"

subsection \<open>Arguments\<close>

partial_function (option) count_loop :: "bytemem \<Rightarrow> u64 \<Rightarrow> c_int \<Rightarrow> c_int \<Rightarrow> c_int option" where
  "count_loop m arg i count =
     (if load_le m (arg + 8 * scast i) 8 = 0 then Some count else count_loop m arg (i + 1) (count + 1))"

definition check_and_get_count :: "bytemem \<Rightarrow> u64 \<Rightarrow> c_int option" where
  "check_and_get_count m arg = (if arg = 0 then Some (- EINVAL) else count_loop m arg 0 0)"

text \<open>The two summing loops: \<open>n\<close> strings of the array from index \<open>i\<close> on.\<close>

fun total_loop :: "bytemem \<Rightarrow> u64 \<Rightarrow> nat \<Rightarrow> nat \<Rightarrow> c_int \<Rightarrow> c_int option" where
  "total_loop m arg i 0 total_count = Some total_count"
| "total_loop m arg i (Suc n) total_count = do {
     len \<leftarrow> strlen m (load_le m (arg + 8 * of_nat i) 8);
     total_loop m arg (Suc i) n (ucast (scast total_count + (8 + len + 1) :: u64)) }"

text \<open>The two copying loops, with the index into the new vector, the next free byte and the memory.\<close>

fun copy_args :: "u64 \<Rightarrow> u64 \<Rightarrow> nat \<Rightarrow> nat \<Rightarrow> c_int \<Rightarrow> u64 \<Rightarrow> bytemem \<Rightarrow> (c_int \<times> u64 \<times> bytemem) option" where
  "copy_args vec arg i 0 index ptr_str m = Some (index, ptr_str, m)"
| "copy_args vec arg i (Suc n) index ptr_str m =
     (let m = store64 m (vec + 8 * scast index) ptr_str in do {
        (_, m) \<leftarrow> strcpy m ptr_str (load_le m (arg + 8 * of_nat i) 8);
        len \<leftarrow> strlen m ptr_str;
        copy_args vec arg (Suc i) n (index + 1) (ptr_str + (len + 1)) m })"

definition create_new_process :: "u64 \<Rightarrow> u64 \<Rightarrow> u64 \<Rightarrow> kst \<Rightarrow> (c_int \<times> kst) option" where
  "create_new_process p argv envp s = do {
     arg_count \<leftarrow> check_and_get_count (bytes s) argv;
     env_count \<leftarrow> check_and_get_count (bytes s) envp;
     if arg_count \<le>s 0 then Some (- EINVAL, s)
     else do {
       total_count \<leftarrow> total_loop (bytes s) argv 0 (nat (sint arg_count)) 0;
       total_count \<leftarrow> total_loop (bytes s) envp 0 (nat (sint env_count)) total_count;
       let total_count = (if env_count = 0 then total_count + 8 else total_count);
           total_count = total_count + 16;
           space = scast ((total_count + 15) AND NOT 0x0F :: c_int) :: u64;
           ptr = stack_base (procs s p) - space;
           s = upd_proc p (\<lambda>r. r\<lparr>ctx := (ctx r)\<lparr>ctx_sp := ptr\<rparr>\<rparr>) s;
           ptr_str = ptr + 8 * scast (arg_count + env_count + 2)
       in do {
         (index, ptr_str, m) \<leftarrow> copy_args ptr argv 0 (nat (sint arg_count)) 0 ptr_str (bytes s);
         let m = store64 m (ptr + 8 * scast index) 0 in do {
         (index, ptr_str, m) \<leftarrow> copy_args ptr envp 0 (nat (sint env_count)) (index + 1) ptr_str m;
         let m = store64 m (ptr + 8 * scast index) 0;
             sp = ptr - 8;
             m = store32 m sp arg_count;
             s = s\<lparr>bytes := m\<rparr>
         in Some (0, upd_proc p (\<lambda>r. r\<lparr>ctx := (ctx r)\<lparr>ctx_sp := sp,
                ctx_x := (ctx_x (ctx r))[0 := scast arg_count, 1 := ptr,
                           2 := ptr + 8 * scast (arg_count + 1)],
                elr_el1 := entry r\<rparr>, cmd_line := ptr\<rparr>) s) } } } }"

subsection \<open>execve\<close>

definition insert_standard_fds :: "c_int \<Rightarrow> kst \<Rightarrow> kst option" where
  "insert_standard_fds n s = do {
     (_, s) \<leftarrow> insert_fd n 0 0 s;
     (_, s) \<leftarrow> insert_fd n 1 1 s;
     (_, s) \<leftarrow> insert_fd n 2 2 s;
     Some s }"

definition sys_execve :: "machine \<Rightarrow> u64 \<Rightarrow> u64 \<Rightarrow> u64 \<Rightarrow> u64 \<Rightarrow> u64 \<Rightarrow> kst \<Rightarrow> (c_int \<times> kst) option" where
  "sys_execve env uninit user_binary file argv envp s = do {
     (p, s) \<leftarrow> kcalloc sizeof_process 1 s;
     if p = 0 then Some (- ENOMEM, s)
     else
       let s = s\<lparr>procs := (procs s)(p := zero_process)\<rparr> in do {
       (rg, s) \<leftarrow> kcalloc sizeof_mem_region 1 s;
       let s = upd_proc p (\<lambda>r. r\<lparr>head_region := rg\<rparr>) s in
       if rg = 0 then do { s \<leftarrow> kfree p s; Some (- ENOMEM, s) }
       else
         let s = upd_region rg (\<lambda>_. zero_region) s in do {
         s \<leftarrow> console env (CHR 0x0A # ''creating translation tables'' @ [CHR 0x0A]) 29 s;
         (t, s) \<leftarrow> create_user_translation_table uninit env (p_t (procs s p)) s;
         let s = upd_proc p (\<lambda>r. r\<lparr>p_t := t\<rparr>) s in do {
         s \<leftarrow> console env (CHR 0x0A # ''done creating translation tables'' @ [CHR 0x0A]) 34 s;
         s \<leftarrow> console env ''opening path: '' 14 s;
         len \<leftarrow> strlen (bytes s) file;
         (_, s) \<leftarrow> uart_send_byte_array (con_port env) (map (\<lambda>i. bytes s (file + of_nat i)) [0..<unat (ucast len :: u32)]) 0 s;
         s \<leftarrow> console env (CHR 0x0A # ''return open fd is:   '') 20 s;
         s \<leftarrow> console env ''1'' 1 s;
         let s = s\<lparr>sysreg := (sysreg s)(''ttbr0_el1'' := PGD t)\<rparr> in do {
         s \<leftarrow> console env (CHR 0x0A # ''loading executable '' @ [CHR 0x0A]) 20 s;
         (ret, s) \<leftarrow> load_executable env 1 p user_binary 8192 s;
         s \<leftarrow> console env (CHR 0x0A # ''done loading, closing fd'' @ [CHR 0x0A]) 26 s;
         s \<leftarrow> console env (CHR 0x0A # ''creating new process'' @ [CHR 0x0A]) 21 s;
         if ret <s 0 then Some (ret, s)
         else do {
           (ret, s) \<leftarrow> create_new_process p argv envp s;
           s \<leftarrow> console env (CHR 0x0A # ''creating proc done '' @ [CHR 0x0A]) 20 s;
           if ret <s 0 then Some (ret, s)
           else
             let s = upd_proc p (\<lambda>r. r\<lparr>p_state := NONE\<rparr>) s in do {
             s \<leftarrow> console env (CHR 0x0A # ''adding new proc done '' @ [CHR 0x0A]) 23 s;
             (_, s) \<leftarrow> add_new_process p s;
             s \<leftarrow> console env (CHR 0x0A # ''done + new proc done '' @ [CHR 0x0A]) 23 s;
             s \<leftarrow> insert_standard_fds (pid (procs s p)) s;
             let s = upd_proc p (\<lambda>r. r\<lparr>p_state := READY\<rparr>) s in do {
             s \<leftarrow> console env (CHR 0x0A # ''new process created going to scheduler'' @ [CHR 0x0A]) 39 s;
             Some (pid (procs s p), s) } } } } } } } }"

end
