(* ===== verification/Exec_Safety.thy ===== *)
theory Exec_Safety
  imports Exec
begin

text \<open>
  What \<open>execve.c\<close> builds: the argument vectors on the stack of a new process
  (\<open>create_new_process\<close>), and its descriptors.
\<close>

subsection \<open>Vectors of strings\<close>

text \<open>An array of pointers to strings, from index \<open>i\<close> on, and the addresses it occupies.\<close>

fun args_at :: "bytemem \<Rightarrow> u64 \<Rightarrow> nat \<Rightarrow> (u64 \<times> u8 list) list \<Rightarrow> bool" where
  "args_at m arg i [] \<longleftrightarrow> True"
| "args_at m arg i ((q, str) # xs) \<longleftrightarrow>
     q \<noteq> 0 \<and> load_le m (arg + 8 * of_nat i) 8 = q \<and> cstr m q str \<and> args_at m arg (Suc i) xs"

fun args_foot :: "u64 \<Rightarrow> nat \<Rightarrow> (u64 \<times> u8 list) list \<Rightarrow> u64 set" where
  "args_foot arg i [] = {}"
| "args_foot arg i ((q, str) # xs) =
     (\<lambda>b. arg + 8 * of_nat i + of_nat b) ` {..<8} \<union> (\<lambda>b. q + of_nat b) ` {..length str} \<union> args_foot arg (Suc i) xs"

text \<open>The same array inside a block at \<open>vec\<close>: the strings lie one after the other from \<open>off\<close> on.\<close>

fun vec_at :: "bytemem \<Rightarrow> u64 \<Rightarrow> nat \<Rightarrow> nat \<Rightarrow> u8 list list \<Rightarrow> bool" where
  "vec_at m vec idx off [] \<longleftrightarrow> True"
| "vec_at m vec idx off (str # ss) \<longleftrightarrow>
     load_le m (vec + 8 * of_nat idx) 8 = vec + of_nat off \<and> cstr m (vec + of_nat off) str \<and>
     vec_at m vec (Suc idx) (off + Suc (length str)) ss"

definition strs_len :: "u8 list list \<Rightarrow> nat" where
  "strs_len ss = sum_list (map (\<lambda>str. Suc (length str)) ss)"

lemma strs_len_simps [simp]:
  "strs_len [] = 0" "strs_len (str # ss) = Suc (length str) + strs_len ss"
  by (simp_all add: strs_len_def)

lemma args_at_cong:
  "\<forall>x \<in> args_foot arg i xs. m' x = m x \<Longrightarrow> args_at m arg i xs \<Longrightarrow> args_at m' arg i xs"
proof (induction xs arbitrary: i)
  case (Cons y xs)
  obtain q str where y: "y = (q, str)" by (cases y)
  have "load_le m' (arg + 8 * of_nat i) 8 = load_le m (arg + 8 * of_nat i) 8"
    using Cons.prems(1) y by (intro load_le_cong) auto
  moreover have "cstr m' q str \<longleftrightarrow> cstr m q str"
    using Cons.prems(1) y by (intro cstr_cong) auto
  ultimately show ?case using Cons y by simp
qed simp

lemma vec_at_cong:
  "\<forall>j. 8 * idx \<le> j \<and> j < 8 * (idx + length ss) \<or> off \<le> j \<and> j < off + strs_len ss \<longrightarrow>
     m' (vec + of_nat j) = m (vec + of_nat j) \<Longrightarrow> vec_at m vec idx off ss \<Longrightarrow> vec_at m' vec idx off ss"
proof (induction ss arbitrary: idx off)
  case (Cons str ss)
  have "load_le m' (vec + 8 * of_nat idx) 8 = load_le m (vec + 8 * of_nat idx) 8"
  proof (rule load_le_cong, intro allI impI)
    fix i :: nat assume "i < 8"
    then show "m' (vec + 8 * of_nat idx + of_nat i) = m (vec + 8 * of_nat idx + of_nat i)"
      using Cons.prems(1) [rule_format, of "8 * idx + i"] by (simp add: add.assoc)
  qed
  moreover have "cstr m' (vec + of_nat off) str \<longleftrightarrow> cstr m (vec + of_nat off) str"
  proof (rule cstr_cong)
    fix i assume "i \<le> length str"
    then show "m' (vec + of_nat off + of_nat i) = m (vec + of_nat off + of_nat i)"
      using Cons.prems(1) [rule_format, of "off + i"] by (simp add: add.assoc)
  qed
  moreover have "vec_at m' vec (Suc idx) (off + Suc (length str)) ss"
    by (rule Cons.IH) (use Cons.prems in auto)
  ultimately show ?case using Cons.prems(2) by simp
qed simp

lemma scast_of_nat: "k < 2147483648 \<Longrightarrow> (scast (of_nat k :: c_int) :: u64) = of_nat k"
proof -
  assume k: "k < 2147483648"
  then have "sint (of_nat k :: c_int) = int k"
    by (simp add: sint_uint uint_nat unat_of_nat take_bit_nat_eq_self signed_take_bit_int_eq_self
        take_bit_int_eq_self flip: of_nat_take_bit)
  then have "(scast (of_nat k :: c_int) :: u64) = word_of_int (int k)"
    by (metis scast_eq word_of_int_eq_iff)
  then show ?thesis by simp
qed

subsection \<open>Copying a vector\<close>

lemma copy_arg_ok:
  assumes A: "args_at m arg i ((q, str) # xs)"
    and le: "8 * (idx + Suc (length xs)) \<le> off" "off + Suc (length str) + strs_len (map snd xs) \<le> sz" "sz < 2147483648"
    and foot: "\<forall>x \<in> args_foot arg i ((q, str) # xs). sz \<le> unat (x - vec)"
  shows "\<exists>m2. strcpy (store64 m (vec + 8 * of_nat idx) (vec + of_nat off)) (vec + of_nat off)
             (load_le (store64 m (vec + 8 * of_nat idx) (vec + of_nat off)) (arg + 8 * of_nat i) 8) =
             Some (vec + of_nat off + of_nat (length str) + 1, m2) \<and>
           load_le m2 (vec + 8 * of_nat idx) 8 = vec + of_nat off \<and> cstr m2 (vec + of_nat off) str \<and>
           args_at m2 arg (Suc i) xs \<and>
           (\<forall>x. m2 x \<noteq> m x \<longrightarrow> 8 * idx \<le> unat (x - vec) \<and> unat (x - vec) < 8 * Suc idx \<or>
                off \<le> unat (x - vec) \<and> unat (x - vec) < off + Suc (length str))"
proof -
  let ?m1 = "store64 m (vec + 8 * of_nat idx) (vec + of_nat off)"
  have k: "vec + 8 * of_nat idx = vec + of_nat (8 * idx)" by simp
  have w1: "?m1 x \<noteq> m x \<Longrightarrow> 8 * idx \<le> unat (x - vec) \<and> unat (x - vec) < 8 * Suc idx" for x
    using le unfolding store64_def k by (subst (asm) window) (auto split: if_splits)
  have A1: "args_at ?m1 arg i ((q, str) # xs)"
  proof (rule args_at_cong [OF _ A], rule ballI)
    fix x assume "x \<in> args_foot arg i ((q, str) # xs)"
    then have "sz \<le> unat (x - vec)" using foot by blast
    then show "?m1 x = m x" using w1 [of x] le by fastforce
  qed
  have ne: "\<forall>a \<le> length str. \<forall>b \<le> length str. (vec + of_nat off) + of_nat a \<noteq> q + of_nat b"
  proof (intro allI impI notI)
    fix a b assume ab: "a \<le> length str" "b \<le> length str" and e: "(vec + of_nat off) + of_nat a = q + of_nat b"
    have "q + of_nat b \<in> args_foot arg i ((q, str) # xs)" using ab by simp
    then have "sz \<le> unat (q + of_nat b - vec)" using foot by blast
    moreover have "q + of_nat b - vec = of_nat (off + a)" using e by (simp add: algebra_simps)
    moreover have "unat (of_nat (off + a) :: u64) = off + a"
      using ab le by (intro unat_of_nat_u64) simp
    ultimately show False using ab le by simp
  qed
  obtain m2 where S: "strcpy ?m1 (vec + of_nat off) q = Some (vec + of_nat off + of_nat (length str) + 1, m2)"
    "cstr m2 (vec + of_nat off) str" and
    out: "\<forall>x. length str < unat (x - (vec + of_nat off)) \<longrightarrow> m2 x = ?m1 x"
    using strcpy_spec [OF _ ne, of ?m1] A1 le by auto
  have w2: "m2 x \<noteq> ?m1 x \<Longrightarrow> off \<le> unat (x - vec) \<and> unat (x - vec) < off + Suc (length str)" for x
    using out [rule_format, of x] le window [of off "Suc (length str)" x vec] by force
  have "load_le m2 (vec + 8 * of_nat idx) 8 = load_le ?m1 (vec + 8 * of_nat idx) 8"
  proof (rule load_le_cong, intro allI impI)
    fix j :: nat assume j: "j < 8"
    have "unat (of_nat (8 * idx + j) :: u64) = 8 * idx + j" using j le by (intro unat_of_nat_u64) simp
    then have "unat (vec + 8 * of_nat idx + of_nat j - vec) = 8 * idx + j" by (simp add: add.assoc)
    then show "m2 (vec + 8 * of_nat idx + of_nat j) = ?m1 (vec + 8 * of_nat idx + of_nat j)"
      using w2 [of "vec + 8 * of_nat idx + of_nat j"] j le by fastforce
  qed
  moreover have "args_at m2 arg (Suc i) xs"
  proof (rule args_at_cong [where m = ?m1])
    show "\<forall>x \<in> args_foot arg (Suc i) xs. m2 x = ?m1 x"
    proof
      fix x assume "x \<in> args_foot arg (Suc i) xs"
      then have "sz \<le> unat (x - vec)" using foot by simp
      then show "m2 x = ?m1 x" using w2 [of x] le by fastforce
    qed
  qed (use A1 in simp)
  moreover have "m2 x \<noteq> m x \<Longrightarrow> 8 * idx \<le> unat (x - vec) \<and> unat (x - vec) < 8 * Suc idx \<or>
      off \<le> unat (x - vec) \<and> unat (x - vec) < off + Suc (length str)" for x
    using w1 [of x] w2 [of x] by (cases "?m1 x = m x") auto
  moreover have "load_le ?m1 (arg + 8 * of_nat i) 8 = q" using A1 by simp
  ultimately show ?thesis using S by (intro exI [of _ m2]) (simp add: load64_store64)
qed

lemma copy_args_ok:
  "args_at m arg i xs \<Longrightarrow> 8 * (idx + length xs) \<le> off \<Longrightarrow> off + strs_len (map snd xs) \<le> sz \<Longrightarrow>
   sz < 2147483648 \<Longrightarrow> \<forall>x \<in> args_foot arg i xs. sz \<le> unat (x - vec) \<Longrightarrow>
   \<exists>m'. copy_args vec arg i (length xs) (of_nat idx) (vec + of_nat off) m =
          Some (of_nat (idx + length xs), vec + of_nat (off + strs_len (map snd xs)), m') \<and>
        vec_at m' vec idx off (map snd xs) \<and>
        (\<forall>x. m' x \<noteq> m x \<longrightarrow> 8 * idx \<le> unat (x - vec) \<and> unat (x - vec) < 8 * (idx + length xs) \<or>
             off \<le> unat (x - vec) \<and> unat (x - vec) < off + strs_len (map snd xs))"
proof (induction xs arbitrary: i idx off m)
  case (Cons y xs)
  obtain q str where y: "y = (q, str)" by (cases y)
  note P = Cons.prems [unfolded y]
  obtain m2 where S: "strcpy (store64 m (vec + 8 * of_nat idx) (vec + of_nat off)) (vec + of_nat off)
             (load_le (store64 m (vec + 8 * of_nat idx) (vec + of_nat off)) (arg + 8 * of_nat i) 8) =
             Some (vec + of_nat off + of_nat (length str) + 1, m2)"
    and L: "load_le m2 (vec + 8 * of_nat idx) 8 = vec + of_nat off" "cstr m2 (vec + of_nat off) str"
    and A2: "args_at m2 arg (Suc i) xs"
    and w2: "\<forall>x. m2 x \<noteq> m x \<longrightarrow> 8 * idx \<le> unat (x - vec) \<and> unat (x - vec) < 8 * Suc idx \<or>
                off \<le> unat (x - vec) \<and> unat (x - vec) < off + Suc (length str)"
    using copy_arg_ok [OF P(1) _ _ P(4,5), of idx off] P(2,3) by auto
  have f: "\<forall>x \<in> args_foot arg (Suc i) xs. sz \<le> unat (x - vec)" using P(5) by simp
  obtain m3 where R: "copy_args vec arg (Suc i) (length xs) (of_nat (Suc idx)) (vec + of_nat (off + Suc (length str))) m2 =
          Some (of_nat (Suc idx + length xs), vec + of_nat (off + Suc (length str) + strs_len (map snd xs)), m3)"
    "vec_at m3 vec (Suc idx) (off + Suc (length str)) (map snd xs)"
    and w3: "\<forall>x. m3 x \<noteq> m2 x \<longrightarrow> 8 * Suc idx \<le> unat (x - vec) \<and> unat (x - vec) < 8 * (Suc idx + length xs) \<or>
             off + Suc (length str) \<le> unat (x - vec) \<and>
             unat (x - vec) < off + Suc (length str) + strs_len (map snd xs)"
    using Cons.IH [OF A2 _ _ P(4) f, of "Suc idx" "off + Suc (length str)"] P(2,3) by auto
  have u: "unat (vec + of_nat j - vec) = j" if "j < sz" for j
    using that P(4) by (simp add: unat_of_nat_u64)
  have "load_le m3 (vec + 8 * of_nat idx) 8 = load_le m2 (vec + 8 * of_nat idx) 8"
  proof (rule load_le_cong, intro allI impI)
    fix j :: nat assume j: "j < 8"
    then show "m3 (vec + 8 * of_nat idx + of_nat j) = m2 (vec + 8 * of_nat idx + of_nat j)"
      using w3 [rule_format, of "vec + of_nat (8 * idx + j)"] u [of "8 * idx + j"] P(2,3)
      by (auto simp: add.assoc)
  qed
  moreover have "cstr m3 (vec + of_nat off) str \<longleftrightarrow> cstr m2 (vec + of_nat off) str"
  proof (rule cstr_cong)
    fix j assume j: "j \<le> length str"
    then show "m3 (vec + of_nat off + of_nat j) = m2 (vec + of_nat off + of_nat j)"
      using w3 [rule_format, of "vec + of_nat (off + j)"] u [of "off + j"] P(2,3)
      by (auto simp: add.assoc)
  qed
  moreover have "copy_args vec arg i (length (y # xs)) (of_nat idx) (vec + of_nat off) m =
      copy_args vec arg (Suc i) (length xs) (of_nat (Suc idx)) (vec + of_nat (off + Suc (length str))) m2"
    using S strlen_cstr [OF L(2)] P(2,3,4) by (simp add: y scast_of_nat Let_def algebra_simps)
  moreover have "8 * idx \<le> unat (x - vec) \<and> unat (x - vec) < 8 * (idx + length (y # xs)) \<or>
             off \<le> unat (x - vec) \<and> unat (x - vec) < off + strs_len (map snd (y # xs))"
    if "m3 x \<noteq> m x" for x
    using w2 [rule_format, of x] w3 [rule_format, of x] that y by (cases "m2 x = m x") auto
  ultimately show ?case using R L
    by (intro exI [of _ m3] conjI allI impI) (simp_all add: y algebra_simps)
qed simp

subsection \<open>The stack of a new process\<close>

lemma count_loop_ok:
  "args_at m arg i xs \<Longrightarrow> load_le m (arg + 8 * of_nat (i + length xs)) 8 = 0 \<Longrightarrow> i + length xs < 2147483648 \<Longrightarrow>
   count_loop m arg (of_nat i) (of_nat c) = Some (of_nat (c + length xs))"
proof (induction xs arbitrary: i c)
  case Nil
  then show ?case by (subst count_loop.simps) (simp add: scast_of_nat)
next
  case (Cons y xs)
  obtain q str where y: "y = (q, str)" by (cases y)
  have "count_loop m arg (of_nat i) (of_nat c) = count_loop m arg (of_nat (Suc i)) (of_nat (Suc c))"
    using Cons.prems y by (subst count_loop.simps) (simp add: scast_of_nat add.commute)
  then show ?case using Cons.IH [of "Suc i" "Suc c"] Cons.prems y by simp
qed

lemma count_ok:
  "args_at m arg 0 xs \<Longrightarrow> load_le m (arg + 8 * of_nat (length xs)) 8 = 0 \<Longrightarrow> arg \<noteq> 0 \<Longrightarrow>
   length xs < 2147483648 \<Longrightarrow> check_and_get_count m arg = Some (of_nat (length xs))"
  using count_loop_ok [of m arg 0 xs 0] by (simp add: check_and_get_count_def)

lemma ucast_add_scast: "(ucast (scast (t :: c_int) + a :: u64) :: c_int) = t + ucast a"
proof (transfer, goal_cases)
  case (1 t a)
  have "take_bit 32 (signed_take_bit 31 t + a) = take_bit 32 (take_bit 32 (signed_take_bit 31 t) + take_bit 32 a)"
    by (simp only: take_bit_add)
  also have "\<dots> = take_bit 32 (take_bit 32 t + take_bit 32 a)"
    by (simp only: take_bit_signed_take_bit)
  also have "\<dots> = take_bit 32 (take_bit 32 t + take_bit 32 (take_bit 64 a))" by simp
  also have "\<dots> = take_bit 32 (t + take_bit 64 a)" by (simp only: take_bit_add)
  finally show ?case by simp
qed

lemma ucast_of_nat_u64: "(ucast (9 + of_nat n :: u64) :: c_int) = 9 + of_nat n"
  by transfer simp

lemma total_loop_ok:
  "args_at m arg i xs \<Longrightarrow>
   total_loop m arg i (length xs) t = Some (t + of_nat (8 * length xs + strs_len (map snd xs)))"
proof (induction xs arbitrary: i t)
  case (Cons y xs)
  obtain q str where y: "y = (q, str)" by (cases y)
  note u = ucast_add_scast
  have "total_loop m arg i (length (y # xs)) t = total_loop m arg (Suc i) (length xs) (t + (9 + of_nat (length str)))"
    using Cons.prems y strlen_cstr [of m q str] by (simp only: list.size total_loop.simps add_0 add_Suc_right)
      (simp add: u ucast_of_nat_u64 del: add_Suc)
  then show ?case using Cons y by (simp add: algebra_simps)
qed simp

lemma store64_changes:
  assumes "store64 m (v + of_nat k) w x \<noteq> m x" and "k + 8 \<le> 18446744073709551616"
  shows "k \<le> unat (x - v) \<and> unat (x - v) < k + 8"
  using assms window [of k 8 x v] by (auto simp: store64_def split: if_splits)

lemma store32_changes_below:
  assumes "store32 m (v - 8) w x \<noteq> m x"
  shows "18446744073709551608 \<le> unat (x - v)"
proof -
  have "unat (x - (v - 8)) < 4" using assms by (auto simp: store32_def split: if_splits)
  moreover have "x - v = (x - (v - 8)) - 8" by simp
  ultimately show ?thesis by (simp only: unat_sub_if') (simp add: word_le_nat_alt)
qed

text \<open>The image on the stack: two null-terminated vectors, then the strings, in one block at \<open>vec\<close>.\<close>

definition stack_image :: "bytemem \<Rightarrow> u64 \<Rightarrow> u8 list list \<Rightarrow> u8 list list \<Rightarrow> bool" where
  "stack_image m vec args envs \<longleftrightarrow>
     (let n = length args; k = length envs; off = 8 * (n + k + 2) in
      vec_at m vec 0 off args \<and> load_le m (vec + 8 * of_nat n) 8 = 0 \<and>
      vec_at m vec (n + 1) (off + strs_len args) envs \<and> load_le m (vec + 8 * of_nat (n + 1 + k)) 8 = 0)"

lemma stack_image_built:
  fixes xs ys :: "(u64 \<times> u8 list) list"
  defines "n \<equiv> length xs" and "k \<equiv> length ys"
  defines "off \<equiv> 8 * (n + k + 2)"
  assumes A: "args_at m argv 0 xs" "args_at m envp 0 ys"
    and sz: "off + strs_len (map snd xs) + strs_len (map snd ys) \<le> sz" "sz < 2147483648"
    and foot: "\<forall>x \<in> args_foot argv 0 xs \<union> args_foot envp 0 ys. sz \<le> unat (x - vec)"
  shows "\<exists>m1 ps m3 qs. copy_args vec argv 0 n 0 (vec + of_nat off) m = Some (of_nat n, ps, m1) \<and>
    copy_args vec envp 0 k (of_nat n + 1) ps (store64 m1 (vec + 8 * of_nat n) 0) = Some (of_nat (n + 1 + k), qs, m3) \<and>
    stack_image (store32 (store64 m3 (vec + 8 * of_nat (n + 1 + k)) 0) (vec - 8) c) vec (map snd xs) (map snd ys)"
proof -
  define off2 where "off2 = off + strs_len (map snd xs)"
  have fx: "\<forall>x \<in> args_foot argv 0 xs. sz \<le> unat (x - vec)" and fy: "\<forall>x \<in> args_foot envp 0 ys. sz \<le> unat (x - vec)"
    using foot by auto
  obtain m1 where C1: "copy_args vec argv 0 n 0 (vec + of_nat off) m = Some (of_nat n, vec + of_nat off2, m1)"
    and V1: "vec_at m1 vec 0 off (map snd xs)"
    and W1: "\<forall>x. m1 x \<noteq> m x \<longrightarrow> unat (x - vec) < 8 * n \<or> off \<le> unat (x - vec) \<and> unat (x - vec) < off2"
    using copy_args_ok [OF A(1) _ _ sz(2) fx, of 0 off] sz(1) by (auto simp: off2_def n_def k_def off_def)
  define m2 where "m2 = store64 m1 (vec + of_nat (8 * n)) 0"
  have W2: "\<forall>x. m2 x \<noteq> m1 x \<longrightarrow> 8 * n \<le> unat (x - vec) \<and> unat (x - vec) < 8 * n + 8"
    using store64_changes [of m1 vec "8 * n" 0] sz off_def by (simp add: m2_def)
  have "args_at m2 envp 0 ys"
  proof (rule args_at_cong [OF _ A(2)], rule ballI)
    fix x assume "x \<in> args_foot envp 0 ys"
    then have "sz \<le> unat (x - vec)" using fy by blast
    then show "m2 x = m x"
      using spec [OF W1, of x] spec [OF W2, of x] sz(1) off_def off2_def by (cases "m2 x = m1 x") auto
  qed
  then obtain m3 where C3: "copy_args vec envp 0 k (of_nat (n + 1)) (vec + of_nat off2) m2 =
      Some (of_nat (n + 1 + k), vec + of_nat (off2 + strs_len (map snd ys)), m3)"
    and V3: "vec_at m3 vec (n + 1) off2 (map snd ys)"
    and W3: "\<forall>x. m3 x \<noteq> m2 x \<longrightarrow> 8 * (n + 1) \<le> unat (x - vec) \<and> unat (x - vec) < 8 * (n + 1 + k) \<or>
        off2 \<le> unat (x - vec) \<and> unat (x - vec) < off2 + strs_len (map snd ys)"
    using copy_args_ok [OF _ _ _ sz(2) fy, of m2 "n + 1" off2] sz(1) by (auto simp: off2_def k_def off_def)
  define m4 where "m4 = store64 m3 (vec + of_nat (8 * (n + 1 + k))) 0"
  define m5 where "m5 = store32 m4 (vec - 8) c"
  have W4: "\<forall>x. m4 x \<noteq> m3 x \<longrightarrow> 8 * (n + 1 + k) \<le> unat (x - vec) \<and> unat (x - vec) < 8 * (n + 1 + k) + 8"
    using store64_changes [of m3 vec "8 * (n + 1 + k)" 0] sz off_def by (simp add: m4_def)
  have W5: "\<forall>x. m5 x \<noteq> m4 x \<longrightarrow> 18446744073709551608 \<le> unat (x - vec)"
    using store32_changes_below by (simp add: m5_def)
  have u: "unat (vec + of_nat j - vec) = j" if "j < sz" for j
    using that sz(2) by (simp add: unat_of_nat_u64)
  have same: "m5 (vec + of_nat j) = m2 (vec + of_nat j)" if "j < 8 * n + 8 \<or> off \<le> j \<and> j < off2" for j
  proof -
    have j: "unat (vec + of_nat j - vec) = j" using that sz(1) by (intro u) (auto simp: off_def off2_def)
    have "m3 (vec + of_nat j) = m2 (vec + of_nat j)"
      using that sz spec [OF W3, of "vec + of_nat j"] unfolding j by (auto simp: off_def off2_def)
    moreover have "m4 (vec + of_nat j) = m3 (vec + of_nat j)"
      using that sz spec [OF W4, of "vec + of_nat j"] unfolding j by (auto simp: off_def off2_def)
    moreover have "m5 (vec + of_nat j) = m4 (vec + of_nat j)"
      using that sz spec [OF W5, of "vec + of_nat j"] unfolding j by (auto simp: off_def off2_def)
    ultimately show ?thesis by simp
  qed
  have "vec_at m5 vec 0 off (map snd xs)"
  proof (rule vec_at_cong [OF _ V1], intro allI impI)
    fix j assume jj: "8 * 0 \<le> j \<and> j < 8 * (0 + length (map snd xs)) \<or> off \<le> j \<and> j < off + strs_len (map snd xs)"
    then have j: "unat (vec + of_nat j - vec) = j" using sz(1) by (intro u) (auto simp: off_def n_def)
    have "m5 (vec + of_nat j) = m2 (vec + of_nat j)" using jj by (intro same) (auto simp: n_def off2_def)
    then show "m5 (vec + of_nat j) = m1 (vec + of_nat j)"
      using spec [OF W2, of "vec + of_nat j"] jj unfolding j by (auto simp: n_def off_def)
  qed
  moreover have "load_le m5 (vec + of_nat (8 * n)) 8 = load_le m2 (vec + of_nat (8 * n)) 8"
    by (rule load_le_cong) (use same [of "8 * n + _"] in \<open>auto simp: add.assoc\<close>)
  moreover have "vec_at m5 vec (n + 1) off2 (map snd ys)"
  proof (rule vec_at_cong [OF _ V3], intro allI impI)
    fix j assume jj: "8 * (n + 1) \<le> j \<and> j < 8 * (n + 1 + length (map snd ys)) \<or> off2 \<le> j \<and> j < off2 + strs_len (map snd ys)"
    then have j: "unat (vec + of_nat j - vec) = j" using sz(1) by (intro u) (auto simp: off_def off2_def k_def)
    show "m5 (vec + of_nat j) = m3 (vec + of_nat j)"
      using jj sz spec [OF W4, of "vec + of_nat j"] spec [OF W5, of "vec + of_nat j"] unfolding j
      by (auto simp: off_def off2_def k_def)
  qed
  moreover have "load_le m5 (vec + of_nat (8 * (n + 1 + k))) 8 = load_le m4 (vec + of_nat (8 * (n + 1 + k))) 8"
  proof (rule load_le_cong, intro allI impI)
    fix j :: nat assume jj: "j < 8"
    have j: "unat (vec + of_nat (8 * (n + 1 + k)) + of_nat j - vec) = 8 * (n + 1 + k) + j"
      using u [of "8 * (n + 1 + k) + j"] jj sz(1) by (simp add: off_def add.assoc)
    then show "m5 (vec + of_nat (8 * (n + 1 + k)) + of_nat j) = m4 (vec + of_nat (8 * (n + 1 + k)) + of_nat j)"
      using spec [OF W5, of "vec + of_nat (8 * (n + 1 + k)) + of_nat j"] jj sz unfolding j by (auto simp: off_def)
  qed
  ultimately have "stack_image m5 vec (map snd xs) (map snd ys)"
    unfolding stack_image_def m2_def m4_def
    by (simp add: load64_store64 off_def off2_def n_def k_def Let_def algebra_simps)
  then show ?thesis using C1 C3 unfolding m2_def m4_def m5_def
    by (intro exI conjI) (simp_all add: algebra_simps)
qed

lemma misaligned:
  fixes b :: u64
  assumes "b mod 16 = 0"
  shows "(b - of_nat (16 * q) - 8) mod 16 = 8"
proof -
  have "uint b mod 16 = 0" using arg_cong [OF assms, of uint] by (simp add: uint_mod)
  then obtain r where r: "uint b = 16 * r" by (metis dvd_eq_mod_eq_0 dvd_def)
  have b: "b = word_of_int (16 * r)" unfolding r [symmetric] by simp
  have w: "b - of_nat (16 * q) - 8 = word_of_int (16 * (r - int q) - 8)"
    unfolding b by (simp add: right_diff_distrib)
  have "uint (b - of_nat (16 * q) - 8) mod 16 = (16 * (r - int q) - 8) mod 2 ^ 64 mod 16"
    unfolding w uint_word_of_int by simp
  also have "\<dots> = (16 * (r - int q) - 8) mod 16" by (rule mod_mod_cancel) simp
  also have "\<dots> = 8" by presburger
  finally have "uint ((b - of_nat (16 * q) - 8) mod 16) = uint (8 :: u64)" by (simp add: uint_mod)
  then show ?thesis by (simp only: word_uint_eq_iff)
qed

lemma round_16:
  assumes "t + 15 < 2147483648"
  shows "(scast ((of_nat t + 15) AND NOT 0x0F :: c_int) :: u64) = of_nat (16 * ((t + 15) div 16))"
proof -
  have u: "unat (of_nat (t + 15) :: c_int) = t + 15"
    using assms by (simp only: unat_of_nat) (simp add: take_bit_nat_eq_self)
  have e: "((of_nat t + 15) AND NOT 0x0F :: c_int) = of_nat (t + 15) AND NOT (mask 4)"
    by (simp add: mask_eq_exp_minus_1)
  have "unat ((of_nat t + 15) AND NOT 0x0F :: c_int) = 16 * ((t + 15) div 16)"
    unfolding e unat_and_not_mask u by simp
  from arg_cong [OF this, of "of_nat :: nat \<Rightarrow> c_int"]
  have "((of_nat t + 15) AND NOT 0x0F :: c_int) = of_nat (16 * ((t + 15) div 16))"
    by (simp only: of_nat_unat ucast_id)
  then show ?thesis using assms by (simp only:) (rule scast_of_nat, linarith)
qed

text \<open>The number of bytes \<open>create_new_process\<close> reserves before rounding: pointers and terminators,
  strings, and a spare pointer when there is no environment.\<close>

definition stack_need :: "u8 list list \<Rightarrow> u8 list list \<Rightarrow> nat" where
  "stack_need args envs = 8 * (length args + length envs + 2) + strs_len args + strs_len envs +
     (if envs = [] then 8 else 0)"

lemma create_new_process_image:
  fixes s :: kst and p :: u64 and xs ys :: "(u64 \<times> u8 list) list"
  defines "need \<equiv> stack_need (map snd xs) (map snd ys)"
  defines "vec \<equiv> stack_base (procs s p) - of_nat (16 * ((need + 15) div 16))"
  assumes X: "args_at (bytes s) argv 0 xs" "load_le (bytes s) (argv + 8 * of_nat (length xs)) 8 = 0"
      "argv \<noteq> 0" "xs \<noteq> []"
    and Y: "args_at (bytes s) envp 0 ys" "load_le (bytes s) (envp + 8 * of_nat (length ys)) 8 = 0" "envp \<noteq> 0"
    and sz: "need + 15 < 2147483648"
    and foot: "\<forall>x \<in> args_foot argv 0 xs \<union> args_foot envp 0 ys. need \<le> unat (x - vec)"
  shows "\<exists>m. create_new_process p argv envp s = Some (0, upd_proc p
           (\<lambda>r. r\<lparr>ctx := (ctx r)\<lparr>ctx_sp := vec - 8, ctx_x := (ctx_x (ctx r))[0 := of_nat (length xs), 1 := vec,
                 2 := vec + 8 * of_nat (length xs + 1)], elr_el1 := entry r\<rparr>, cmd_line := vec\<rparr>) (s\<lparr>bytes := m\<rparr>)) \<and>
         stack_image m vec (map snd xs) (map snd ys) \<and> load_le m (vec - 8) 4 = of_nat (length xs)"
proof -
  define n k off where "n = length xs" and "k = length ys" and "off = 8 * (n + k + 2)"
  have need: "need = off + strs_len (map snd xs) + strs_len (map snd ys) + (if k = 0 then 8 else 0)"
    by (simp add: need_def stack_need_def off_def n_def k_def)
  have nk: "n < 2147483648" "k < 2147483648" "n + k + 2 < 2147483648" "0 < n"
    using sz X(4) by (auto simp: need off_def n_def)
  have cnt: "check_and_get_count (bytes s) argv = Some (of_nat n)" "check_and_get_count (bytes s) envp = Some (of_nat k)"
    using count_ok [OF X(1-3)] count_ok [OF Y] nk by (simp_all add: n_def k_def)
  have si: "sint (of_nat j :: c_int) = int j" if "j < 2147483648" for j
    using that by (simp add: sint_uint uint_nat unat_of_nat take_bit_nat_eq_self signed_take_bit_int_eq_self
        take_bit_int_eq_self flip: of_nat_take_bit)
  have gt: "\<not> (of_nat n :: c_int) \<le>s 0" and k0: "(of_nat k :: c_int) = 0 \<longleftrightarrow> k = 0"
    using si [of n] si [of k] nk by (auto simp: word_sle_eq)
  have tot: "total_loop (bytes s) argv 0 n 0 = Some (of_nat (8 * n + strs_len (map snd xs)))"
    "total_loop (bytes s) envp 0 k t = Some (t + of_nat (8 * k + strs_len (map snd ys)))" for t
    using total_loop_ok [OF X(1)] total_loop_ok [OF Y(1)] by (simp_all add: n_def k_def)
  have sum: "(if (of_nat k :: c_int) = 0 then a + 8 else a) + 16 = (of_nat need :: c_int)"
    if "a = of_nat (8 * n + strs_len (map snd xs)) + of_nat (8 * k + strs_len (map snd ys))" for a
    using that by (simp add: k0 need off_def)
  obtain m1 ps m3 qs where C: "copy_args vec argv 0 n 0 (vec + of_nat off) (bytes s) = Some (of_nat n, ps, m1)"
    "copy_args vec envp 0 k (of_nat n + 1) ps (store64 m1 (vec + 8 * of_nat n) 0) = Some (of_nat (n + 1 + k), qs, m3)"
    "stack_image (store32 (store64 m3 (vec + 8 * of_nat (n + 1 + k)) 0) (vec - 8) (of_nat n)) vec (map snd xs) (map snd ys)"
    using stack_image_built [OF X(1) Y(1) _ _ foot, of "of_nat n"] sz need
    unfolding n_def k_def off_def by auto
  have sc: "(scast (of_nat n :: c_int) :: u64) = of_nat n" "(scast (of_nat n + 1 :: c_int) :: u64) = of_nat (n + 1)"
    "(scast (of_nat (n + 1 + k) :: c_int) :: u64) = of_nat (n + 1 + k)"
    "8 * (scast (of_nat n + of_nat k + 2 :: c_int) :: u64) = of_nat off"
    using scast_of_nat [of n] scast_of_nat [of "n + 1"] scast_of_nat [of "n + 1 + k"]
      scast_of_nat [of "n + k + 2"] nk by (simp_all add: off_def add_ac)
  have sp: "stack_base (procs s p) - scast (of_nat need + 15 AND NOT 0x0F :: c_int) = vec"
    using round_16 [OF sz] by (simp add: vec_def)
  have "create_new_process p argv envp s = Some (0, upd_proc p
           (\<lambda>r. r\<lparr>ctx := (ctx r)\<lparr>ctx_sp := vec - 8, ctx_x := (ctx_x (ctx r))[0 := of_nat n, 1 := vec,
                 2 := vec + 8 * of_nat (n + 1)], elr_el1 := entry r\<rparr>, cmd_line := vec\<rparr>)
           (s\<lparr>bytes := store32 (store64 m3 (vec + 8 * of_nat (n + 1 + k)) 0) (vec - 8) (of_nat n)\<rparr>))"
    unfolding create_new_process_def cnt bind.simps
    by (simp only: gt si nk nat_int tot bind.simps if_False sum [OF refl] sp Let_def sc C prod.case)
      (simp add: upd_proc_def C sc sc(3) [simplified])
  moreover have "load_le (store32 m' (vec - 8) (of_nat n)) (vec - 8) 4 = of_nat n" for m'
    using nk by (simp add: load32_store32) (simp add: word_unat_eq_iff unat_of_nat_u64 unsigned_of_nat
        take_bit_nat_eq_self)
  ultimately show ?thesis using C(3) unfolding n_def k_def by (intro exI conjI)
qed

text \<open>C6. \<open>create_new_process\<close> returns for every argument and environment vector that fits and lies
  outside the new block, and leaves the process with the image its program expects: two
  null-terminated vectors whose pointers lead to copies of the strings, the argument count below
  them, and registers that point to all three. The stack pointer is at the argument count and so
  is always eight bytes off the 16-byte alignment the processor checks (\<open>enable_mmu\<close> sets SA0).\<close>

theorem process_stack_image:
  fixes s :: kst and p :: u64 and xs ys :: "(u64 \<times> u8 list) list"
  defines "need \<equiv> stack_need (map snd xs) (map snd ys)"
  defines "vec \<equiv> stack_base (procs s p) - of_nat (16 * ((need + 15) div 16))"
  assumes "args_at (bytes s) argv 0 xs" "load_le (bytes s) (argv + 8 * of_nat (length xs)) 8 = 0"
    and "argv \<noteq> 0" "xs \<noteq> []"
    and "args_at (bytes s) envp 0 ys" "load_le (bytes s) (envp + 8 * of_nat (length ys)) 8 = 0" "envp \<noteq> 0"
    and "need + 15 < 2147483648" and "3 \<le> length (ctx_x (ctx (procs s p)))"
    and "\<forall>x \<in> args_foot argv 0 xs \<union> args_foot envp 0 ys. need \<le> unat (x - vec)"
    and "stack_base (procs s p) mod 16 = 0"
  shows "\<exists>s'. create_new_process p argv envp s = Some (0, s') \<and>
           stack_image (bytes s') vec (map snd xs) (map snd ys) \<and>
           ctx_sp (ctx (procs s' p)) = vec - 8 \<and> (vec - 8) mod 16 = 8 \<and>
           load_le (bytes s') (vec - 8) 4 = of_nat (length xs) \<and>
           take 3 (ctx_x (ctx (procs s' p))) = [of_nat (length xs), vec, vec + 8 * of_nat (length xs + 1)] \<and>
           elr_el1 (ctx (procs s' p)) = entry (procs s p)"
proof -
  obtain m where M: "create_new_process p argv envp s = Some (0, upd_proc p
           (\<lambda>r. r\<lparr>ctx := (ctx r)\<lparr>ctx_sp := vec - 8, ctx_x := (ctx_x (ctx r))[0 := of_nat (length xs), 1 := vec,
                 2 := vec + 8 * of_nat (length xs + 1)], elr_el1 := entry r\<rparr>, cmd_line := vec\<rparr>) (s\<lparr>bytes := m\<rparr>))"
    "stack_image m vec (map snd xs) (map snd ys)" "load_le m (vec - 8) 4 = of_nat (length xs)"
    using create_new_process_image [OF assms(3-9) assms(10) [unfolded need_def]
        assms(12) [unfolded vec_def need_def]] unfolding vec_def need_def by blast
  obtain a b c l where "ctx_x (ctx (procs s p)) = a # b # c # l"
    using assms(11) by (auto simp: numeral_3_eq_3 Suc_le_length_iff)
  moreover have "(vec - 8) mod 16 = 8" unfolding vec_def by (rule misaligned [OF assms(13)])
  ultimately show ?thesis using M by (intro exI conjI) (auto simp: upd_proc_def)
qed

text \<open>A process at \<open>0x9000\<close> and the argument vector \<open>{"a", NULL}\<close> with an empty environment.\<close>

definition ex_exec :: kst where
  "ex_exec = zero_kst\<lparr>bytes := (\<lambda>_. 0)(0x1001 := 0x11, 0x1100 := 97),
     procs := (procs zero_kst)(0x9000 := zero_process\<lparr>stack_base := 0x7ff000, entry := 0x400000\<rparr>)\<rparr>"

theorem process_stack_image_witness:
  "\<exists>s'. create_new_process 0x9000 0x1000 0x1200 ex_exec = Some (0, s') \<and>
     stack_image (bytes s') (stack_base (procs ex_exec 0x9000) -
       of_nat (16 * ((stack_need (map snd [(0x1100 :: u64, [97])]) (map snd ([] :: (u64 \<times> u8 list) list)) + 15) div 16)))
       (map snd [(0x1100 :: u64, [97])]) (map snd ([] :: (u64 \<times> u8 list) list)) \<and>
     ctx_sp (ctx (procs s' 0x9000)) = stack_base (procs ex_exec 0x9000) -
       of_nat (16 * ((stack_need (map snd [(0x1100 :: u64, [97])]) (map snd ([] :: (u64 \<times> u8 list) list)) + 15) div 16)) - 8"
  using process_stack_image [where s = ex_exec and p = "0x9000" and argv = "0x1000" and envp = "0x1200" and
      xs = "[(0x1100, [97])]" and ys = "[]"]
  by (simp add: ex_exec_def zero_kst_def zero_process_def zero_context_def stack_need_def load_le_def upt_rec
      lessThan_nat_numeral atMost_Suc lessThan_Suc) blast

subsection \<open>The descriptors of a new process\<close>

lemma payloads_differ:
  assumes "first_fit a 64 hs = Some (q, hs')" "(q', n) \<in> used_chunks a hs" "64 \<le> n"
    and "layout m a hs 0" "layout m' a hs0 0" "first_fit a 64 hs0 = Some (q', hs0')"
  shows "(of_nat (q + 32) :: u64) \<noteq> of_nat (q' + 32)"
proof -
  have "q \<noteq> q'" using first_fit_fresh(2) [OF assms(1), of q' n] assms(2,3) by auto
  moreover have "hs \<noteq> []" "hs0 \<noteq> []" using assms(1,6) by auto
  then have "q + 64 < 18446744073709551616" "q' + 64 < 18446744073709551616"
    using first_fit_fresh(1) [OF assms(1)] first_fit_fresh(1) [OF assms(6)]
      layout_bound [OF assms(4)] layout_bound [OF assms(5)] by linarith+
  ultimately show ?thesis by (subst of_nat_eq_u64_iff) auto
qed

text \<open>C39. A new process starts without standard output: when \<open>sys_execve\<close> has entered the descriptors
  0, 1 and 2 into the empty table, descriptor 1 is gone, and a write to it is refused.\<close>

theorem standard_output_lost:
  assumes "fd_head (ks s) = 0"
    and "layout (cells s) a hs 0" "heap_head (private_heap s) = of_nat a" "40 \<le> a"
    and "first_fit a 64 hs = Some (q1, hs1)" "first_fit a 64 hs1 = Some (q2, hs2)"
      "first_fit a 64 hs2 = Some (q3, hs3)"
  shows "\<exists>s'. insert_standard_fds n s = Some s' \<and> get_host_fd n 0 s' = Some 0 \<and> get_host_fd n 2 s' = Some 2 \<and>
           get_host_fd n 1 s' = Some (- ENOENT) \<and>
           (get_current_process_pid s' = n \<longrightarrow> syscall env SYS_WRITE 1 buf count a3 a4 a5 s' = Some (to_u64 (- ENOENT), s'))"
proof -
  define t1 t2 t3 where "t1 = (of_nat (q1 + 32) :: u64)" and "t2 = (of_nat (q2 + 32) :: u64)" and "t3 = (of_nat (q3 + 32) :: u64)"
  obtain s1 where s1: "insert_fd n 0 0 s = Some (0, s1)" "ks s1 = (ks s)\<lparr>fd_head := t1\<rparr>" "t1 \<noteq> 0"
    "fds s1 = (fds s)(t1 := zero_fd\<lparr>fd_pid := n, host_fd := 0, k_fd := 0\<rparr>)"
    "layout (cells s1) a hs1 0" "heap_head (private_heap s1) = of_nat a"
    using insert_fd_empty [OF assms(1-5), of n 0 0] unfolding t1_def by blast
  obtain n1 where n1: "64 \<le> n1" "(q1, n1) \<in> used_chunks a hs1"
    using first_fit_fresh(3) [OF assms(5)] by blast
  have d12: "t2 \<noteq> t1" unfolding t1_def t2_def
    by (rule payloads_differ [OF assms(6) n1(2,1) s1(5) assms(2,5)])
  have "fd_list (fds s1) (fd_head (ks s1)) [t1]" by (simp add: s1 zero_fd_def)
  then obtain s2 where s2: "insert_fd n 1 1 s1 = Some (0, s2)" "ks s2 = ks s1" "t2 \<noteq> 0"
    "fds s2 = (fds s1)(t1 := (fds s1 t1)\<lparr>fd_next := t2\<rparr>, t2 := zero_fd\<lparr>fd_pid := n, host_fd := 1, k_fd := 1\<rparr>)"
    "layout (cells s2) a hs2 0" "heap_head (private_heap s2) = of_nat a"
    using insert_fd_after_head [OF _ s1(5,6) assms(4,6), of t1 "[]" n 1 1] d12
    unfolding t2_def by (auto simp: s1 fd_match_def word_sless_alt zero_fd_def)
  obtain n2 where n2: "64 \<le> n2" "used_chunks a hs2 = insert (q2, n2) (used_chunks a hs1)"
    using first_fit_fresh(3) [OF assms(6)] by blast
  have d13: "t3 \<noteq> t1" unfolding t1_def t3_def
    by (rule payloads_differ [OF assms(7) _ n1(1) s2(5) assms(2,5)]) (use n1 n2 in simp)
  have d23: "t3 \<noteq> t2" unfolding t2_def t3_def
    by (rule payloads_differ [OF assms(7) _ n2(1) s2(5) s1(5) assms(6)]) (use n2 in simp)
  have "fd_list (fds s2) (fd_head (ks s2)) [t1, t2]"
    using s1 s2 d12 by (simp add: zero_fd_def)
  then obtain s3 where s3: "insert_fd n 2 2 s2 = Some (0, s3)" "ks s3 = ks s2" "t3 \<noteq> 0"
    "fds s3 = (fds s2)(t1 := (fds s2 t1)\<lparr>fd_next := t3\<rparr>, t3 := zero_fd\<lparr>fd_pid := n, host_fd := 2, k_fd := 2\<rparr>)"
    using insert_fd_after_head [OF _ s2(5,6) assms(4,7), of t1 "[t2]" n 2 2] d12 d13 d23
    unfolding t3_def by (auto simp: s1 s2 fd_match_def word_sless_alt zero_fd_def)
  have "fd_head (ks s3) = t1" "fds s3 t1 = zero_fd\<lparr>fd_pid := n, fd_next := t3\<rparr>"
    "fds s3 t3 = zero_fd\<lparr>fd_pid := n, host_fd := 2, k_fd := 2\<rparr>"
    using s1 s2 s3 d12 d13 d23 by (simp_all add: zero_fd_def)
  then have g: "get_host_fd n 0 s3 = Some 0" "get_host_fd n 2 s3 = Some 2" "get_host_fd n 1 s3 = Some (- ENOENT)"
    using s1(3) s3(3) by (simp_all add: get_host_fd_def node_search.simps zero_fd_def)
  have "insert_standard_fds n s = Some s3" using s1(1) s2(1) s3(1) by (simp add: insert_standard_fds_def)
  then show ?thesis using g
    by (intro exI [of _ s3] conjI impI)
      (simp_all add: syscall_def sys_numbers sys_write_def ENOENT_def word_sless_alt)
qed

theorem standard_output_lost_witness:
  "\<exists>s'. insert_standard_fds 1 (ex_heap 0xFFFFF00000402000) = Some s' \<and>
     get_host_fd 1 0 s' = Some 0 \<and> get_host_fd 1 2 s' = Some 2 \<and> get_host_fd 1 1 s' = Some (- ENOENT) \<and>
     (get_current_process_pid s' = 1 \<longrightarrow>
        syscall ex_env SYS_WRITE 1 0x1000 4 0 0 0 s' = Some (to_u64 (- ENOENT), s'))"
  by (rule standard_output_lost [where a = "0xFFFFF00000400000" and hs = "[(0x5000, False)]" and
        ?hs1.0 = "[(64, True), (0x5000 - 64, False)]" and
        ?hs2.0 = "[(64, True), (64, True), (0x5000 - 128, False)]" and
        ?hs3.0 = "[(64, True), (64, True), (64, True), (0x5000 - 192, False)]"])
    (simp_all add: ex_heap_def ex_ks_brk_def ex_ks_def zero_ks_def)

end
