(* ===== verification/Load_Safety.thy ===== *)
theory Load_Safety
  imports Exec Vma_Safety Syscall_Safety
begin

text \<open>
  What \<open>load_executable\<close> does with a loadable segment: its pages get frames of their own, its bytes are
  copied, and its first page is mapped again with the permissions of the segment.
\<close>

text \<open>
  The translation hardware, a parameter of the model, works on the tables \<open>t\<close>: an address with an entry
  is translated to the frame of the entry, and the kernel may write there unless the entry is read-only
  (bit 7, the upper bit of AP).
\<close>

definition mmu_walks :: "machine \<Rightarrow> translation_tables \<Rightarrow> nat \<Rightarrow> bool" where
  "mmu_walks env t n \<longleftrightarrow> (\<forall>s va e. pt_in_range t n va \<and> pt_walk t (cells s) va = Some e \<longrightarrow>
     at_s1e1r (mmu env s) va AND 1 = 0 \<and> get_field 12 36 (at_s1e1r (mmu env s) va) = bd_l3_oa e \<and>
     (\<not> bit e 7 \<longrightarrow> at_s1e1w (mmu env s) va AND 1 = 0))"

lemma physical_oa:
  assumes "at_s1e1r u va AND 1 = 0"
  shows "take_bit 36 (drop_bit 12 (get_physical_address u va)) = get_field 12 36 (at_s1e1r u va)"
proof -
  have "get_physical_address u va = ((at_s1e1r u va AND NOT (mask 12)) OR take_bit 12 va) AND NOT (push_bit 56 (mask 8))"
    using assms by (simp add: get_physical_address_def translate_va_to_pa_def take_bit_eq_mask mask_eq_exp_minus_1)
  then show ?thesis
    by (simp only:) (rule bit_word_eqI, auto simp: get_field_def bit_simps)
qed

lemma descriptor_cong:
  "take_bit 36 (drop_bit 12 pa) = take_bit 36 (drop_bit 12 pa') \<Longrightarrow>
   page_descriptor pa fl d = page_descriptor pa' fl d"
  by (simp add: page_descriptor_def bd_l3_def BD_OA_l3)

lemma descriptor_writable: "\<not> bit (page_descriptor pa (perm_to_pt (prot OR PROT_W) OR PT_USER) 0) 7"
proof -
  have "PROT_W AND (prot OR PROT_W) = PROT_W"
    by (rule bit_word_eqI) (auto simp: bit_simps)
  then have "perm_to_pt (prot OR PROT_W) = 0"
    by (simp add: perm_to_pt_value) (simp add: PROT_W_def)
  then show ?thesis
    by (simp add: page_descriptor_def bd_l3_def set_field_def bit_simps PT_PAGE_def PT_ISH_def PT_USER_def
        PT_MEM_def PT_AF_def bit_numeral_rec)
qed

lemma page_aligned_nat: "take_bit 12 (x :: u64) = 0 \<longleftrightarrow> unat x mod 4096 = 0"
proof -
  have "unat (take_bit 12 x) = unat x mod 4096" by (simp add: take_bit_eq_mod unat_mod)
  then show ?thesis by (metis unat_eq_zero)
qed

text \<open>The bytes of consecutive pages lie in these pages: the mapped range starts at a page.\<close>

lemma pt_page_within:
  assumes lay: "pt_layout t n" and j: "unat j < k * 4096" and k: "pt_page t (PAGE_DOWN x) + k \<le> n * 512"
  shows "pt_page t (PAGE_DOWN x) \<le> pt_page t (PAGE_DOWN x + j) \<and> pt_page t (PAGE_DOWN x + j) < pt_page t (PAGE_DOWN x) + k"
proof -
  let ?d = "PAGE_DOWN x - start_va t"
  have n: "n \<le> 512" and a: "2 ^ 39 dvd unat (start_va t)" using lay by (simp_all add: pt_layout_def)
  have "(2 :: nat) ^ 12 dvd unat (start_va t)" using a by (rule dvd_trans [rotated]) (simp add: le_imp_power_dvd)
  then have st: "unat (start_va t) mod 4096 = 0" by simp
  have "take_bit 12 (PAGE_DOWN x) = 0"
  proof -
    have m: "(0xFFF :: u64) = mask 12" by (simp add: mask_eq_exp_minus_1)
    show ?thesis unfolding PAGE_DOWN_def m by (rule bit_word_eqI) (auto simp: bit_simps)
  qed
  then have dn: "unat (PAGE_DOWN x) mod 4096 = 0" by (simp only: page_aligned_nat)
  have "unat (PAGE_DOWN x) = (unat ?d + unat (start_va t)) mod 2 ^ 64"
    using unat_word_ariths(1) [of ?d "start_va t"] by simp
  then have "unat (PAGE_DOWN x) mod 4096 = (unat ?d + unat (start_va t)) mod 4096"
    by (simp add: mod_mod_cancel)
  also have "\<dots> = unat ?d mod 4096" using mod_add_right_eq [of "unat ?d" "unat (start_va t)" 4096] st by simp
  finally have "unat ?d mod 4096 = 0" using dn by simp
  then obtain q where q: "unat ?d = 4096 * q" by (metis mod_0_imp_dvd dvd_def)
  then have p: "pt_page t (PAGE_DOWN x) = q" by (simp add: pt_page_def)
  have e: "PAGE_DOWN x + j - start_va t = ?d + j" by simp
  have "unat (?d + j) = 4096 * q + unat j" using q j k p n by (subst unat_add_nowrap) auto
  then have "pt_page t (PAGE_DOWN x + j) = q + unat j div 4096" unfolding pt_page_def e by simp
  then show ?thesis using p j by (simp add: div_less_iff_less_mult)
qed

text \<open>The bytes a segment is copied from, and those it is copied to: the start of its first page.\<close>

definition seg_src :: "elf64_phdr \<Rightarrow> u64 \<Rightarrow> u64 set" where
  "seg_src ph dat = win (p_offset ph + dat) (unat (p_filesz ph))"

definition seg_dst :: "elf64_phdr \<Rightarrow> u64 set" where
  "seg_dst ph = win (PAGE_DOWN (p_vaddr ph)) (unat (p_filesz ph))"

abbreviation sec_area :: "kst \<Rightarrow> u64 set" where "sec_area s \<equiv> bitmap_area (secure_frames (ks s))"

lemma PAGE_UP_idem [simp]: "PAGE_UP (PAGE_UP x) = PAGE_UP x"
proof -
  have m: "(0xFFF :: u64) = mask 12" by (simp add: mask_eq_exp_minus_1)
  define y where "y = (x + mask 12) AND NOT (mask 12)"
  have "y AND mask 12 = 0"
    unfolding y_def by (rule bit_word_eqI) (auto simp: bit_simps)
  then have "y + mask 12 = y OR mask 12" by (rule disjunctive_add_eq_or)
  then have "(y + mask 12) AND NOT (mask 12) = y"
    by (simp only:) (rule bit_word_eqI, auto simp: y_def bit_simps)
  then show ?thesis by (simp only: PAGE_UP_def m y_def)
qed

text \<open>
  A segment in place: its pages lie on the frames \<open>fs\<close>, all free before; its first page has the
  permissions of the segment and the others may be written as well; its bytes are at the start of the
  first page, and the rest of memory but the bitmap is as it was.
\<close>

definition segment_in_place ::
  "translation_tables \<Rightarrow> nat \<Rightarrow> elf64_phdr \<Rightarrow> u64 \<Rightarrow> kst \<Rightarrow> kst \<Rightarrow> u64 list \<Rightarrow> bool" where
  "segment_in_place t n ph dat s s' fs \<longleftrightarrow>
     (let va = PAGE_DOWN (p_vaddr ph); fl = elf_pf_to_prot (p_flags ph); p0 = pt_page t va in
      length fs = unat (PAGE_UP (p_memsz ph) div PAGE_SIZE_4KB) \<and> distinct fs \<and> set fs \<subseteq> sec_avail s \<and>
      (\<forall>va'. pt_in_range t n va' \<longrightarrow> pt_walk t (cells s') va' =
         (if pt_page t va' = p0 then Some (page_descriptor (hd fs) (perm_to_pt fl OR PT_USER) 0)
          else if p0 < pt_page t va' \<and> pt_page t va' < p0 + length fs
          then Some (page_descriptor (fs ! (pt_page t va' - p0)) (perm_to_pt (fl OR PROT_W) OR PT_USER) 0)
          else pt_walk t (cells s) va')) \<and>
      (\<forall>x. x \<in> seg_dst ph \<longrightarrow> bytes s' x = bytes s (p_offset ph + dat + (x - va))) \<and>
      (\<forall>x. x \<notin> seg_dst ph \<union> sec_area s \<longrightarrow> bytes s' x = bytes s x))"

text \<open>What a mapping keeps, apart from the walk and the bytes.\<close>

definition mapping_kept :: "translation_tables \<Rightarrow> nat \<Rightarrow> kst \<Rightarrow> kst \<Rightarrow> bool" where
  "mapping_kept t n s s' \<longleftrightarrow> pt_inv t n (cells s') \<and> sec_area s' = sec_area s \<and> private_heap s' = private_heap s \<and>
     procs s' = procs s \<and> (\<forall>x. x \<notin> pt_cell t ` pt_slots n \<longrightarrow> cells s' x = cells s x)"

definition region_is :: "kst \<Rightarrow> u64 \<Rightarrow> u64 \<Rightarrow> u64 \<Rightarrow> bool" where
  "region_is s r a sz \<longleftrightarrow> va_base (regions s r) = a \<and> va_size (regions s r) = sz \<and> is_mapped (regions s r) = 1"

lemma load_segment_effect:
  fixes s :: kst and p dat phdr :: u64
  defines "ph \<equiv> read_phdr (bytes s) phdr" and "t \<equiv> p_t (procs s p)"
  defines "va \<equiv> PAGE_DOWN (p_vaddr ph)" and "k \<equiv> unat (PAGE_UP (p_memsz ph) div PAGE_SIZE_4KB)"
    and "fl \<equiv> elf_pf_to_prot (p_flags ph)" and "F \<equiv> sec_area s"
  assumes lay: "pt_layout t n" and inv: "pt_inv t n (cells s)" and hw: "mmu_walks env t n"
    and fr: "sec_inv s" "k \<le> card (sec_avail s)" and k: "0 < k" "pt_page t va + k \<le> n * 512"
    and hd: "head_region (procs s p) \<noteq> 0" "is_mapped (regions s (head_region (procs s p))) = 0"
    and va: "va \<noteq> 0" "va \<noteq> MAP_FAILED" and m: "p_memsz ph \<noteq> 0" "PAGE_UP (p_memsz ph) \<noteq> 0"
    and ov: "unat (p_filesz ph) \<le> unat (va - (p_offset ph + dat))" and fit: "unat (p_filesz ph) \<le> k * 4096"
    and sep: "win phdr 56 \<inter> (F \<union> seg_dst ph) = {}" "seg_src ph dat \<inter> F = {}"
  shows "\<exists>s' fs. load_segment env p dat phdr s = Some (0, s') \<and> segment_in_place t n ph dat s s' fs \<and>
     mapping_kept t n s s' \<and> region_is s' (head_region (procs s p)) va (PAGE_UP (p_memsz ph)) \<and>
     region_next (regions s' (head_region (procs s p))) = region_next (regions s (head_region (procs s p))) \<and>
     (seg_dst ph \<inter> F = {} \<longrightarrow> sec_inv s' \<and> sec_avail s' = sec_avail s - set fs)"
proof -
  let ?p = "perm_to_pt (fl OR PROT_W) OR PT_USER" and ?q = "perm_to_pt fl OR PT_USER"
  have n: "pt_in_range t n va" using k by (simp add: pt_in_range_def)
  obtain s1 fs where I: "sys_mmap_user env t (head_region (procs s p)) va (PAGE_UP (p_memsz ph)) (fl OR PROT_W) MAP_FIXED 0 0 s = Some (va, s1)"
    "distinct fs" "length fs = k" "set fs \<subseteq> sec_avail s"
    "mapped_to t n (pt_page t va) fs ?p (cells s) (cells s1)" "pt_inv t n (cells s1)" "procs s1 = procs s"
    "\<forall>x. x \<notin> F \<longrightarrow> bytes s1 x = bytes s x"
    "\<forall>x. x \<notin> pt_cell t ` pt_slots n \<longrightarrow> cells s1 x = cells s x" "sec_area s1 = F" "private_heap s1 = private_heap s"
    "region_is s1 (head_region (procs s p)) va (PAGE_UP (p_memsz ph))"
    "region_next (regions s1 (head_region (procs s p))) = region_next (regions s (head_region (procs s p)))"
    "sec_inv s1" "sec_avail s1 = sec_avail s - set fs"
    using sys_mmap_user_first [OF lay inv fr(1), of "PAGE_UP (p_memsz ph)" va "head_region (procs s p)" env "fl OR PROT_W" 0 0]
      fr(2) k hd m by (auto simp: k_def F_def region_is_def)
  have fs: "fs \<noteq> []" "hd fs = fs ! 0" using k(1) I(3) by (auto simp: hd_conv_nth)
  have w1: "pt_walk t (cells s1) va = Some (page_descriptor (hd fs) ?p 0)"
    using I(5) n k(1) I(3) by (simp add: mapped_to_def fs(2))
  have ph1: "read_phdr (bytes s1) phdr = ph"
    unfolding ph_def by (rule read_phdr_win) (use I(8) sep(1) in auto)
  have wr: "may_write env (s1\<lparr>bytes := b\<rparr>) (va + j)" if "unat j < unat (p_filesz ph) \<or> j = 0" for b j
  proof -
    have "unat j < k * 4096" using that fit k(1) by auto
    from pt_page_within [OF lay this] have "pt_page t va \<le> pt_page t (va + j) \<and> pt_page t (va + j) < pt_page t va + length fs"
      using k(2) I(3) by (simp add: va_def)
    moreover from this have "pt_in_range t n (va + j)" using k(2) I(3) by (simp add: pt_in_range_def)
    ultimately have "pt_walk t (cells (s1\<lparr>bytes := b\<rparr>)) (va + j) =
        Some (page_descriptor (fs ! (pt_page t (va + j) - pt_page t va)) ?p 0)" and r: "pt_in_range t n (va + j)"
      using I(5) by (simp_all add: mapped_to_def)
    then show ?thesis using hw r descriptor_writable unfolding mmu_walks_def may_write_def by blast
  qed
  obtain m2 where C: "copy_to_user env va (p_offset ph + dat) (p_filesz ph) s1 = Some (p_filesz ph, s1\<lparr>bytes := m2\<rparr>)"
    "\<forall>x. m2 x = (if unat (x - va) < unat (p_filesz ph) then bytes s1 (p_offset ph + dat + (x - va)) else bytes s1 x)"
    using copy_to_user_bytes [OF wr ov] by blast
  define s2 where "s2 = s1\<lparr>bytes := m2\<rparr>"
  have s2: "cells s2 = cells s1" "bytes s2 = m2" "procs s2 = procs s" by (simp_all add: s2_def I(7))
  have dst: "x \<in> seg_dst ph \<longleftrightarrow> unat (x - va) < unat (p_filesz ph)" for x
    by (simp add: seg_dst_def win_def va_def)
  have ph2: "read_phdr (bytes s2) phdr = ph"
    using C(2) sep(1) dst ph1 by (subst ph1 [symmetric], unfold s2(2)) (rule read_phdr_win, auto)
  have src: "bytes s1 (p_offset ph + dat + (x - va)) = bytes s (p_offset ph + dat + (x - va))" if "x \<in> seg_dst ph" for x
  proof -
    have "p_offset ph + dat + (x - va) \<in> seg_src ph dat" using that dst by (simp add: seg_src_def win_def)
    then show ?thesis using I(8) sep(2) by blast
  qed
  define pa where "pa = get_physical_address (mmu env s2) va"
  have oa: "take_bit 36 (drop_bit 12 pa) = take_bit 36 (drop_bit 12 (hd fs))"
  proof -
    have "pt_walk t (cells s2) va = Some (page_descriptor (hd fs) ?p 0)" using w1 by (simp add: s2)
    then have "at_s1e1r (mmu env s2) va AND 1 = 0 \<and>
        get_field 12 36 (at_s1e1r (mmu env s2) va) = bd_l3_oa (page_descriptor (hd fs) ?p 0)"
      using hw n unfolding mmu_walks_def by blast
    moreover have "bd_l3_oa (page_descriptor (hd fs) ?p 0) = take_bit 36 (drop_bit 12 (hd fs))"
      using page_table_map_walk [OF lay inv n user_flags_low, of "hd fs" "fl OR PROT_W" 0] by blast
    ultimately show ?thesis using physical_oa [of "mmu env s2" va] by (simp add: pa_def)
  qed
  obtain w3 where W: "page_table_map t va pa ?q 0 (cells s2) = Some (0, w3)" "pt_inv t n w3"
    "\<forall>va'. pt_in_range t n va' \<longrightarrow> pt_walk t w3 va' =
       (if pt_page t va' = pt_page t va then Some (page_descriptor pa ?q 0) else pt_walk t (cells s2) va')"
    using page_table_map_walk [OF lay _ n user_flags_low, of "cells s2" pa fl 0] I(6) by (auto simp: s2)
  have d: "page_descriptor pa ?q 0 = page_descriptor (hd fs) ?q 0" by (rule descriptor_cong [OF oa])
  have "load_segment env p dat phdr s = Some (0, s2\<lparr>cells := w3\<rparr>)"
    using I(1) C(1) W(1) va ph1 ph2 s2
    by (simp add: load_segment_def Let_def ph_def [symmetric] t_def [symmetric] va_def [symmetric] fl_def [symmetric]
        s2_def [symmetric] pa_def [symmetric] kst_map_user_def page_table_map_user_def)
  moreover have "\<forall>x. x \<in> seg_dst ph \<longrightarrow> bytes (s2\<lparr>cells := w3\<rparr>) x = bytes s (p_offset ph + dat + (x - va))"
    "\<forall>x. x \<notin> seg_dst ph \<union> F \<longrightarrow> bytes (s2\<lparr>cells := w3\<rparr>) x = bytes s x"
    using C(2) I(8) src dst by (simp_all add: s2)
  moreover have "\<forall>va'. pt_in_range t n va' \<longrightarrow> pt_walk t (cells (s2\<lparr>cells := w3\<rparr>)) va' =
        (if pt_page t va' = pt_page t va then Some (page_descriptor (hd fs) ?q 0)
         else if pt_page t va < pt_page t va' \<and> pt_page t va' < pt_page t va + k
         then Some (page_descriptor (fs ! (pt_page t va' - pt_page t va)) ?p 0)
         else pt_walk t (cells s) va')"
    using W(3) I(5) d by (simp add: s2 mapped_to_def I(3)) 
  moreover have "mapping_kept t n s (s2\<lparr>cells := w3\<rparr>)"
    using W(2) I(9-11) page_table_map_frame [OF lay n W(1)] by (simp add: mapping_kept_def s2 s2_def I(7) F_def)
  moreover have "region_is (s2\<lparr>cells := w3\<rparr>) (head_region (procs s p)) va (PAGE_UP (p_memsz ph))"
    "region_next (regions (s2\<lparr>cells := w3\<rparr>) (head_region (procs s p))) = region_next (regions s (head_region (procs s p)))"
    using I(12,13) by (simp_all add: region_is_def s2_def)
  moreover have "sec_inv (s2\<lparr>cells := w3\<rparr>) \<and> sec_avail (s2\<lparr>cells := w3\<rparr>) = sec_avail s - set fs" if "seg_dst ph \<inter> F = {}"
  proof -
    have "\<forall>x \<in> bitmap_area (secure_frames (ks s1)). m2 x = bytes s1 x"
      using C(2) dst that I(10) by auto
    from kf_cong [OF this] show ?thesis using I(14,15) by (simp add: s2_def)
  qed
  ultimately show ?thesis using I(2-4)
    by (intro exI [of _ "s2\<lparr>cells := w3\<rparr>"] exI [of _ fs])
      (simp add: segment_in_place_def Let_def k_def va_def fl_def F_def)
qed

text \<open>An instance: a machine whose hardware follows the tables \<open>t\<close>, and a fresh process with a header at 0x1000.\<close>

definition table_unit :: "translation_tables \<Rightarrow> wordmem \<Rightarrow> at_unit" where
  "table_unit t w =
     (let tr = (\<lambda>va. case pt_walk t w va of None \<Rightarrow> 1 | Some e \<Rightarrow> push_bit 12 (bd_l3_oa e));
          wr = (\<lambda>va. case pt_walk t w va of None \<Rightarrow> 1 | Some e \<Rightarrow> if bit e 7 then 1 else push_bit 12 (bd_l3_oa e))
      in \<lparr>at_s1e1r = tr, at_s1e1w = wr, at_s1e0r = tr, at_s1e0w = wr\<rparr>)"

lemma table_unit_walks: "mmu_walks (env\<lparr>mmu := \<lambda>s. table_unit t (cells s)\<rparr>) t n"
proof -
  have a: "push_bit 12 x AND 1 = 0" for x :: u64
    by (rule bit_word_eqI) (auto simp: bit_simps)
  have b: "get_field 12 36 (push_bit 12 (bd_l3_oa e)) = bd_l3_oa e" for e
    by (rule bit_word_eqI) (auto simp: get_field_def bd_l3_oa_def bit_simps)
  show ?thesis by (auto simp: mmu_walks_def table_unit_def Let_def a b)
qed

definition ex_load_bytes :: bytemem where
  "ex_load_bytes = (\<lambda>_. 0)(0x1000 := 1, 0x1004 := 5, 0x1012 := 0x40, 0x1021 := 1, 0x1029 := 0x18)"

definition ex_load :: kst where
  "ex_load = ex_mm\<lparr>bytes := ex_load_bytes,
     procs := \<lambda>_. zero_process\<lparr>head_region := 0x3000, p_t := ex_tt\<rparr>\<rparr>"

lemma ex_load_fields:
  "load_le ex_load_bytes 0x1000 4 = 1" "load_le ex_load_bytes 0x1004 4 = 5" "load_le ex_load_bytes 0x1008 8 = 0"
  "load_le ex_load_bytes 0x1010 8 = 0x400000" "load_le ex_load_bytes 0x1018 8 = 0"
  "load_le ex_load_bytes 0x1020 8 = 0x100" "load_le ex_load_bytes 0x1028 8 = 0x1800" "load_le ex_load_bytes 0x1030 8 = 0"
  by (simp_all add: load_le_def upt_rec ex_load_bytes_def)

lemma ex_load_phdr:
  "read_phdr ex_load_bytes 0x1000 = \<lparr>p_type = PT_LOAD, p_flags = 5, p_offset = 0, p_vaddr = 0x400000, p_paddr = 0,
     p_filesz = 0x100, p_memsz = 0x1800, p_align = 0\<rparr>"
  by (simp add: read_phdr_def field_at_def layouts ex_load_fields PT_LOAD_def)

lemma ex_load_frames: "sec_inv ex_load" "card (sec_avail ex_load) = 4"
proof -
  have z: "ex_load_bytes (0x7000 + of_nat k) = 0" if "k < 4" for k
  proof -
    from that consider "k = 0" | "k = 1" | "k = 2" | "k = 3" by linarith
    then show ?thesis by cases (simp_all add: ex_load_bytes_def)
  qed
  have "kf_free_set ex_load_bytes (secure_frames (ks ex_mm)) = kf_free_set (bytes ex_mm) (secure_frames (ks ex_mm))"
    using z by (auto simp: kf_free_set_def kf_free_at_def ex_mm_def zero_frames_def zero_kst_def)
  then show "sec_inv ex_load" "card (sec_avail ex_load) = 4"
    using ex_mm_frames z by (simp_all add: kf_avail_def kf_inv_def ex_load_def ex_mm_def zero_frames_def KFRAME_FREE_def)
qed

text \<open>C10. Loading a segment into a fresh process succeeds: its pages get frames that were free, distinct
  and no one else's, and the bytes of the file are copied to the start of its first page. Nothing else in
  memory changes apart from the bitmap, so the part of the segment behind the bytes of the file is not
  cleared. The first page ends up with the permissions of the segment, on the frame it was given; every
  further page stays writable, whatever the segment says. All other pages are mapped as before.\<close>

theorem segment_loaded:
  fixes s :: kst and p dat phdr :: u64
  defines "ph \<equiv> read_phdr (bytes s) phdr" and "t \<equiv> p_t (procs s p)"
  defines "va \<equiv> PAGE_DOWN (p_vaddr ph)" and "k \<equiv> unat (PAGE_UP (p_memsz ph) div PAGE_SIZE_4KB)"
    and "fl \<equiv> elf_pf_to_prot (p_flags ph)" and "F \<equiv> sec_area s"
  assumes lay: "pt_layout t n" and inv: "pt_inv t n (cells s)" and hw: "mmu_walks env t n"
    and fr: "sec_inv s" "k \<le> card (sec_avail s)" and k: "0 < k" "pt_page t va + k \<le> n * 512"
    and hd: "head_region (procs s p) \<noteq> 0" "is_mapped (regions s (head_region (procs s p))) = 0"
    and va: "va \<noteq> 0" "va \<noteq> MAP_FAILED" and m: "p_memsz ph \<noteq> 0" "PAGE_UP (p_memsz ph) \<noteq> 0"
    and ov: "unat (p_filesz ph) \<le> unat (va - (p_offset ph + dat))" and fit: "unat (p_filesz ph) \<le> k * 4096"
    and sep: "win phdr 56 \<inter> (F \<union> seg_dst ph) = {}" "seg_src ph dat \<inter> F = {}"
  shows "\<exists>s' fs. load_segment env p dat phdr s = Some (0, s') \<and> segment_in_place t n ph dat s s' fs"
  unfolding assms(1-6) using load_segment_effect [OF assms(7-23) [unfolded assms(1-6)]] by blast

theorem segment_loaded_witness:
  "\<exists>s' fs. load_segment (ex_env\<lparr>mmu := \<lambda>s. table_unit ex_tt (cells s)\<rparr>) 0x5000 0x20000 0x1000 ex_load = Some (0, s') \<and>
     segment_in_place ex_tt 4 (read_phdr (bytes ex_load) 0x1000) 0x20000 ex_load s' fs"
proof -
  have ph: "read_phdr (bytes ex_load) 0x1000 = \<lparr>p_type = PT_LOAD, p_flags = 5, p_offset = 0, p_vaddr = 0x400000,
     p_paddr = 0, p_filesz = 0x100, p_memsz = 0x1800, p_align = 0\<rparr>"
    by (simp add: ex_load_phdr [symmetric] ex_load_def)
  have c: "PAGE_DOWN 0x400000 = 0x400000" "PAGE_UP 0x1800 = 0x2000" "p_t (procs ex_load 0x5000) = ex_tt"
    "sec_area ex_load = win 0x7000 4"
    by (simp_all add: PAGE_DOWN_def PAGE_UP_def ex_load_def bitmap_area_def win_def ex_mm_def)
  have d: "cells ex_load = (\<lambda>_. 0)" "head_region (procs ex_load 0x5000) = 0x3000" "is_mapped (regions ex_load 0x3000) = 0"
    by (simp_all add: ex_load_def ex_mm_def zero_kst_def zero_region_def)
  have "pt_page ex_tt 0x400000 = 1024" by (simp add: pt_page_def ex_tt_def)
  then show ?thesis
    by (intro segment_loaded [where s = ex_load and p = "0x5000", unfolded c(3)] ex_tt_layout table_unit_walks ex_load_frames)
      (simp_all add: ph c d pt_inv_zero ex_load_frames seg_dst_def seg_src_def win_disjoint Int_Un_distrib
        PAGE_SIZE_4KB_def MAP_FAILED_def)
qed

end
