(* ===== verification/Load_Full.thy ===== *)
theory Load_Full
  imports Load_Safety
begin

text \<open>
  A whole program in memory: mappings of a process after its first one, and \<open>load_executable\<close> for a
  file with one segment.
\<close>

subsection \<open>A fixed mapping behind the regions of the process\<close>

lemma smf_loop_behind:
  "chain (\<lambda>q. region_next (rg q)) c xs \<Longrightarrow> xs \<noteq> [] \<Longrightarrow>
     \<forall>x \<in> set xs. va_base (rg x) \<le> address \<and> region_end rg x \<le> address \<Longrightarrow> address < request_end \<Longrightarrow>
     smf_loop rg address request_end c = Some 0"
proof (induction xs arbitrary: c)
  case (Cons x xs)
  show ?case
  proof (cases xs)
    case Nil
    then show ?thesis using Cons.prems by (subst smf_loop.simps) auto
  next
    case (Cons y ys)
    then have nxt: "c = x" "region_next (rg x) = y" "y \<noteq> 0" "y \<in> set xs" using Cons.prems(1) by auto
    then have "\<not> address < va_base (rg y)" using Cons.prems(3) by force
    then have "smf_loop rg address request_end c = smf_loop rg address request_end y"
      using nxt by (subst smf_loop.simps) simp
    moreover have "smf_loop rg address request_end y = Some 0"
      using Cons.IH [of y] Cons.prems nxt(2) Cons by auto
    ultimately show ?thesis by simp
  qed
qed simp

lemma search_fixed_behind:
  assumes "chain (\<lambda>q. region_next (rg q)) head xs" "xs \<noteq> []"
    and "\<forall>x \<in> set xs. va_base (rg x) \<le> address \<and> region_end rg x \<le> address" and "address < address + sz"
  shows "search_mmap_region_fixed rg head address sz = Some 0"
proof -
  have h: "head \<noteq> 0" "region_end rg head \<le> address" using assms(1-3) by (cases xs; auto)+
  then have "\<not> address + sz \<le> region_end rg head" using assms(4) by auto
  then show ?thesis
    using h smf_loop_behind [OF assms] by (auto simp: search_mmap_region_fixed_def Let_def)
qed

text \<open>The record of the new region is appended to the list.\<close>

lemma insert_behind:
  assumes c: "chain (\<lambda>q. region_next (rg q)) head (head # rs)" and q: "q \<noteq> 0" "q \<notin> set (head # rs)" "region_next (rg q) = 0"
    and "va_base (rg q) \<le> region_end rg q"
    and behind: "\<forall>x \<in> set rs. va_base (rg x) \<le> va_base (rg q) \<and> region_end rg x \<le> va_base (rg q)"
  shows "\<exists>nxt rg'. mmap_region_insert (region_next (rg head)) q rg = Some (1, nxt, rg') \<and>
     chain (\<lambda>x. region_next (set_region_next head nxt rg' x)) head (head # rs @ [q]) \<and>
     (\<forall>x. va_base (rg' x) = va_base (rg x) \<and> va_size (rg' x) = va_size (rg x) \<and> is_mapped (rg' x) = is_mapped (rg x))"
proof -
  have h: "head \<noteq> 0" and c2: "chain (\<lambda>q. region_next (rg q)) (region_next (rg head)) rs" using c by auto
  have hd: "head \<notin> set rs" using chain_distinct [OF c] by simp
  show ?thesis
  proof (cases "rs = []")
    case True
    then have n: "region_next (rg head) = 0" using c2 by simp
    have "chain (\<lambda>x. region_next (set_region_next head q rg x)) head [head, q]"
      using q h by (auto simp: set_region_next_def)
    then show ?thesis using True n by (simp add: mmap_region_insert_def)
  next
    case False
    then have nz: "region_next (rg head) \<noteq> 0" using c2 by (cases rs) auto
    let ?rg = "set_region_next (last rs) q rg"
    have "mmap_region_insert (region_next (rg head)) q rg = Some (1, region_next (rg head), ?rg)"
      using mri_loop_ascending [OF assms(5) c2 False behind] nz by (simp add: mmap_region_insert_def)
    moreover have "chain (\<lambda>x. region_next (set_region_next (last (head # rs)) q rg x)) head ((head # rs) @ [q])"
      by (rule rgl.append_node [OF c _ q]) simp
    moreover have "set_region_next head (region_next (rg head)) ?rg = ?rg"
      using False hd last_in_set [OF False] by (auto simp: set_region_next_def fun_eq_iff)
    moreover have "last (head # rs) = last rs" "(head # rs) @ [q] = head # rs @ [q]" using False by simp_all
    ultimately have "mmap_region_insert (region_next (rg head)) q rg = Some (1, region_next (rg head), ?rg) \<and>
        chain (\<lambda>x. region_next (set_region_next head (region_next (rg head)) ?rg x)) head (head # rs @ [q])"
      by (simp only:)
    moreover have "\<forall>x. va_base (?rg x) = va_base (rg x) \<and> va_size (?rg x) = va_size (rg x) \<and> is_mapped (?rg x) = is_mapped (rg x)"
      by (simp add: set_region_next_def)
    ultimately show ?thesis by blast
  qed
qed

text \<open>
  What such a mapping needs and does. The kernel heap (from \<open>a\<close> on, with the chunks \<open>xs\<close>) has to overlap
  neither the cells of the table set nor the bitmap of the frames.
\<close>

definition heap_apart :: "translation_tables \<Rightarrow> nat \<Rightarrow> nat \<Rightarrow> (nat \<times> bool) list \<Rightarrow> kst \<Rightarrow> bool" where
  "heap_apart t n a xs s \<longleftrightarrow> layout (cells s) a xs 0 \<and> heap_head (private_heap s) = of_nat a \<and> 40 \<le> a \<and>
     (\<forall>x \<in> pt_cell t ` pt_slots n \<union> sec_area s. unat x < a \<or> a + extent xs \<le> unat x)"

definition regions_below :: "kst \<Rightarrow> u64 list \<Rightarrow> u64 \<Rightarrow> bool" where
  "regions_below s hs address \<longleftrightarrow> hs \<noteq> [] \<and> chain (\<lambda>q. region_next (regions s q)) (hd hs) hs \<and>
     (\<forall>x \<in> set hs. va_base (regions s x) \<le> address \<and> region_end (regions s) x \<le> address)"

lemma mapped_to_cong:
  assumes "pt_layout t n" "pt_inv t n w" "\<forall>sl \<in> pt_slots n. w1 (pt_cell t sl) = w (pt_cell t sl)"
  shows "mapped_to t n p0 fs prot w1 w' = mapped_to t n p0 fs prot w w'"
  using pt_walk_cong [OF assms] by (simp add: mapped_to_def)

lemma heap_apart_kept:
  assumes "heap_apart t n a xs s" "\<forall>x. x \<notin> pt_cell t ` pt_slots n \<longrightarrow> cells s' x = cells s x"
    "sec_area s' = sec_area s" "private_heap s' = private_heap s"
  shows "heap_apart t n a xs s'"
proof -
  have "cells s' (of_nat c) = cells s (of_nat c)" if "a \<le> c" "c < a + extent xs" for c
  proof -
    have "a + extent xs < 18446744073709551616"
      using layout_bound [of "cells s" a xs 0] assms(1) that by (cases xs) (auto simp: heap_apart_def)
    then have "unat (of_nat c :: u64) = c" using that by (intro unat_of_nat_u64) simp
    moreover have "of_nat c \<notin> pt_cell t ` pt_slots n"
    proof
      assume "of_nat c \<in> pt_cell t ` pt_slots n"
      then have "unat (of_nat c :: u64) < a \<or> a + extent xs \<le> unat (of_nat c :: u64)"
        using assms(1) unfolding heap_apart_def by blast
      then show False using that calculation by simp
    qed
    ultimately show ?thesis using assms(2) by blast
  qed
  moreover have "layout (cells s) a xs 0" using assms(1) by (simp add: heap_apart_def)
  ultimately have "layout (cells s') a xs 0" using layout_cong [of a xs "cells s" "cells s'" 0] by simp
  then show ?thesis using assms by (simp add: heap_apart_def)
qed

lemma sys_mmap_user_behind:
  fixes s :: kst and sz :: u64
  defines "k \<equiv> unat (PAGE_UP sz div PAGE_SIZE_4KB)"
  assumes lay: "pt_layout t n" and inv: "pt_inv t n (cells s)" and fr: "sec_inv s" "k \<le> card (sec_avail s)"
    and pg: "pt_page t address + k \<le> n * 512" and R: "regions_below s (head # rs) address"
    and mp: "is_mapped (regions s head) \<noteq> 0" and top: "address < address + PAGE_UP sz"
    and H: "heap_apart t n a xs s" and ff: "first_fit a 656 xs = Some (q0, ys)"
    and q: "of_nat (q0 + 32) \<notin> set (head # rs)"
  shows "\<exists>s' fs. sys_mmap_user env t head address sz prot MAP_FIXED fdn offset s = Some (address, s') \<and>
     distinct fs \<and> length fs = k \<and> set fs \<subseteq> sec_avail s \<and> sec_avail s' = sec_avail s - set fs \<and> sec_inv s' \<and>
     mapped_to t n (pt_page t address) fs (perm_to_pt prot OR PT_USER) (cells s) (cells s') \<and> pt_inv t n (cells s') \<and>
     chain (\<lambda>q. region_next (regions s' q)) head (head # rs @ [of_nat (q0 + 32)]) \<and>
     region_is s' (of_nat (q0 + 32)) address (PAGE_UP sz) \<and> procs s' = procs s \<and>
     (\<forall>x \<in> set (head # rs). va_base (regions s' x) = va_base (regions s x) \<and>
        va_size (regions s' x) = va_size (regions s x) \<and> is_mapped (regions s' x) = is_mapped (regions s x)) \<and>
     (\<forall>x. x \<notin> sec_area s \<and> (unat x < a \<or> a + extent xs \<le> unat x) \<longrightarrow> bytes s' x = bytes s x)"
proof -
  define q where "q = (of_nat (q0 + 32) :: u64)"
  let ?p = "perm_to_pt prot OR PT_USER"
  have c: "chain (\<lambda>q. region_next (regions s q)) head (head # rs)"
    and below: "\<forall>x \<in> set (head # rs). va_base (regions s x) \<le> address \<and> region_end (regions s) x \<le> address"
    using R by (simp_all add: regions_below_def)
  have qn: "q \<notin> set (head # rs)" using q by (simp add: q_def)
  have H1: "layout (cells s) a xs 0" "heap_head (private_heap s) = of_nat a" "40 \<le> a"
    and far: "\<forall>x \<in> pt_cell t ` pt_slots n \<union> sec_area s. unat x < a \<or> a + extent xs \<le> unat x"
    using H by (simp_all add: heap_apart_def)
  obtain h m b where K: "kcalloc sizeof_kernel_struct 1 s = Some (q, s\<lparr>private_heap := h, cells := m, bytes := b\<rparr>)"
      "q \<noteq> 0" "\<forall>x. unat x < a \<or> a + extent xs \<le> unat x \<longrightarrow> m x = cells s x \<and> b x = bytes s x"
    using kcalloc_frame [OF H1, of sizeof_kernel_struct 1 q0 ys] ff
    unfolding q_def by (auto simp: sizeof_kernel_struct_def need_of_def simp del: of_nat_add)
  define s1 where "s1 = upd_region q (\<lambda>r. r\<lparr>is_kernel := 0, is_secure := 1, va_size := PAGE_UP sz, perm := ?p,
      va_base := address, is_mapped := 1\<rparr>) (upd_region q (\<lambda>_. zero_region) (s\<lparr>private_heap := h, cells := m, bytes := b\<rparr>))"
  have f: "cells s1 = m" "bytes s1 = b" "ks s1 = ks s" "procs s1 = procs s" by (simp_all add: s1_def upd_region_def)
  have rg: "regions s1 x = (if x = q then zero_region\<lparr>is_kernel := 0, is_secure := 1, va_size := PAGE_UP sz, perm := ?p,
      va_base := address, is_mapped := 1\<rparr> else regions s x)" for x by (simp add: s1_def upd_region_def)
  have same: "\<forall>sl \<in> pt_slots n. m (pt_cell t sl) = cells s (pt_cell t sl)" using K(3) far by blast
  have sec: "kf_inv b (secure_frames (ks s))" "kf_avail (b, secure_frames (ks s)) = sec_avail s"
    using kf_cong [of "secure_frames (ks s)" b "bytes s"] K(3) far fr(1) by blast+
  obtain mm fa w fs where I: "gm_map_loop env t k address ?p s1 =
        Some (s1\<lparr>bytes := mm, ks := (ks s1)\<lparr>secure_frames := fa\<rparr>, cells := w\<rparr>)"
      "pt_inv t n w" "kf_inv mm fa" "distinct fs" "length fs = k" "set fs \<subseteq> sec_avail s"
      "kf_avail (mm, fa) = sec_avail s - set fs" "mapped_to t n (pt_page t address) fs ?p m w"
      "\<forall>x. x \<notin> sec_area s \<longrightarrow> mm x = b x"
    using gm_map_loop_maps [OF lay user_flags_low, of s1 k address env prot] pt_inv_cong [OF same] inv sec fr(2) pg
    by (auto simp: f)
  define s2 where "s2 = s1\<lparr>bytes := mm, ks := (ks s1)\<lparr>secure_frames := fa\<rparr>, cells := w\<rparr>"
  have qe: "va_base (regions s1 q) \<le> region_end (regions s1) q" "region_next (regions s1 q) = 0"
    using top by (simp_all add: rg region_end_def zero_region_def)
  have c1: "chain (\<lambda>q. region_next (regions s1 q)) head (head # rs)"
    proof -
    have "region_next (regions s1 x) = region_next (regions s x)" if "x \<in> set (head # rs)" for x
      using that qn rg by auto
    from chain_cong [of "head # rs" "\<lambda>x. region_next (regions s1 x)" "\<lambda>x. region_next (regions s x)" head, OF this]
    show ?thesis using c by simp
  qed
  have b1: "\<forall>x \<in> set rs. va_base (regions s1 x) \<le> va_base (regions s1 q) \<and> region_end (regions s1) x \<le> va_base (regions s1 q)"
    using below qn by (auto simp: rg region_end_def)
  obtain nxt rg' where N: "mmap_region_insert (region_next (regions s1 head)) q (regions s1) = Some (1, nxt, rg')"
      "chain (\<lambda>x. region_next (set_region_next head nxt rg' x)) head (head # rs @ [q])"
      "\<forall>x. va_base (rg' x) = va_base (regions s1 x) \<and> va_size (rg' x) = va_size (regions s1 x) \<and>
        is_mapped (rg' x) = is_mapped (regions s1 x)"
    using insert_behind [OF c1 K(2) qn qe(2,1) b1] by blast
  define s' where "s' = s2\<lparr>regions := set_region_next head nxt rg'\<rparr>"
  have S: "search_mmap_region_fixed (regions s) head address (PAGE_UP sz) = Some 0"
    using search_fixed_behind [OF c _ below top] by simp
  have hq: "head \<noteq> 0" "q \<noteq> head" "sz \<noteq> 0" using c qn top by (auto simp: PAGE_UP_def)
  have rs2: "regions s2 = regions s1" by (simp add: s2_def)
  have run: "sys_mmap_user env t head address sz prot MAP_FIXED fdn offset s = Some (address, s')"
    using K(1,2) S hq mp I(1) N(1) rs2 unfolding sys_mmap_user_def generic_mmap_def
    by (simp add: MAP_FIXED_def MAP_FAILED_def k_def [symmetric] s1_def [symmetric] s2_def [symmetric] s'_def Let_def)
  have r': "va_base (regions s' x) = va_base (regions s1 x)" "va_size (regions s' x) = va_size (regions s1 x)"
    "is_mapped (regions s' x) = is_mapped (regions s1 x)" for x
    using N(3) by (simp_all add: s'_def set_region_next_def)
  have new: "region_is s' q address (PAGE_UP sz)" by (simp add: region_is_def r' rg)
  have old: "\<forall>x \<in> set (head # rs). va_base (regions s' x) = va_base (regions s x) \<and>
      va_size (regions s' x) = va_size (regions s x) \<and> is_mapped (regions s' x) = is_mapped (regions s x)"
    using qn by (auto simp: r' rg)
  have chain': "chain (\<lambda>x. region_next (regions s' x)) head (head # rs @ [q])" using N(2) by (simp add: s'_def)
  have walk: "mapped_to t n (pt_page t address) fs ?p (cells s) w"
    using I(8) mapped_to_cong [OF lay inv same] by blast
  have mem: "bytes s' x = bytes s x" if "x \<notin> sec_area s" "unat x < a \<or> a + extent xs \<le> unat x" for x
    using that I(9) K(3) by (auto simp: s'_def s2_def)
  have "cells s' = w" "bytes s' = mm" "secure_frames (ks s') = fa" "procs s' = procs s"
    by (simp_all add: s'_def s2_def f)
  then show ?thesis
    unfolding q_def [symmetric] using run I(2-7) walk chain' new old mem
    by (intro exI [of _ s'] exI [of _ fs]) blast
qed

subsection \<open>A file with one segment\<close>

lemma load_le_shift: "load_le m (p + d) n = load_le (\<lambda>x. m (x + d)) p n"
proof -
  have "p + d + of_nat i = p + of_nat i + d" for i by simp
  then show ?thesis by (simp only: load_le_def)
qed

lemma field_at_shift: "field_at m (p + d) fs i = field_at (\<lambda>x. m (x + d)) p fs i"
proof -
  have "p + d + of_nat (fst (fs ! i)) = p + of_nat (fst (fs ! i)) + d" by simp
  then show ?thesis by (simp only: field_at_def load_le_shift)
qed

lemma read_shift:
  "read_ehdr m (p + d) = read_ehdr (\<lambda>x. m (x + d)) p" "read_phdr m (p + d) = read_phdr (\<lambda>x. m (x + d)) p"
  by (simp_all add: read_ehdr_def read_phdr_def field_at_shift Let_def)

text \<open>A header read from a copy is the header of the original.\<close>

lemma read_copied:
  assumes "\<forall>i < n. m' (b + of_nat i) = m (a + of_nat i)" and "j + 64 \<le> n" "n \<le> 65536"
  shows "read_ehdr m' (b + of_nat j) = read_ehdr m (a + of_nat j)"
    and "read_phdr m' (b + of_nat j) = read_phdr m (a + of_nat j)"
proof -
  have e: "b + of_nat j = (a + of_nat j) + (b - a)" by simp
  have "m' (x + (b - a)) = m x" if "x \<in> win (a + of_nat j) 64" for x
  proof -
    have "x \<in> win a n" using that win_part [of j 64 n a] assms(2,3) by blast
    then have "m' (b + of_nat (unat (x - a))) = m (a + of_nat (unat (x - a)))"
      using assms(1) by (simp add: win_def del: of_nat_unat)
    then show ?thesis by (simp add: algebra_simps)
  qed
  then have w: "\<forall>x \<in> win (a + of_nat j) 64. m' (x + (b - a)) = m x" by blast
  show "read_ehdr m' (b + of_nat j) = read_ehdr m (a + of_nat j)"
    by (simp only: e) (simp only: read_shift(1) [of _ "a + of_nat j"] read_ehdr_win [OF w])
  have "win (a + of_nat j) 56 \<subseteq> win (a + of_nat j) 64" by (auto simp: win_def)
  then show "read_phdr m' (b + of_nat j) = read_phdr m (a + of_nat j)"
    by (simp only: e) (simp only: read_shift(2) [of _ "a + of_nat j"], rule read_phdr_win, use w in blast)
qed

lemma first_fit_extent: "first_fit a need xs = Some (p, ys) \<Longrightarrow> extent ys = extent xs"
proof -
  assume "first_fit a need xs = Some (p, ys)"
  then obtain bs n cs where "xs = bs @ (n, False) # cs" "need \<le> n"
    "ys = bs @ (if need + 40 < n then [(need, True), (n - need, False)] else [(n, True)]) @ cs"
    using first_fit_Some by blast
  then show ?thesis by auto
qed

text \<open>
  The loop over the program headers when there is one, and it is to be loaded: the segment, and one
  more test of the number of headers.
\<close>

lemma load_loop_one:
  assumes "e_phnum (read_ehdr (bytes s) hdr) = 1" and "p_type (read_phdr (bytes s) phdr) = PT_LOAD"
    and "load_segment env p dat phdr s = Some (0, s')" and "e_phnum (read_ehdr (bytes s') hdr) = 1"
  shows "load_loop env p dat hdr phdr 0 s = Some (0, s')"
proof -
  have "load_loop env p dat hdr (phdr + 56) 1 s' = Some (0, s')"
    using assms(4) by (subst load_loop.simps) simp
  moreover have "(0 :: c_int) <s 1" by (simp add: word_sless_alt)
  ultimately show ?thesis using assms(1-3) by (subst load_loop.simps) simp
qed

text \<open>
  An executable of at most 8192 bytes at \<open>dat\<close> whose only segment is to be loaded, and a fresh process \<open>p\<close>
  with tables \<open>t\<close>: the headers lie in the file; the pages of the segment and the four pages of the stack
  are covered by the tables, the stack behind the segment; there are frames for both; and the kernel heap, the
  bitmap of the frames, the cells of the tables, the file and the pages of the segment do not overlap.
\<close>

definition segment_ok :: "elf64_phdr \<Rightarrow> bool" where
  "segment_ok ph \<longleftrightarrow> p_type ph = PT_LOAD \<and> p_memsz ph \<noteq> 0 \<and> PAGE_DOWN (p_vaddr ph) \<noteq> 0 \<and>
     PAGE_UP (p_memsz ph) \<noteq> 0 \<and> p_filesz ph \<le> PAGE_UP (p_memsz ph) \<and> unat (PAGE_DOWN (p_vaddr ph)) + unat (PAGE_UP (p_memsz ph)) \<le> 0x7fb000"

definition one_segment :: "bytemem \<Rightarrow> u64 \<Rightarrow> u64 \<Rightarrow> bool" where
  "one_segment m dat sz \<longleftrightarrow> dat \<noteq> 0 \<and> unat sz \<le> 8192 \<and> 64 \<le> unat sz \<and>
     (let h = read_ehdr m dat in (e_type h = ET_EXEC \<or> e_type h = ET_DYN) \<and> e_phnum h = 1 \<and>
        unat (e_phoff h) + 64 \<le> unat sz \<and> segment_ok (read_phdr m (dat + e_phoff h)))"

definition seg_pages :: "elf64_phdr \<Rightarrow> nat" where
  "seg_pages ph = unat (PAGE_UP (p_memsz ph) div PAGE_SIZE_4KB)"

lemma filesz_pages:
  assumes "p_filesz ph \<le> PAGE_UP (p_memsz ph)"
  shows "unat (p_filesz ph) \<le> seg_pages ph * 4096"
proof -
  have "take_bit 12 (PAGE_UP (p_memsz ph)) = 0"
  proof -
    have m: "(0xFFF :: u64) = mask 12" by (simp add: mask_eq_exp_minus_1)
    show ?thesis unfolding PAGE_UP_def m by (rule bit_word_eqI) (auto simp: bit_simps)
  qed
  then have "unat (PAGE_UP (p_memsz ph)) div 4096 * 4096 = unat (PAGE_UP (p_memsz ph))"
    using page_aligned_nat by (metis mod_0_imp_dvd dvd_div_mult_self)
  then show ?thesis using assms by (simp add: seg_pages_def PAGE_SIZE_4KB_def unat_div word_le_nat_alt)
qed

definition room_for :: "translation_tables \<Rightarrow> nat \<Rightarrow> nat \<Rightarrow> (nat \<times> bool) list \<Rightarrow> elf64_phdr \<Rightarrow> u64 \<Rightarrow> u64 \<Rightarrow> kst \<Rightarrow> bool" where
  "room_for t n a xs ph dat sz s \<longleftrightarrow>
     pt_layout t n \<and> pt_inv t n (cells s) \<and> sec_inv s \<and> heap_apart t n a xs s \<and> a + extent xs < 18446744073709551616 \<and>
     seg_pages ph + 4 \<le> card (sec_avail s) \<and> pt_page t (PAGE_DOWN (p_vaddr ph)) + seg_pages ph \<le> pt_page t 0x7fb000 \<and>
     pt_page t 0x7fb000 + 4 \<le> n * 512 \<and> 0 < seg_pages ph \<and>
     unat (p_filesz ph) \<le> unat (PAGE_DOWN (p_vaddr ph) - (p_offset ph + dat)) \<and>
     seg_dst ph \<inter> sec_area s = {} \<and> seg_src ph dat \<inter> sec_area s = {} \<and>
     (\<forall>x \<in> seg_src ph dat \<union> seg_dst ph \<union> win dat (unat sz). unat x < a \<or> a + extent xs \<le> unat x)"

text \<open>
  The result: the segment on the frames \<open>fs\<close>, the stack on the frames \<open>gs\<close>, all distinct and free before;
  every other page as it was; the bytes of the file at the start of the first page.
\<close>

definition program_in_place ::
  "translation_tables \<Rightarrow> nat \<Rightarrow> elf64_phdr \<Rightarrow> u64 \<Rightarrow> kst \<Rightarrow> kst \<Rightarrow> u64 list \<Rightarrow> u64 list \<Rightarrow> bool" where
  "program_in_place t n ph dat s s' fs gs \<longleftrightarrow>
     distinct (fs @ gs) \<and> set (fs @ gs) \<subseteq> sec_avail s \<and> length fs = seg_pages ph \<and> length gs = 4 \<and>
     sec_avail s' = sec_avail s - set (fs @ gs) \<and> sec_inv s' \<and> pt_inv t n (cells s') \<and>
     (\<forall>va. pt_in_range t n va \<longrightarrow> pt_walk t (cells s') va =
       (let i = pt_page t va; p0 = pt_page t (PAGE_DOWN (p_vaddr ph)); p1 = pt_page t 0x7fb000; fl = elf_pf_to_prot (p_flags ph) in
        if p1 \<le> i \<and> i < p1 + 4 then Some (page_descriptor (gs ! (i - p1)) (perm_to_pt PROT_RW OR PT_USER) 0)
        else if i = p0 then Some (page_descriptor (hd fs) (perm_to_pt fl OR PT_USER) 0)
        else if p0 < i \<and> i < p0 + length fs then Some (page_descriptor (fs ! (i - p0)) (perm_to_pt (fl OR PROT_W) OR PT_USER) 0)
        else pt_walk t (cells s) va)) \<and>
     (\<forall>x \<in> seg_dst ph. bytes s' x = bytes s (p_offset ph + dat + (x - PAGE_DOWN (p_vaddr ph))))"

lemma outside_win:
  fixes x :: u64 and a q N top :: nat
  assumes "a \<le> q" "q + N \<le> top" "top < 18446744073709551616" "unat x < a \<or> top \<le> unat x"
  shows "\<not> unat (x - of_nat q) < N"
proof
  assume d: "unat (x - of_nat q) < N"
  have u: "unat (of_nat q :: u64) = q" using assms by (intro unat_of_nat_u64) simp
  have "unat x = unat ((x - of_nat q) + of_nat q)" by simp
  also have "\<dots> = unat (x - of_nat q) + q"
    using d assms by (subst unat_add_nowrap) (simp_all only: u)
  finally show False using d assms by linarith
qed

lemma win_below: "x \<in> win b n \<Longrightarrow> unat b + n \<le> 18446744073709551616 \<Longrightarrow> unat x < unat b + n"
proof -
  assume x: "x \<in> win b n" and n: "unat b + n \<le> 18446744073709551616"
  have "unat x = unat (b + (x - b))" by simp
  also have "\<dots> = unat b + unat (x - b)" by (rule unat_add_nowrap) (use x n in \<open>simp add: win_def\<close>)
  finally show "unat x < unat b + n" using x by (simp add: win_def)
qed

text \<open>The buffer and the copy of the file in it.\<close>

lemma file_copied:
  fixes s :: kst
  assumes H: "heap_apart t n a xs s" and top: "a + extent xs < 18446744073709551616"
    and ff: "first_fit a (need_of 8192) xs = Some (p0, ys)" and sz: "unat sz \<le> 8192"
    and far: "\<forall>x \<in> win dat (unat sz). unat x < a \<or> a + extent xs \<le> unat x"
  defines "buf \<equiv> (of_nat (p0 + 32) :: u64)"
  shows "\<exists>h m b. kmalloc 0x2000 s = Some (buf, s\<lparr>private_heap := h, cells := m\<rparr>) \<and> buf \<noteq> 0 \<and>
     snd (memcpy (bytes s) buf dat sz) = b \<and> (\<forall>i < unat sz. b (buf + of_nat i) = bytes s (dat + of_nat i)) \<and>
     (\<forall>x. unat x < a \<or> a + extent xs \<le> unat x \<longrightarrow> m x = cells s x \<and> b x = bytes s x) \<and>
     heap_apart t n a ys (s\<lparr>private_heap := h, cells := m, bytes := b\<rparr>) \<and>
     (\<forall>x \<in> win buf (unat sz). a \<le> unat x \<and> unat x < a + extent xs)"
proof -
  have H1: "layout (cells s) a xs 0" "heap_head (private_heap s) = of_nat a" "40 \<le> a"
    and hf: "\<forall>x \<in> pt_cell t ` pt_slots n \<union> sec_area s. unat x < a \<or> a + extent xs \<le> unat x"
    using H by (simp_all add: heap_apart_def)
  obtain h m where K: "kmalloc 0x2000 s = Some (buf, s\<lparr>private_heap := h, cells := m\<rparr>)" "layout m a ys 0"
      "heap_head h = of_nat a" "buf \<noteq> 0" "\<forall>x. unat x < a \<or> a + extent xs \<le> unat x \<longrightarrow> m x = cells s x"
    using kmalloc_frame [OF H1, where sz = "0x2000" and p = p0 and ys = ys] ff unfolding buf_def by (auto simp del: of_nat_add)
  have p: "p0 + 32 + 8192 \<le> a + extent xs" "a \<le> p0"
    using first_fit_fresh(1) [OF ff] need_bounds(1) [of 8192] by auto
  then have q: "a \<le> p0 + 32" "p0 + 32 + unat sz \<le> a + extent xs" using sz by simp_all
  note out = outside_win [OF q top, folded buf_def]
  have inside: "a \<le> unat x \<and> unat x < a + extent xs" if "x \<in> win buf (unat sz)" for x
    using out [of x] that unfolding win_def mem_Collect_eq by linarith
  let ?b = "snd (memcpy (bytes s) buf dat sz)"
  have ov: "unat sz \<le> unat (buf - dat)"
  proof (rule ccontr)
    assume n: "\<not> unat sz \<le> unat (buf - dat)"
    then have "buf \<in> win dat (unat sz)" "buf \<in> win buf (unat sz)" by (auto simp: win_def)
    then show False using far inside by fastforce
  qed
  then have b: "?b = (\<lambda>x. if unat (x - buf) < unat sz then bytes s (dat + (x - buf)) else bytes s x)"
    by (simp add: memcpy_def memcpy_loop_copy)
  have "\<forall>i < unat sz. ?b (buf + of_nat i) = bytes s (dat + of_nat i)"
    using sz by (simp add: b unat_of_nat_u64)
  moreover have "\<forall>x. unat x < a \<or> a + extent xs \<le> unat x \<longrightarrow> m x = cells s x \<and> ?b x = bytes s x"
    using K(5) out by (simp add: b)
  moreover have "heap_apart t n a ys (s\<lparr>private_heap := h, cells := m, bytes := ?b\<rparr>)"
    using K(2,3) H1(3) hf by (simp add: heap_apart_def first_fit_extent [OF ff])
  ultimately show ?thesis using K(1,4) inside
    by (intro exI [of _ h] exI [of _ m] exI [of _ ?b]) blast
qed

text \<open>These conditions do not depend on what is in the heap.\<close>

lemma room_kept:
  assumes R: "room_for t n a xs ph dat sz s" and H: "heap_apart t n a ys s'" and e: "extent ys = extent xs"
    and k: "ks s' = ks s" and out: "\<forall>x. unat x < a \<or> a + extent xs \<le> unat x \<longrightarrow> cells s' x = cells s x \<and> bytes s' x = bytes s x"
  shows "room_for t n a ys ph dat sz s'" "sec_avail s' = sec_avail s"
    "\<forall>x \<in> seg_src ph dat. bytes s' x = bytes s x"
    "\<forall>va. pt_in_range t n va \<longrightarrow> pt_walk t (cells s') va = pt_walk t (cells s) va"
proof -
  have far: "\<forall>x \<in> pt_cell t ` pt_slots n \<union> sec_area s \<union> seg_src ph dat. unat x < a \<or> a + extent xs \<le> unat x"
    and L: "pt_layout t n" "pt_inv t n (cells s)"
    using R by (auto simp: room_for_def heap_apart_def)
  then have c: "\<forall>sl \<in> pt_slots n. cells s' (pt_cell t sl) = cells s (pt_cell t sl)"
    and b: "\<forall>x \<in> sec_area s. bytes s' x = bytes s x" using out by blast+
  show "\<forall>x \<in> seg_src ph dat. bytes s' x = bytes s x" using far out by blast
  show "\<forall>va. pt_in_range t n va \<longrightarrow> pt_walk t (cells s') va = pt_walk t (cells s) va"
    using pt_walk_cong [OF L c] by blast
  show "sec_avail s' = sec_avail s" using kf_cong(2) [OF b] by (simp add: k)
  then show "room_for t n a ys ph dat sz s'"
    using R H pt_inv_cong [OF c] kf_cong(1) [OF b] by (simp add: room_for_def e k)
qed

text \<open>The loop over the program headers, on headers in a buffer of \<open>N\<close> bytes in the heap.\<close>

lemma segment_loop:
  fixes s :: kst and p dat buf off :: u64
  defines "t \<equiv> p_t (procs s p)" and "head \<equiv> head_region (procs s p)"
  assumes room: "room_for t n a ys ph dat sz s" and hw: "mmu_walks env t n" and lp: "segment_ok ph"
    and hd: "head \<noteq> 0" "is_mapped (regions s head) = 0"
    and hdr: "e_phnum (read_ehdr (bytes s) buf) = 1" "read_phdr (bytes s) (buf + off) = ph"
    and N: "64 \<le> N" "N \<le> 8192" "unat off + 64 \<le> N" and buf: "\<forall>x \<in> win buf N. a \<le> unat x \<and> unat x < a + extent ys"
  shows "\<exists>s' fs. load_loop env p dat buf (buf + off) 0 s = Some (0, s') \<and> segment_in_place t n ph dat s s' fs \<and>
     mapping_kept t n s s' \<and> region_is s' head (PAGE_DOWN (p_vaddr ph)) (PAGE_UP (p_memsz ph)) \<and>
     region_next (regions s' head) = region_next (regions s head) \<and> sec_inv s' \<and> sec_avail s' = sec_avail s - set fs"
proof -
  define va where "va = PAGE_DOWN (p_vaddr ph)"
  let ?k = "seg_pages ph"
  have S: "p_type ph = PT_LOAD" "p_memsz ph \<noteq> 0" "va \<noteq> 0" "PAGE_UP (p_memsz ph) \<noteq> 0" "va \<noteq> MAP_FAILED"
    "p_filesz ph \<le> PAGE_UP (p_memsz ph)"
    using lp by (auto simp: segment_ok_def va_def MAP_FAILED_def)
  have fit: "unat (p_filesz ph) \<le> ?k * 4096" by (rule filesz_pages [OF S(6)])
  have R: "pt_layout t n" "pt_inv t n (cells s)" "sec_inv s" "?k \<le> card (sec_avail s)" "pt_page t va + ?k \<le> n * 512" "0 < ?k"
    "unat (p_filesz ph) \<le> unat (va - (p_offset ph + dat))" "seg_dst ph \<inter> sec_area s = {}" "seg_src ph dat \<inter> sec_area s = {}"
    and far: "\<forall>x \<in> sec_area s \<union> seg_dst ph. unat x < a \<or> a + extent ys \<le> unat x"
    using room unfolding room_for_def va_def [symmetric] by (auto simp: heap_apart_def)
  have in_buf: "x \<notin> sec_area s \<union> seg_dst ph" if "x \<in> win buf N" for x
    using buf that far by (meson linorder_not_le)
  have "win (buf + off) 56 \<subseteq> win buf N" using win_part [of "unat off" 56 N buf] N by simp
  then have sep: "win (buf + off) 56 \<inter> (sec_area s \<union> seg_dst ph) = {}" using in_buf by blast
  obtain s' fs where L: "load_segment env p dat (buf + off) s = Some (0, s')" "segment_in_place t n ph dat s s' fs"
      "mapping_kept t n s s'" "region_is s' head va (PAGE_UP (p_memsz ph))"
      "region_next (regions s' head) = region_next (regions s head)" "sec_inv s'" "sec_avail s' = sec_avail s - set fs"
    using load_segment_effect [where s = s and p = p and dat = dat and phdr = "buf + off" and n = n and env = env,
        unfolded hdr(2) t_def [symmetric] head_def [symmetric] va_def [symmetric] seg_pages_def [symmetric],
        OF R(1,2) hw R(3,4,6,5) hd S(3,5,2,4) R(7) fit sep R(9)] R(8)
    by blast
  have e: "e_phnum (read_ehdr (bytes s') buf) = 1"
  proof -
    have "win buf 64 \<subseteq> win buf N" using N(1) by (auto simp: win_def)
    then have "\<forall>x \<in> win buf 64. bytes s' x = bytes s x"
      using in_buf L(2) unfolding segment_in_place_def Let_def by blast
    then show ?thesis using read_ehdr_win hdr(1) by metis
  qed
  have "load_loop env p dat buf (buf + off) 0 s = Some (0, s')"
    by (rule load_loop_one [OF hdr(1) _ L(1) e]) (simp add: hdr(2) S(1))
  then show ?thesis using L(2-7) unfolding va_def by blast
qed

text \<open>The stack, behind the segment.\<close>

lemma stack_mapped:
  fixes s s1 :: kst and p :: u64 and f :: "process \<Rightarrow> process"
  assumes room: "room_for t n a ys ph dat sz s" and lp: "segment_ok ph" and hd: "head \<noteq> 0" "region_next (regions s head) = 0"
    and seg: "segment_in_place t n ph dat s s1 fs" "mapping_kept t n s s1"
      "region_is s1 head (PAGE_DOWN (p_vaddr ph)) (PAGE_UP (p_memsz ph))"
      "region_next (regions s1 head) = region_next (regions s head)" "sec_inv s1" "sec_avail s1 = sec_avail s - set fs"
    and ff: "first_fit a 656 ys = Some (q0, zs)" "of_nat (q0 + 32) \<noteq> head"
  defines "s2 \<equiv> upd_proc p f s1"
  shows "\<exists>s' gs. sys_mmap_user env t head 0x7fb000 0x4000 PROT_RW MAP_FIXED 0 0 s2 = Some (0x7fb000, s') \<and>
     program_in_place t n ph dat s s' fs gs \<and> procs s' = procs s2 \<and>
     region_is s' head (PAGE_DOWN (p_vaddr ph)) (PAGE_UP (p_memsz ph)) \<and> region_is s' (of_nat (q0 + 32)) 0x7fb000 0x4000"
proof -
  define va where "va = PAGE_DOWN (p_vaddr ph)"
  let ?F = "sec_area s"
  have f: "cells s2 = cells s1" "bytes s2 = bytes s1" "ks s2 = ks s1" "regions s2 = regions s1" "private_heap s2 = private_heap s1"
    by (simp_all add: s2_def upd_proc_def)
  have R: "pt_layout t n" "seg_pages ph + 4 \<le> card (sec_avail s)" "pt_page t 0x7fb000 + 4 \<le> n * 512" "seg_dst ph \<inter> ?F = {}"
    "heap_apart t n a ys s" and far: "\<forall>x \<in> seg_dst ph. unat x < a \<or> a + extent ys \<le> unat x"
    using room by (simp_all add: room_for_def)
  have P: "length fs = seg_pages ph" "distinct fs" "set fs \<subseteq> sec_avail s"
    "\<forall>x \<in> seg_dst ph. bytes s1 x = bytes s (p_offset ph + dat + (x - va))"
    using seg(1) unfolding segment_in_place_def Let_def by (auto simp: va_def seg_pages_def)
  have F: "sec_area s2 = ?F" "pt_inv t n (cells s2)" using seg(2) by (simp_all add: mapping_kept_def f)
  have "heap_apart t n a ys s1" by (rule heap_apart_kept [OF R(5)]) (use seg(2) in \<open>simp_all add: mapping_kept_def\<close>)
  then have H: "heap_apart t n a ys s2" by (simp add: heap_apart_def f)
  have bnd: "unat va + unat (PAGE_UP (p_memsz ph)) \<le> 0x7fb000" using lp by (simp add: segment_ok_def va_def)
  then have "unat (va + PAGE_UP (p_memsz ph)) = unat va + unat (PAGE_UP (p_memsz ph))"
    by (intro unat_add_nowrap) simp
  then have B: "regions_below s2 [head] 0x7fb000"
    using seg(3,4) hd bnd by (simp add: regions_below_def f region_is_def region_end_def word_le_nat_alt va_def)
  have mp: "is_mapped (regions s2 head) \<noteq> 0" using seg(3) by (simp add: f region_is_def)
  have kk: "unat (PAGE_UP 0x4000 div PAGE_SIZE_4KB) = 4" "PAGE_UP 0x4000 = 0x4000" "unat (0x4000 div PAGE_SIZE_4KB) = 4"
    by (simp_all add: PAGE_UP_def PAGE_SIZE_4KB_def)
  have av: "sec_avail s2 = sec_avail s - set fs" "sec_inv s2" using seg(5,6) by (simp_all add: f)
  have "card (sec_avail s - set fs) = card (sec_avail s) - seg_pages ph"
    using P(1-3) by (simp add: card_Diff_subset distinct_card)
  then have cd: "unat (PAGE_UP 0x4000 div PAGE_SIZE_4KB) \<le> card (sec_avail s2)" using R(2) by (simp add: av kk)
  obtain s' gs where M: "sys_mmap_user env t head 0x7fb000 0x4000 PROT_RW MAP_FIXED 0 0 s2 = Some (0x7fb000, s')"
      "distinct gs" "length gs = 4" "set gs \<subseteq> sec_avail s2" "sec_avail s' = sec_avail s2 - set gs" "sec_inv s'"
      "mapped_to t n (pt_page t 0x7fb000) gs (perm_to_pt PROT_RW OR PT_USER) (cells s2) (cells s')" "pt_inv t n (cells s')"
      "region_is s' (of_nat (q0 + 32)) 0x7fb000 0x4000" "procs s' = procs s2"
      "\<forall>x \<in> set [head]. va_base (regions s' x) = va_base (regions s2 x) \<and>
        va_size (regions s' x) = va_size (regions s2 x) \<and> is_mapped (regions s' x) = is_mapped (regions s2 x)"
      "\<forall>x. x \<notin> ?F \<and> (unat x < a \<or> a + extent ys \<le> unat x) \<longrightarrow> bytes s' x = bytes s2 x"
    using sys_mmap_user_behind [where s = s2 and address = "0x7fb000" and sz = "0x4000" and env = env and prot = PROT_RW
        and fdn = 0 and offset = 0, OF R(1) F(2) av(2) cd _ B mp _ H ff(1), unfolded kk F(1)]
      R(3) ff(2) by (auto simp del: of_nat_add)
  have dst: "bytes s' x = bytes s (p_offset ph + dat + (x - va))" if x: "x \<in> seg_dst ph" for x
  proof -
    have "bytes s' x = bytes s2 x" using M(12) R(4) far x by blast
    then show ?thesis using P(4) x f(2) by simp
  qed
  have walk: "pt_walk t (cells s') v =
      (let i = pt_page t v; p0 = pt_page t va; p1 = pt_page t 0x7fb000; fl = elf_pf_to_prot (p_flags ph) in
        if p1 \<le> i \<and> i < p1 + 4 then Some (page_descriptor (gs ! (i - p1)) (perm_to_pt PROT_RW OR PT_USER) 0)
        else if i = p0 then Some (page_descriptor (hd fs) (perm_to_pt fl OR PT_USER) 0)
        else if p0 < i \<and> i < p0 + length fs then Some (page_descriptor (fs ! (i - p0)) (perm_to_pt (fl OR PROT_W) OR PT_USER) 0)
        else pt_walk t (cells s) v)" if v: "pt_in_range t n v" for v
    using seg(1) M(3,7) v unfolding segment_in_place_def Let_def va_def [symmetric] by (simp add: mapped_to_def f)
  have frames: "distinct (fs @ gs)" "set (fs @ gs) \<subseteq> sec_avail s" "sec_avail s' = sec_avail s - set (fs @ gs)"
    using M(2,4,5) P(2,3) av(1) by auto
  have "program_in_place t n ph dat s s' fs gs"
    unfolding program_in_place_def va_def [symmetric] using frames P(1) M(3,6,8) walk dst by blast
  moreover have "region_is s' head (PAGE_DOWN (p_vaddr ph)) (PAGE_UP (p_memsz ph))"
    using seg(3) M(11) f(4) by (simp add: region_is_def)
  ultimately show ?thesis using M(1,9,10) by blast
qed

text \<open>The result, seen from a state with the same free frames, mappings and bytes of the segment.\<close>

lemma program_from:
  assumes "sec_avail s1 = sec_avail s" "\<forall>x \<in> seg_src ph dat. bytes s1 x = bytes s x"
    "\<forall>va. pt_in_range t n va \<longrightarrow> pt_walk t (cells s1) va = pt_walk t (cells s) va"
    and P: "program_in_place t n ph dat s1 s' fs gs"
  shows "program_in_place t n ph dat s s' fs gs"
proof -
  have "p_offset ph + dat + (x - PAGE_DOWN (p_vaddr ph)) \<in> seg_src ph dat" if "x \<in> seg_dst ph" for x
    using that by (simp add: seg_src_def seg_dst_def win_def)
  then show ?thesis using P assms(1-3) by (simp add: program_in_place_def Let_def)
qed

text \<open>C7. \<open>load_executable\<close> puts a program with one segment into memory. The pages of the segment get fresh
  frames; the first of them has the permissions of the segment, the others may be written as well, whatever the
  segment says. The bytes of the segment are at the start of its first page, \<open>PAGE_DOWN (p_vaddr ph)\<close>, which is
  their place only when \<open>p_vaddr\<close> is the start of a page. The stack gets four writable pages up to \<open>0x7ff000\<close> on
  four other fresh frames; all other pages are mapped as before, the allocator and the tables keep their
  invariants, the two regions are entered, and the process has the entry point of the file and the bounds of its stack.\<close>

theorem executable_loaded:
  fixes s :: kst and p dat sz :: u64
  defines "h \<equiv> read_ehdr (bytes s) dat" and "t \<equiv> p_t (procs s p)" and "head \<equiv> head_region (procs s p)"
  defines "ph \<equiv> read_phdr (bytes s) (dat + e_phoff h)"
  assumes elf: "one_segment (bytes s) dat sz" and room: "room_for t n a xs ph dat sz s" and hw: "mmu_walks env t n"
    and hd: "head \<noteq> 0" "is_mapped (regions s head) = 0" "region_next (regions s head) = 0"
    and ff: "first_fit a (need_of 8192) xs = Some (pb, ys)" "first_fit a 656 ys = Some (pr, zs)" "of_nat (pr + 32) \<noteq> head"
  shows "\<exists>s' fs gs. load_executable env fdn p dat sz s = Some (0, s') \<and> program_in_place t n ph dat s s' fs gs \<and>
     entry (procs s' p) = e_entry h \<and> stack_base (procs s' p) = 0x7ff000 \<and> stack_size (procs s' p) = 0x4000 \<and>
     region_is s' head (PAGE_DOWN (p_vaddr ph)) (PAGE_UP (p_memsz ph)) \<and> region_is s' (of_nat (pr + 32)) 0x7fb000 0x4000"
proof -
  have S: "dat \<noteq> 0" "unat sz \<le> 8192" "64 \<le> unat sz" "e_type h = ET_EXEC \<or> e_type h = ET_DYN" "e_phnum h = 1"
    "unat (e_phoff h) + 64 \<le> unat sz" "segment_ok ph"
    using elf unfolding one_segment_def Let_def h_def [symmetric] ph_def [symmetric] by blast+
  have R: "heap_apart t n a xs s" "a + extent xs < 18446744073709551616"
    and far: "\<forall>x \<in> win dat (unat sz). unat x < a \<or> a + extent xs \<le> unat x"
    using room unfolding room_for_def by blast+
  define buf where "buf = (of_nat (pb + 32) :: u64)"
  obtain hp m b where K: "kmalloc 0x2000 s = Some (buf, s\<lparr>private_heap := hp, cells := m\<rparr>)" "buf \<noteq> 0"
      "snd (memcpy (bytes s) buf dat sz) = b" "\<forall>i < unat sz. b (buf + of_nat i) = bytes s (dat + of_nat i)"
      "\<forall>x. unat x < a \<or> a + extent xs \<le> unat x \<longrightarrow> m x = cells s x \<and> b x = bytes s x"
      "heap_apart t n a ys (s\<lparr>private_heap := hp, cells := m, bytes := b\<rparr>)"
      "\<forall>x \<in> win buf (unat sz). a \<le> unat x \<and> unat x < a + extent xs"
    using file_copied [OF R ff(1) S(2) far] unfolding buf_def by blast
  define s1 where "s1 = s\<lparr>private_heap := hp, cells := m, bytes := b\<rparr>"
  define s2 where "s2 = upd_proc p (\<lambda>r. r\<lparr>entry := e_entry h\<rparr>) s1"
  have f2: "bytes s2 = b" "cells s2 = m" "ks s2 = ks s" "regions s2 = regions s" "p_t (procs s2 p) = t"
    "head_region (procs s2 p) = head" "entry (procs s2 p) = e_entry h"
    by (simp_all add: s2_def s1_def upd_proc_def t_def head_def)
  have hdr: "read_ehdr b buf = h" "read_phdr b (buf + e_phoff h) = ph"
    using read_copied [OF K(4), of 0] read_copied [OF K(4) S(6)] S(2,3) by (simp_all add: h_def ph_def)
  have ex: "extent ys = extent xs" by (rule first_fit_extent [OF ff(1)])
  have H2: "heap_apart t n a ys s2" using K(6) by (simp add: heap_apart_def s2_def s1_def upd_proc_def)
  note room2 = room_kept [OF room H2 ex f2(3), unfolded f2(1,2), OF K(5)]
  have hdr2: "e_phnum (read_ehdr (bytes s2) buf) = 1" "read_phdr (bytes s2) (buf + e_phoff h) = ph"
    using hdr S(5) by (simp_all add: f2(1))
  have hd2: "head_region (procs s2 p) \<noteq> 0" "is_mapped (regions s2 (head_region (procs s2 p))) = 0"
    "region_next (regions s2 (head_region (procs s2 p))) = 0"
    using hd by (simp_all add: f2)
  obtain s3 fs where L: "load_loop env p dat buf (buf + e_phoff h) 0 s2 = Some (0, s3)" "segment_in_place t n ph dat s2 s3 fs"
      "mapping_kept t n s2 s3" "region_is s3 head (PAGE_DOWN (p_vaddr ph)) (PAGE_UP (p_memsz ph))"
      "region_next (regions s3 head) = region_next (regions s2 head)" "sec_inv s3" "sec_avail s3 = sec_avail s2 - set fs"
    using segment_loop [where s = s2 and p = p and N = "unat sz", OF _ _ S(7) hd2(1,2) hdr2 S(3,2,6), unfolded f2(5,6),
        OF room2(1) hw K(7) [folded ex]] by blast
  define s4 where "s4 = upd_proc p (\<lambda>r. r\<lparr>stack_base := 0x7ff000, stack_size := 0x4000\<rparr>) s3"
  obtain s' gs where M: "sys_mmap_user env t head 0x7fb000 0x4000 PROT_RW MAP_FIXED 0 0 s4 = Some (0x7fb000, s')"
     "program_in_place t n ph dat s2 s' fs gs" "procs s' = procs s4"
     "region_is s' head (PAGE_DOWN (p_vaddr ph)) (PAGE_UP (p_memsz ph))" "region_is s' (of_nat (pr + 32)) 0x7fb000 0x4000"
    using stack_mapped [OF room2(1) S(7) hd(1) hd2(3) [unfolded f2(6)] L(2-7) ff(2,3)] unfolding s4_def by blast
  have p4: "p_t (procs s4 p) = t" "head_region (procs s4 p) = head" "entry (procs s4 p) = e_entry h"
    "stack_base (procs s4 p) = 0x7ff000" "stack_size (procs s4 p) = 0x4000"
    using L(3) f2(5-7) by (simp_all add: mapping_kept_def s4_def upd_proc_def)
  have ty: "(e_type h \<noteq> ET_EXEC \<and> e_type h \<noteq> ET_DYN) = False" "0 < sz"
    using S(3,4) by (auto simp: word_less_nat_alt)
  have hdr1: "read_ehdr (bytes s1) buf = h" using hdr(1) by (simp add: s1_def)
  have run: "load_executable env fdn p dat sz s = Some (0, s')"
    unfolding load_executable_def using K(1-3) S(1) L(1) M(1)
    by (simp add: Let_def ty s1_def [symmetric] hdr1 hdr s2_def [symmetric] s4_def [symmetric] p4)
  have procs': "entry (procs s' p) = e_entry h" "stack_base (procs s' p) = 0x7ff000" "stack_size (procs s' p) = 0x4000"
    by (simp_all add: M(3) p4)
  have "program_in_place t n ph dat s s' fs gs" by (rule program_from [OF _ _ _ M(2)]) (use room2(2-4) in \<open>simp_all add: f2(1,2)\<close>)
  then show ?thesis using run procs' M(4,5) by blast
qed

text \<open>An instance: a file of 256 bytes at \<open>0x20000\<close>, its program header behind its first header.\<close>

definition ex_file :: bytemem where
  "ex_file = (\<lambda>_. 0)(0x20010 := 2, 0x20018 := 0x80, 0x2001A := 0x40, 0x20020 := 0x40, 0x20038 := 1,
     0x20040 := 1, 0x20044 := 5, 0x20052 := 0x40, 0x20061 := 1, 0x20069 := 0x18)"

definition ex_exec :: kst where
  "ex_exec = (ex_heap 0xFFFFF00000402000)\<lparr>bytes := ex_file, ks := zero_ks\<lparr>secure_frames := zero_frames\<lparr>frame_count := 6,
     frame_start := 0x50000000, bitmap_frame := 0x7000, bitmap_count := 4, available_frame_count := 6\<rparr>\<rparr>,
     regions := (\<lambda>_. zero_region), procs := \<lambda>_. zero_process\<lparr>head_region := 0x3000, p_t := ex_tt\<rparr>\<rparr>"

lemma ex_file_headers:
  "e_type (read_ehdr ex_file 0x20000) = ET_EXEC" "e_entry (read_ehdr ex_file 0x20000) = 0x400080"
  "e_phoff (read_ehdr ex_file 0x20000) = 64" "e_phnum (read_ehdr ex_file 0x20000) = 1"
  "read_phdr ex_file 0x20040 = \<lparr>p_type = PT_LOAD, p_flags = 5, p_offset = 0, p_vaddr = 0x400000, p_paddr = 0,
     p_filesz = 0x100, p_memsz = 0x1800, p_align = 0\<rparr>"
  by (simp_all add: read_ehdr_def read_phdr_def field_at_def layouts load_le_def upt_rec ex_file_def PT_LOAD_def ET_EXEC_def)

lemma ex_exec_frames: "sec_inv ex_exec" "card (sec_avail ex_exec) = 6" "sec_area ex_exec = win 0x7000 6"
proof -
  let ?fa = "secure_frames (ks ex_exec)"
  have z: "ex_file (0x7000 + of_nat k) = 0" if "k < 6" for k
  proof -
    from that consider "k = 0" | "k = 1" | "k = 2" | "k = 3" | "k = 4" | "k = 5" by linarith
    then show ?thesis by cases (simp_all add: ex_file_def)
  qed
  have wf: "kf_wf ?fa" by (simp add: ex_exec_def kf_wf_def zero_frames_def)
  have fs: "kf_free_set (bytes ex_exec) ?fa = {..<6}"
    using z by (auto simp: ex_exec_def kf_free_set_def kf_free_at_def zero_frames_def KFRAME_FREE_def)
  show "sec_inv ex_exec" using wf fs z
    by (simp add: kf_inv_def ex_exec_def zero_frames_def KFRAME_FREE_def)
  have "inj_on (kf_addr ?fa) {..<6}"
    by (rule inj_on_subset [OF kf_addr_inj [OF wf]]) (auto simp: ex_exec_def)
  then show "card (sec_avail ex_exec) = 6" by (simp add: kf_avail_def fs card_image)
  show "sec_area ex_exec = win 0x7000 6" by (simp add: bitmap_area_def win_def ex_exec_def)
qed

lemma ex_tt_cells: "x \<in> pt_cell ex_tt ` pt_slots 4 \<Longrightarrow> 0xFFFFF00001000000 \<le> x"
proof -
  have b: "(0xFFFFF00001000000 :: u64) \<le> base + 8 * of_nat j"
    if "j < 2048" "0xFFFFF00001000000 \<le> base" "base \<le> 0xFFFFF00001003000" for base :: u64 and j :: nat
  proof -
    have "unat (8 * of_nat j :: u64) = 8 * j" using that(1) by (simp add: unat_mult_nowrap unat_of_nat_u64)
    then show ?thesis using that by (simp add: word_le_nat_alt unat_add_nowrap)
  qed
  show "x \<in> pt_cell ex_tt ` pt_slots 4 \<Longrightarrow> 0xFFFFF00001000000 \<le> x"
    using b [of _ "0xFFFFF00001002000"] b [of _ "0xFFFFF00001003000"]
    by (auto simp: pt_slots_def arr_def ex_tt_def VA_OFFSET_48_L0_def)
qed

lemma ex_exec_heap: "heap_apart ex_tt 4 0xFFFFF00000400000 [(0x5000, False)] ex_exec"
proof -
  have "layout (cells ex_exec) 0xFFFFF00000400000 [(0x5000, False)] 0" "heap_head (private_heap ex_exec) = of_nat 0xFFFFF00000400000"
    using ex_heap_layout [of "0xFFFFF00000402000"] ex_heap_head [of "0xFFFFF00000402000"] by (simp_all add: ex_exec_def)
  moreover have "0xFFFFF00000405000 \<le> unat x" if "x \<in> pt_cell ex_tt ` pt_slots 4" for x
    using ex_tt_cells [OF that] by (simp add: word_le_nat_alt)
  moreover have "unat x < 0xFFFFF00000400000" if "x \<in> win 0x7000 6" for x
    using win_below [OF that] by simp
  ultimately show ?thesis by (auto simp: heap_apart_def ex_exec_frames)
qed

theorem executable_loaded_witness:
  "\<exists>s' fs gs. load_executable (ex_env\<lparr>mmu := \<lambda>s. table_unit ex_tt (cells s)\<rparr>) 1 0x5000 0x20000 256 ex_exec = Some (0, s') \<and>
     program_in_place ex_tt 4 (read_phdr (bytes ex_exec) 0x20040) 0x20000 ex_exec s' fs gs \<and>
     entry (procs s' 0x5000) = 0x400080 \<and> stack_base (procs s' 0x5000) = 0x7ff000 \<and> stack_size (procs s' 0x5000) = 0x4000 \<and>
     region_is s' 0x3000 0x400000 0x2000 \<and> region_is s' 0xFFFFF00000402040 0x7fb000 0x4000"
proof -
  have f: "bytes ex_exec = ex_file" "p_t (procs ex_exec 0x5000) = ex_tt" "head_region (procs ex_exec 0x5000) = 0x3000"
    "regions ex_exec 0x3000 = zero_region"
    by (simp_all add: ex_exec_def)
  have g: "PAGE_DOWN 0x400000 = 0x400000" "PAGE_UP 0x1800 = 0x2000" "(0x20000 :: u64) + 64 = 0x20040"
    "pt_page ex_tt 0x400000 = 1024" "pt_page ex_tt 0x7fb000 = 2043"
    by (simp_all add: PAGE_DOWN_def PAGE_UP_def pt_page_def ex_tt_def)
  have elf: "one_segment ex_file 0x20000 256"
    by (simp add: one_segment_def segment_ok_def Let_def ex_file_headers g)
  have cl: "cells ex_exec = (\<lambda>_. 0)(0xFFFFF00000400000 := 0x5000)" by (simp add: ex_exec_def ex_heap_def)
  have "cells ex_exec (pt_cell ex_tt sl) = 0" if "sl \<in> pt_slots 4" for sl
    using ex_tt_cells [of "pt_cell ex_tt sl"] that by (auto simp: cl)
  then have inv: "pt_inv ex_tt 4 (cells ex_exec)"
    using pt_inv_cong [of 4 "cells ex_exec" ex_tt "\<lambda>_. 0"] pt_inv_zero by simp
  have far: "\<forall>x \<in> win 0x20000 256 \<union> win 0x400000 256 \<union> win 0x20000 (unat (256 :: u64)). unat x < 0xFFFFF00000400000"
    using win_below [of _ "0x20000" 256] win_below [of _ "0x400000" 256] by fastforce
  have room: "room_for ex_tt 4 0xFFFFF00000400000 [(0x5000, False)] (read_phdr ex_file 0x20040) 0x20000 256 ex_exec"
    using far by (auto simp: room_for_def ex_tt_layout inv ex_exec_frames ex_exec_heap ex_file_headers g seg_pages_def
        seg_src_def seg_dst_def win_disjoint PAGE_SIZE_4KB_def)
  note M = executable_loaded [where s = ex_exec and p = "0x5000" and dat = "0x20000" and sz = 256 and n = 4 and
        xs = "[(0x5000, False)]" and a = "0xFFFFF00000400000" and env = "ex_env\<lparr>mmu := \<lambda>s. table_unit ex_tt (cells s)\<rparr>"
        and fdn = 1 and ys = "[(8224, True), (12256, False)]" and zs = "[(8224, True), (656, True), (11600, False)]"
        and pb = "0xFFFFF00000400000" and pr = "0xFFFFF00000402020",
      unfolded f ex_file_headers g, OF elf room [unfolded ex_file_headers(5)] table_unit_walks]
  show ?thesis unfolding f(1) ex_file_headers(5)
    using M by (simp add: zero_region_def need_of_def g)
qed

end
