(* ===== verification/Firmware.thy ===== *)
theory Firmware
  imports Kernel Elf
begin

text \<open>
  Calls into the firmware: \<open>kernel/psci.c\<close> and \<open>kernel/rsi.c\<close>, and the feature registers of
  \<open>kernel/feature.c\<close>. The \<open>smc\<close> instruction is not part of the source: it is a parameter that takes the
  values the code has put into the registers x0, x1, .. and returns x0 and x1, or nothing when the
  call does not return. \<open>mrs\<close> is the value of a feature register.
\<close>

type_synonym smc_call = "u64 list \<Rightarrow> kst \<Rightarrow> (u64 \<times> u64 \<times> kst) option"

subsection \<open>PSCI\<close>

definition PSCI_AFFINITY_INFO :: u64 where "PSCI_AFFINITY_INFO = 0xC4000004"
definition PSCI_CPU_OFF :: u64 where "PSCI_CPU_OFF = 0x84000002"
definition PSCI_CPU_ON :: u64 where "PSCI_CPU_ON = 0xC4000003"
definition PSCI_CPU_SUSPEND :: u64 where "PSCI_CPU_SUSPEND = 0xC4000001"
definition PSCI_FEATURES :: u64 where "PSCI_FEATURES = 0x8400000A"
definition PSCI_SYSTEM_OFF :: u64 where "PSCI_SYSTEM_OFF = 0x84000008"
definition PSCI_SYSTEM_RESET :: u64 where "PSCI_SYSTEM_RESET = 0x84000009"
definition PSCI_VERSION :: u64 where "PSCI_VERSION = 0x84000000"

text \<open>\<open>psci_affinity\<close> assigns x0 twice, first the function and then the affinity level.\<close>

definition psci_affinity :: "smc_call \<Rightarrow> u64 \<Rightarrow> u64 \<Rightarrow> kst \<Rightarrow> (u32 \<times> kst) option" where
  "psci_affinity smc mpid lowest_affinity s = do {
     (fid, _, s) \<leftarrow> smc [lowest_affinity, mpid] s; Some (ucast fid, s) }"

definition psci_power_off :: "smc_call \<Rightarrow> kst \<Rightarrow> kst option" where
  "psci_power_off smc s = do { (_, _, s) \<leftarrow> smc [PSCI_CPU_OFF] s; Some s }"

definition psci_cpu_on :: "smc_call \<Rightarrow> u64 \<Rightarrow> u64 \<Rightarrow> u32 \<Rightarrow> kst \<Rightarrow> (u32 \<times> kst) option" where
  "psci_cpu_on smc cpu pc_address c s = do {
     (fid, _, s) \<leftarrow> smc [PSCI_CPU_ON, cpu, pc_address, ucast c] s; Some (ucast fid, s) }"

definition psci_cpu_suspend :: "smc_call \<Rightarrow> u64 \<Rightarrow> u64 \<Rightarrow> u32 \<Rightarrow> kst \<Rightarrow> kst option" where
  "psci_cpu_suspend smc power_state pc_address c s = do {
     (_, _, s) \<leftarrow> smc [PSCI_CPU_SUSPEND, power_state, pc_address, ucast c] s; Some s }"

definition psci_features :: "smc_call \<Rightarrow> u32 \<Rightarrow> kst \<Rightarrow> (u32 \<times> kst) option" where
  "psci_features smc func_id s = do {
     (fid, _, s) \<leftarrow> smc [PSCI_FEATURES, ucast func_id] s; Some (ucast fid, s) }"

definition psci_system_off :: "smc_call \<Rightarrow> kst \<Rightarrow> kst option" where
  "psci_system_off smc s = do { (_, _, s) \<leftarrow> smc [PSCI_SYSTEM_OFF] s; Some s }"

definition psci_system_reset :: "smc_call \<Rightarrow> kst \<Rightarrow> kst option" where
  "psci_system_reset smc s = do { (_, _, s) \<leftarrow> smc [PSCI_SYSTEM_RESET] s; Some s }"

definition psci_version :: "smc_call \<Rightarrow> kst \<Rightarrow> (u64 \<times> kst) option" where
  "psci_version smc s = do { (fid, _, s) \<leftarrow> smc [PSCI_VERSION] s; Some (fid, s) }"

subsection \<open>RSI\<close>

definition RSI_SUCCESS :: u64 where "RSI_SUCCESS = 0"
definition RSI_ERROR_INPUT :: u64 where "RSI_ERROR_INPUT = 1"
definition RSI_HOST_CALL :: u64 where "RSI_HOST_CALL = 0xC4000199"
definition RSI_IPA_STATE_GET :: u64 where "RSI_IPA_STATE_GET = 0xC4000198"
definition RSI_IPA_STATE_SET :: u64 where "RSI_IPA_STATE_SET = 0xC4000197"
definition RSI_REALM_CONFIG :: u64 where "RSI_REALM_CONFIG = 0xC4000196"
definition RSI_VERSION :: u64 where "RSI_VERSION = 0xC4000190"

definition get_rsi_version :: "smc_call \<Rightarrow> kst \<Rightarrow> (u64 \<times> kst) option" where
  "get_rsi_version smc s = do { (fid, _, s) \<leftarrow> smc [RSI_VERSION] s; Some (fid, s) }"

definition rsi_realm_config :: "smc_call \<Rightarrow> u64 \<Rightarrow> kst \<Rightarrow> (u64 \<times> kst) option" where
  "rsi_realm_config smc addr_frame s =
     (if addr_frame = 0 \<or> addr_frame AND 0xFFFF \<noteq> 0 then Some (RSI_ERROR_INPUT, s)
      else do { (fid, _, s) \<leftarrow> smc [RSI_REALM_CONFIG, addr_frame] s; Some (fid, s) })"

text \<open>
  The assembly of \<open>rsi_get_ipa_state\<close> declares \<open>fid\<close> and \<open>address\<close> as outputs only: the two registers
  it copies to x0 and x1 hold whatever they held before, \<open>r0\<close> and \<open>r1\<close> here.
\<close>

definition rsi_get_ipa_state :: "smc_call \<Rightarrow> u64 \<Rightarrow> u64 \<Rightarrow> u64 \<Rightarrow> kst \<Rightarrow> (c_int \<times> kst) option" where
  "rsi_get_ipa_state smc r0 r1 ipa s = do {
     (fid, address, s) \<leftarrow> smc [r0, r1] s;
     Some (if fid = RSI_SUCCESS then ucast (address AND 0xFF) else -1, s) }"

definition rsi_set_ipa_state :: "smc_call \<Rightarrow> u64 \<Rightarrow> u64 \<Rightarrow> u64 \<Rightarrow> kst \<Rightarrow> (c_int \<times> kst) option" where
  "rsi_set_ipa_state smc ipa sz ripas s = do {
     (fid, _, s) \<leftarrow> smc [RSI_IPA_STATE_SET, ipa, sz, ripas] s;
     Some (if fid \<noteq> RSI_SUCCESS then 0 else 1, s) }"

text \<open>The values of \<open>gprs\<close> in \<open>rsi_host_call\<close>; \<open>pc\<close> is the address of an instruction of it.\<close>

definition host_call_gprs :: "u64 \<Rightarrow> u64 \<Rightarrow> u64 list" where
  "host_call_gprs ipa_val pc =
    [RSI_HOST_CALL, 0xc0ffe, pc, 0x000000e0, 0x000000ef, 0x00000e00, 0x00000Eef, 0x0000B000, 0x0000B00F,
     0x0000B0E0, 0x0000BE00, 0x0000BEe0, 0x0000Beef, 0xD0000000, 0xDE000000, 0xDeA00000, 0xDeaD0000,
     RSI_HOST_CALL, ipa_val, 0x0000000f, 0x000000e0, 0x000000ef, 0x00000e00, 0x00000Eef, 0x0000B000,
     0x0000B00F, 0x0000B0E0, 0x0000BE00, 0x0000BEe0, 0x0000Beef, 0xD0000000]"

definition rsi_host_call :: "smc_call \<Rightarrow> (kst \<Rightarrow> at_unit) \<Rightarrow> u64 \<Rightarrow> u64 \<Rightarrow> kst \<Rightarrow> kst option" where
  "rsi_host_call smc mmu rhc_instance pc s =
     (let ipa_val = get_physical_address (mmu s) rhc_instance;
          m = snd (memset (bytes s) rhc_instance 0 0x1000);
          m = fold (\<lambda>(i, v) m. store64 m (rhc_instance + 8 + 8 * of_nat i) v) (enumerate 0 (host_call_gprs ipa_val pc)) m
      in do { (_, _, s) \<leftarrow> smc [RSI_HOST_CALL, ipa_val] (s\<lparr>bytes := m\<rparr>); Some s })"

subsection \<open>Feature registers\<close>

definition get_cpu_ftr :: "(string \<Rightarrow> u64) \<Rightarrow> string \<Rightarrow> u64" where "get_cpu_ftr mrs i = mrs i"

definition cpu_supports_PAN :: "(string \<Rightarrow> u64) \<Rightarrow> c_int" where
  "cpu_supports_PAN mrs =
     ucast (drop_bit 20 (get_cpu_ftr mrs ''ID_AA64MMFR1_EL1'' AND push_bit 20 0b11))"

definition get_cpu_features :: "(string \<Rightarrow> u64) \<Rightarrow> kst \<Rightarrow> kst" where
  "get_cpu_features mrs s = s\<lparr>ks := (ks s)\<lparr>
     feat_ID_AA64ISAR0_EL1 := get_cpu_ftr mrs ''ID_AA64ISAR0_EL1'',
     feat_ID_AA64ISAR1_EL1 := get_cpu_ftr mrs ''ID_AA64ISAR1_EL1'',
     feat_ID_AA64MMFR0_EL1 := get_cpu_ftr mrs ''ID_AA64MMFR0_EL1'',
     feat_ID_AA64MMFR1_EL1 := get_cpu_ftr mrs ''ID_AA64MMFR1_EL1'',
     feat_ID_AA64PFR0_EL1 := get_cpu_ftr mrs ''ID_AA64PFR0_EL1'',
     feat_ID_AA64PFR1_EL1 := get_cpu_ftr mrs ''ID_AA64PFR1_EL1'',
     feat_ID_AA64DFR0_EL1 := get_cpu_ftr mrs ''ID_AA64DFR0_EL1'',
     feat_ID_AA64DFR1_EL1 := get_cpu_ftr mrs ''ID_AA64DFR1_EL1'',
     feat_MIDR_EL1 := get_cpu_ftr mrs ''MIDR_EL1'',
     feat_MPIDR_EL1 := get_cpu_ftr mrs ''MPIDR_EL1'',
     feat_REVIDR_EL1 := get_cpu_ftr mrs ''REVIDR_EL1''\<rparr>\<rparr>"

end
