(* ===== verification/Reloc.thy ===== *)
theory Reloc
  imports Elf Kernel
begin

text \<open>
  Relocation of the kernel image: \<open>relocate_kernel\<close> and \<open>shift_to_va\<close> of \<open>kernel/start.c\<close>, and
  \<open>get_stack_base\<close> of \<open>stack.c\<close>. Before the MMU is on, the image is relocated to the address \<open>base\<close> it
  was loaded at; the array \<open>global_relocations\<close>, at the address \<open>g\<close>, remembers each place with its value
  in the upper half, and \<open>shift_to_va\<close> stores these values. The addresses of the array, of the stack and
  of the binary are symbols of the linker and so parameters.
\<close>

subsection \<open>The operations\<close>

definition MAX_RELOCATIONS :: nat where "MAX_RELOCATIONS = 272"
definition STACK_SIZE :: u64 where "STACK_SIZE = 0x10000"

definition get_stack_base :: "u64 \<Rightarrow> u64" where "get_stack_base kernel_stack = kernel_stack + STACK_SIZE"

text \<open>The first loop: the address of the first section of relocations, or null.\<close>

definition find_rela_section :: "bytemem \<Rightarrow> u64 \<Rightarrow> u64" where
  "find_rela_section m bas =
     (let h = read_ehdr m bas; sections_table = e_shoff h + bas in
      case List.find (\<lambda>i. sh_type (read_shdr m (sections_table + 64 * of_nat i)) = ELF64_SHT_RELA)
             [0..<unat (e_shnum h)] of
        None \<Rightarrow> 0
      | Some i \<Rightarrow> sections_table + 64 * of_nat i)"

definition applied_type :: "elf64_rela \<Rightarrow> bool" where
  "applied_type r \<longleftrightarrow> ELF64_R_TYPE (r_info r) \<in> {RAARCH64_ABS64, RAARCH64_GLOB_DATA, RAARCH64_JUMP_SLOT}"

text \<open>The second and the last loop; the counter is a 16-bit number, the bound is read on every turn.\<close>

partial_function (option) relocate_loop ::
  "u64 \<Rightarrow> u64 \<Rightarrow> u64 \<Rightarrow> u64 \<Rightarrow> u16 \<Rightarrow> bytemem \<Rightarrow> bytemem option" where
  "relocate_loop bas sect tab symtab i m =
     (if ucast i < sh_size (read_shdr m sect) div sh_entsize (read_shdr m sect) then
        let r = read_rela m (tab + 24 * ucast i);
            m = (if applied_type r
                 then store64 m (bas + r_offset r)
                        (bas + st_value (read_sym m (symtab + 24 * ELF64_R_SYM (r_info r))) + r_addend r)
                 else m)
        in relocate_loop bas sect tab symtab (i + 1) m
      else Some m)"

partial_function (option) record_loop ::
  "u64 \<Rightarrow> u64 \<Rightarrow> u64 \<Rightarrow> u64 \<Rightarrow> u16 \<Rightarrow> bytemem \<Rightarrow> bytemem option" where
  "record_loop bas sect tab g i m =
     (if ucast i < sh_size (read_shdr m sect) div sh_entsize (read_shdr m sect) then
        let m = store64 m (g + 16 * ucast i) (bas + r_offset (read_rela m (tab + 24 * ucast i)));
            m = store64 m (g + 16 * ucast i + 8)
                  (load_le m (bas + r_offset (read_rela m (tab + 24 * ucast i))) 8 - bas + KERNEL_VA_BASE)
        in record_loop bas sect tab g (i + 1) m
      else Some m)"

definition clear_relocations :: "u64 \<Rightarrow> bytemem \<Rightarrow> bytemem" where
  "clear_relocations g m =
     fold (\<lambda>i m. store64 (store64 m (g + 16 * of_nat i) 0) (g + 16 * of_nat i + 8) 0) [0..<MAX_RELOCATIONS] m"

text \<open>Without a section of relocations the code reads through a null pointer: \<open>None\<close>.\<close>

definition relocate_kernel :: "u64 \<Rightarrow> u64 \<Rightarrow> bytemem \<Rightarrow> bytemem option" where
  "relocate_kernel bas g m =
     (let sections_table = e_shoff (read_ehdr m bas) + bas;
          sect = find_rela_section m bas;
          tab = bas + sh_offset (read_shdr m sect);
          symtab = sh_offset (read_shdr m (sections_table + 64 * ucast (sh_link (read_shdr m sect)))) + bas
      in if sect = 0 then None
         else do {
           m \<leftarrow> relocate_loop bas sect tab symtab 0 m;
           record_loop bas sect tab g 0 (clear_relocations g m) })"

fun shift_loop :: "u64 \<Rightarrow> nat \<Rightarrow> nat \<Rightarrow> bytemem \<Rightarrow> bytemem" where
  "shift_loop g i 0 m = m"
| "shift_loop g i (Suc n) m =
     (if load_le m (g + 16 * of_nat i) 8 = 0 then m
      else shift_loop g (Suc i) n
             (store64 m (load_le m (g + 16 * of_nat i) 8) (load_le m (g + 16 * of_nat i + 8) 8)))"

definition shift_to_va :: "u64 \<Rightarrow> u64 \<Rightarrow> u64 \<Rightarrow> bytemem \<Rightarrow> u64 \<times> bytemem" where
  "shift_to_va kernel_stack binary_start g m =
     (KERNEL_VA_BASE + (get_stack_base kernel_stack - (binary_start AND NOT 0x0FFF)),
      shift_loop g 0 MAX_RELOCATIONS m)"

subsection \<open>Stores\<close>

lemma store64_outside: "x \<notin> win p 8 \<Longrightarrow> store64 m p v x = m x"
  by (simp add: store64_def win_def)

lemma store64_load64: "store64 m p (load_le m p 8) = m"
proof
  fix x
  show "store64 m p (load_le m p 8) x = m x"
  proof (cases "unat (x - p) < 8")
    case True
    let ?k = "unat (x - p)"
    have "ucast (drop_bit (8 * ?k) (load_le m p 8)) = m (p + of_nat ?k)"
    proof (rule bit_word_eqI)
      fix n assume n: "n < LENGTH(8)"
      then have "(8 * ?k + n) div 8 = ?k" "(8 * ?k + n) mod 8 = n" by simp_all
      then show "bit (ucast (drop_bit (8 * ?k) (load_le m p 8)) :: u8) n = bit (m (p + of_nat ?k)) n"
        using n True by (simp add: bit_ucast_iff bit_drop_bit_eq load_le_def bit_le_value)
    qed
    then show ?thesis using True by (simp add: store64_def)
  qed (simp add: store64_def)
qed

subsection \<open>Sequences of stores\<close>

definition stores :: "(u64 \<times> u64) list \<Rightarrow> bytemem \<Rightarrow> bytemem" where
  "stores ps m = fold (\<lambda>(a, v) m. store64 m a v) ps m"

lemma stores_simps [simp]:
  "stores [] m = m" "stores ((a, v) # ps) m = stores ps (store64 m a v)"
  "stores (ps @ qs) m = stores qs (stores ps m)"
  by (simp_all add: stores_def)

definition footprint :: "(u64 \<times> u64) list \<Rightarrow> u64 set" where
  "footprint ps = (\<Union>(a, v) \<in> set ps. win a 8)"

lemma stores_outside: "x \<notin> footprint ps \<Longrightarrow> stores ps m x = m x"
proof (induction ps arbitrary: m)
  case (Cons p ps)
  then show ?case by (cases p) (simp add: footprint_def store64_outside)
qed simp

abbreviation separate :: "(u64 \<times> u64) list \<Rightarrow> bool" where
  "separate \<equiv> sorted_wrt (\<lambda>p q. win (fst p) 8 \<inter> win (fst q) 8 = {})"

lemma stores_load:
  "separate ps \<Longrightarrow> (a, v) \<in> set ps \<Longrightarrow> load_le (stores ps m) a 8 = v"
proof (induction ps arbitrary: m)
  case (Cons p ps)
  show ?case
  proof (cases "(a, v) \<in> set ps")
    case True
    then show ?thesis using Cons by (cases p) simp
  next
    case False
    then have p: "p = (a, v)" using Cons.prems(2) by simp
    have "load_le (stores ps (store64 m a v)) a 8 = load_le (store64 m a v) a 8"
      by (rule load_le_win) (use Cons.prems(1) p in \<open>fastforce simp: footprint_def intro!: stores_outside\<close>, simp)
    then show ?thesis by (simp add: p load64_store64)
  qed
qed simp

subsection \<open>The loops as stores\<close>

text \<open>The place of a relocation and its value after the second loop.\<close>

definition rela_slot :: "u64 \<Rightarrow> elf64_rela \<Rightarrow> u64" where
  "rela_slot bas r = bas + r_offset r"

definition rela_value :: "bytemem \<Rightarrow> u64 \<Rightarrow> u64 \<Rightarrow> elf64_rela \<Rightarrow> u64" where
  "rela_value m bas symtab r =
     (if applied_type r then bas + st_value (read_sym m (symtab + 24 * ELF64_R_SYM (r_info r))) + r_addend r
      else load_le m (rela_slot bas r) 8)"

text \<open>The section header, the relocations and the symbols they name, which the loops read.\<close>

definition rela_data :: "bytemem \<Rightarrow> u64 \<Rightarrow> u64 \<Rightarrow> u64 \<Rightarrow> nat \<Rightarrow> u64 set" where
  "rela_data m sect tab symtab n = win sect 64 \<union>
     (\<Union>j < n. win (tab + 24 * of_nat j) 24 \<union>
        win (symtab + 24 * ELF64_R_SYM (r_info (read_rela m (tab + 24 * of_nat j)))) 24)"

abbreviation entry_count :: "elf64_shdr \<Rightarrow> u64" where "entry_count sh \<equiv> sh_size sh div sh_entsize sh"

lemma u16_of_nat: "j < 65536 \<Longrightarrow> (ucast (of_nat j :: u16) :: u64) = of_nat j"
  by (simp add: word_unat_eq_iff unat_of_nat take_bit_nat_eq_self unsigned_ucast_eq)

lemma relocate_loop_stores:
  fixes m :: bytemem and tab :: u64
  defines "rel \<equiv> \<lambda>j. read_rela m (tab + 24 * of_nat j)"
  assumes n: "entry_count (read_shdr m sect) = of_nat n" "n < 65536"
    and data: "\<forall>j < n. win (rela_slot bas (rel j)) 8 \<inter> rela_data m sect tab symtab n = {}"
    and sep: "\<forall>j < n. \<forall>k < n. j \<noteq> k \<longrightarrow> win (rela_slot bas (rel j)) 8 \<inter> win (rela_slot bas (rel k)) 8 = {}"
  shows "relocate_loop bas sect tab symtab 0 m =
           Some (stores (map (\<lambda>j. (rela_slot bas (rel j), rela_value m bas symtab (rel j))) [0..<n]) m)"
proof -
  let ?ps = "\<lambda>i. map (\<lambda>j. (rela_slot bas (rel j), rela_value m bas symtab (rel j))) [0..<i]"
  have "relocate_loop bas sect tab symtab (of_nat i) (stores (?ps i) m) = Some (stores (?ps n) m)" if "i \<le> n" for i
    using that
  proof (induction rule: inc_induct)
    case base
    have "read_shdr (stores (?ps n) m) sect = read_shdr m sect"
    proof (rule read_shdr_win, intro ballI stores_outside)
      fix x assume "x \<in> win sect 64"
      then have "x \<in> rela_data m sect tab symtab n" by (simp add: rela_data_def)
      then show "x \<notin> footprint (?ps n)" using data by (auto simp: footprint_def)
    qed
    then show ?case using n by (subst relocate_loop.simps) (simp add: u16_of_nat)
  next
    case (step i)
    let ?m = "stores (?ps i) m"
    have out: "x \<in> rela_data m sect tab symtab n \<or> x \<in> win (rela_slot bas (rel i)) 8 \<Longrightarrow> ?m x = m x" for x
    proof (rule stores_outside)
      assume x: "x \<in> rela_data m sect tab symtab n \<or> x \<in> win (rela_slot bas (rel i)) 8"
      have "x \<notin> win (rela_slot bas (rel j)) 8" if "j < i" for j
      proof -
        have "j < n" "j \<noteq> i" using that step(2) by simp_all
        then have "win (rela_slot bas (rel j)) 8 \<inter> rela_data m sect tab symtab n = {}"
          "win (rela_slot bas (rel j)) 8 \<inter> win (rela_slot bas (rel i)) 8 = {}"
          using data sep step(2) by simp_all
        then show ?thesis using x by blast
      qed
      then show "x \<notin> footprint (?ps i)" by (auto simp: footprint_def)
    qed
    have sh: "read_shdr ?m sect = read_shdr m sect"
      by (rule read_shdr_win) (use out in \<open>auto simp: rela_data_def\<close>)
    have "read_rela ?m (tab + 24 * of_nat i) = read_rela m (tab + 24 * of_nat i)"
      by (rule read_rela_win) (use out step(2) in \<open>auto simp: rela_data_def\<close>)
    then have r: "read_rela ?m (tab + 24 * of_nat i) = rel i" by (simp add: rel_def)
    have y: "read_sym ?m (symtab + 24 * ELF64_R_SYM (r_info (rel i))) =
        read_sym m (symtab + 24 * ELF64_R_SYM (r_info (rel i)))"
      by (rule read_sym_win) (use out step(2) in \<open>auto simp: rela_data_def rel_def\<close>)
    have l: "load_le ?m (rela_slot bas (rel i)) 8 = load_le m (rela_slot bas (rel i)) 8"
      by (rule load_le_win) (use out in auto)
    have nxt: "(if applied_type (rel i) then store64 ?m (bas + r_offset (rel i))
           (bas + st_value (read_sym ?m (symtab + 24 * ELF64_R_SYM (r_info (rel i)))) + r_addend (rel i)) else ?m) =
         stores (?ps (Suc i)) m"
      using y store64_load64 [of ?m "rela_slot bas (rel i)"] l
      by (simp add: rela_value_def rela_slot_def)
    have lt: "(of_nat i :: u64) < of_nat n" "i < 65536"
      using step(2) n by (simp_all add: word_less_nat_alt unat_of_nat_u64)
    have "relocate_loop bas sect tab symtab (of_nat i) ?m =
        relocate_loop bas sect tab symtab (of_nat (Suc i)) (stores (?ps (Suc i)) m)"
      by (subst relocate_loop.simps) (simp only: Let_def sh n u16_of_nat [OF lt(2)] lt if_True r nxt, simp add: add.commute)
    then show ?case using step by simp
  qed
  from this [of 0] show ?thesis by simp
qed

text \<open>The array \<open>global_relocations\<close> holding the first \<open>n\<close> pairs of \<open>f\<close>.\<close>

definition table_stores :: "u64 \<Rightarrow> (nat \<Rightarrow> u64 \<times> u64) \<Rightarrow> nat \<Rightarrow> (u64 \<times> u64) list" where
  "table_stores g f n =
     map (\<lambda>k. (g + 8 * of_nat k, if even k then fst (f (k div 2)) else snd (f (k div 2)))) [0..<2 * n]"

abbreviation table_area :: "u64 \<Rightarrow> u64 set" where "table_area g \<equiv> win g 4352"

lemma table_stores_Suc:
  "table_stores g f (Suc n) = table_stores g f n @ [(g + 16 * of_nat n, fst (f n)), (g + 16 * of_nat n + 8, snd (f n))]"
  by (simp add: table_stores_def algebra_simps)

lemma win_word:
  assumes "k < 544"
  shows "x \<in> win (g + 8 * of_nat k) 8 \<longleftrightarrow> unat (x - g) div 8 = k"
proof -
  have "x \<in> win (g + 8 * of_nat k) 8 \<longleftrightarrow> unat (x - (g + of_nat (8 * k))) < 8" by (simp add: win_def)
  also have "\<dots> \<longleftrightarrow> 8 * k \<le> unat (x - g) \<and> unat (x - g) < 8 * k + 8" using assms by (intro window) simp
  finally show ?thesis by linarith
qed

lemma table_area_part: "k < 544 \<Longrightarrow> win (g + 8 * of_nat k) 8 \<subseteq> table_area g"
proof
  fix x assume "k < 544" "x \<in> win (g + 8 * of_nat k) 8"
  then have "unat (x - g) div 8 < 544" by (simp add: win_word)
  then show "x \<in> table_area g" by (simp add: win_def div_less_iff_less_mult)
qed

lemma table_footprint: "n \<le> 272 \<Longrightarrow> footprint (table_stores g f n) \<subseteq> table_area g"
proof
  fix x assume n: "n \<le> 272" and "x \<in> footprint (table_stores g f n)"
  then obtain k where "k < 2 * n" "x \<in> win (g + 8 * of_nat k) 8"
    by (auto simp: footprint_def table_stores_def)
  then show "x \<in> table_area g" using table_area_part [of k g] n by auto
qed

lemma table_separate: "n \<le> 272 \<Longrightarrow> separate (table_stores g f n)"
  by (auto simp: table_stores_def sorted_wrt_iff_nth_less win_word)

lemma table_load:
  assumes "j < n" "n \<le> 272"
  shows "load_le (stores (table_stores g f n) m) (g + 16 * of_nat j) 8 = fst (f j)"
    "load_le (stores (table_stores g f n) m) (g + 16 * of_nat j + 8) 8 = snd (f j)"
proof -
  have "(g + 8 * of_nat (2 * j), fst (f j)) \<in> set (table_stores g f n)"
    unfolding table_stores_def set_map set_upt using assms(1) by (intro image_eqI [of _ _ "2 * j"]) auto
  then show "load_le (stores (table_stores g f n) m) (g + 16 * of_nat j) 8 = fst (f j)"
    using stores_load [OF table_separate [OF assms(2)]] by (simp add: algebra_simps)
  have "(g + 8 * of_nat (2 * j + 1), snd (f j)) \<in> set (table_stores g f n)"
    unfolding table_stores_def set_map set_upt using assms(1) by (intro image_eqI [of _ _ "2 * j + 1"]) auto
  then show "load_le (stores (table_stores g f n) m) (g + 16 * of_nat j + 8) 8 = snd (f j)"
    using stores_load [OF table_separate [OF assms(2)]] by (simp add: algebra_simps)
qed

lemma table_load_behind:
  assumes "n < 272"
  shows "load_le (stores (table_stores g f n) m) (g + 16 * of_nat n) 8 = load_le m (g + 16 * of_nat n) 8"
proof (rule load_le_win)
  show "\<forall>x \<in> win (g + 16 * of_nat n) 8. stores (table_stores g f n) m x = m x"
  proof (intro ballI stores_outside)
    fix x assume "x \<in> win (g + 16 * of_nat n) 8"
    then have "unat (x - g) div 8 = 2 * n" using assms win_word [of "2 * n" x g] by simp
    then show "x \<notin> footprint (table_stores g f n)"
      using assms by (auto simp: footprint_def table_stores_def win_word)
  qed
qed simp

lemma table_stores_cong: "(\<And>j. j < n \<Longrightarrow> f j = f' j) \<Longrightarrow> table_stores g f n = table_stores g f' n"
  unfolding table_stores_def by (rule map_cong) auto

lemma clear_relocations_stores: "clear_relocations g m = stores (table_stores g (\<lambda>_. (0, 0)) 272) m"
proof -
  have "fold (\<lambda>i m. store64 (store64 m (g + 16 * of_nat i) 0) (g + 16 * of_nat i + 8) 0) [0..<n] m =
      stores (table_stores g (\<lambda>_. (0, 0)) n) m" for n
    by (induction n) (simp_all add: table_stores_Suc, simp add: table_stores_def)
  then show ?thesis by (simp add: clear_relocations_def MAX_RELOCATIONS_def)
qed

lemma record_loop_stores:
  fixes m :: bytemem and tab :: u64
  defines "rel \<equiv> \<lambda>j. read_rela m (tab + 24 * of_nat j)"
  assumes n: "entry_count (read_shdr m sect) = of_nat n" "n \<le> 272"
    and data: "win sect 64 \<inter> table_area g = {}" "\<forall>j < n. win (tab + 24 * of_nat j) 24 \<inter> table_area g = {}"
      "\<forall>j < n. win (rela_slot bas (rel j)) 8 \<inter> table_area g = {}"
  shows "record_loop bas sect tab g 0 m = Some (stores (table_stores g
           (\<lambda>j. (rela_slot bas (rel j), load_le m (rela_slot bas (rel j)) 8 - bas + KERNEL_VA_BASE)) n) m)"
proof -
  let ?f = "\<lambda>j. (rela_slot bas (rel j), load_le m (rela_slot bas (rel j)) 8 - bas + KERNEL_VA_BASE)"
  have "record_loop bas sect tab g (of_nat i) (stores (table_stores g ?f i) m) =
      Some (stores (table_stores g ?f n) m)" if "i \<le> n" for i
    using that
  proof (induction rule: inc_induct)
    case base
    have "read_shdr (stores (table_stores g ?f n) m) sect = read_shdr m sect"
      using table_footprint [OF n(2)] data(1) by (intro read_shdr_win ballI stores_outside) blast
    then show ?case using n by (subst record_loop.simps) (simp add: u16_of_nat)
  next
    case (step i)
    let ?m = "stores (table_stores g ?f i) m"
    have i: "i \<le> 272" "i < 272" using step(2) n(2) by simp_all
    have out: "A \<inter> table_area g = {} \<Longrightarrow> \<forall>x \<in> A. ?m x = m x" for A
      using table_footprint [OF i(1), of g ?f] by (intro ballI stores_outside) blast
    have sh: "read_shdr ?m sect = read_shdr m sect" by (rule read_shdr_win [OF out [OF data(1)]])
    have "read_rela ?m (tab + 24 * of_nat i) = read_rela m (tab + 24 * of_nat i)"
      by (rule read_rela_win [OF out]) (use data(2) step(2) in simp)
    then have r: "read_rela ?m (tab + 24 * of_nat i) = rel i" by (simp add: rel_def)
    have r': "read_rela (store64 ?m (g + 16 * of_nat i) v) (tab + 24 * of_nat i) = rel i" for v
    proof -
      have "win (g + 16 * of_nat i) 8 \<subseteq> table_area g" using table_area_part [of "2 * i" g] i by simp
      then have "read_rela (store64 ?m (g + 16 * of_nat i) v) (tab + 24 * of_nat i) = read_rela ?m (tab + 24 * of_nat i)"
        using data(2) step(2) by (intro read_rela_win ballI store64_outside) blast
      then show ?thesis by (simp add: r)
    qed
    have l: "load_le (store64 ?m (g + 16 * of_nat i) v) (rela_slot bas (rel i)) 8 = load_le m (rela_slot bas (rel i)) 8" for v
    proof (rule load_le_win)
      have "win (g + 16 * of_nat i) 8 \<subseteq> table_area g" using table_area_part [of "2 * i" g] i by simp
      moreover have d: "win (rela_slot bas (rel i)) 8 \<inter> table_area g = {}" using data(3) step(2) by simp
      ultimately have "x \<in> win (rela_slot bas (rel i)) 8 \<Longrightarrow> x \<notin> win (g + 16 * of_nat i) 8" for x by blast
      then show "\<forall>x \<in> win (rela_slot bas (rel i)) 8. store64 ?m (g + 16 * of_nat i) v x = m x"
        using out [OF d] by (simp add: store64_outside)
    qed simp
    have lt: "(of_nat i :: u64) < of_nat n" "i < 65536"
      using step(2) n by (simp_all add: word_less_nat_alt unat_of_nat_u64)
    have nxt: "store64 (store64 ?m (g + 16 * of_nat i) (bas + r_offset (rel i))) (g + 16 * of_nat i + 8)
        (load_le (store64 ?m (g + 16 * of_nat i) (bas + r_offset (rel i))) (bas + r_offset (rel i)) 8 - bas + KERNEL_VA_BASE) =
        stores (table_stores g ?f (Suc i)) m"
      using l [of "bas + r_offset (rel i)"]
      by (simp only: table_stores_Suc stores_simps fst_conv snd_conv rela_slot_def)
    have suc: "(of_nat i + 1 :: u16) = of_nat (Suc i)" by simp
    have "record_loop bas sect tab g (of_nat i) ?m =
        record_loop bas sect tab g (of_nat (Suc i)) (stores (table_stores g ?f (Suc i)) m)"
      by (subst record_loop.simps) (simp only: Let_def sh n u16_of_nat [OF lt(2)] lt if_True r r' nxt suc)
    then show ?case using step by simp
  qed
  from this [of 0] show ?thesis by (simp add: table_stores_def)
qed

lemma shift_loop_stores:
  fixes m :: bytemem
  assumes tabl: "\<forall>j < n. load_le m (g + 16 * of_nat j) 8 = a j \<and> load_le m (g + 16 * of_nat j + 8) 8 = v j \<and> a j \<noteq> 0"
    and stop: "n < 272 \<longrightarrow> load_le m (g + 16 * of_nat n) 8 = 0" and n: "n \<le> 272"
    and apart: "\<forall>j < n. win (a j) 8 \<inter> table_area g = {}"
  shows "shift_loop g 0 272 m = stores (map (\<lambda>j. (a j, v j)) [0..<n]) m"
proof -
  let ?ps = "\<lambda>i. map (\<lambda>j. (a j, v j)) [0..<i]"
  have keep: "load_le (stores (?ps i) m) p 8 = load_le m p 8" if "i \<le> n" "win p 8 \<subseteq> table_area g" for i p
  proof (rule load_le_win)
    show "\<forall>x \<in> win p 8. stores (?ps i) m x = m x"
    proof (intro ballI stores_outside)
      fix x assume "x \<in> win p 8"
      then have "x \<notin> win (a j) 8" if "j < i" for j
        using apart \<open>win p 8 \<subseteq> table_area g\<close> \<open>i \<le> n\<close> that by (meson disjoint_iff order_less_le_trans subsetD)
      then show "x \<notin> footprint (?ps i)" by (auto simp: footprint_def)
    qed
  qed simp
  have area: "win (g + 16 * of_nat i) 8 \<subseteq> table_area g" "win (g + 16 * of_nat i + 8) 8 \<subseteq> table_area g" if "i < 272" for i
    using table_area_part [of "2 * i" g] table_area_part [of "2 * i + 1" g] that by (simp_all add: algebra_simps)
  have "shift_loop g i (272 - i) (stores (?ps i) m) = stores (?ps n) m" if "i \<le> n" for i
    using that
  proof (induction rule: inc_induct)
    case base
    show ?case
    proof (cases "n < 272")
      case True
      then have "272 - n = Suc (271 - n)" by simp
      then show ?thesis using stop True keep [OF order_refl area(1) [OF True]] by simp
    next
      case False
      then show ?thesis using n by simp
    qed
  next
    case (step i)
    then have i: "i < 272" and e: "272 - i = Suc (272 - Suc i)" using n by simp_all
    have "load_le (stores (?ps i) m) (g + 16 * of_nat i) 8 = a i" "load_le (stores (?ps i) m) (g + 16 * of_nat i + 8) 8 = v i"
      "a i \<noteq> 0"
      using keep [of i] area [OF i] tabl step(2) by simp_all
    then show ?case using step(3) unfolding e by simp
  qed
  from this [of 0] show ?thesis by simp
qed

subsection \<open>The kernel in the upper half\<close>

text \<open>The relocations of the image: each place with the value it is to have when the MMU is on.\<close>

definition image_relas :: "bytemem \<Rightarrow> u64 \<Rightarrow> elf64_rela list" where
  "image_relas m bas =
     (let sect = read_shdr m (find_rela_section m bas) in
      map (\<lambda>j. read_rela m (bas + sh_offset sect + 24 * of_nat j)) [0..<unat (entry_count sect)])"

definition image_symtab :: "bytemem \<Rightarrow> u64 \<Rightarrow> u64" where
  "image_symtab m bas =
     sh_offset (read_shdr m (e_shoff (read_ehdr m bas) + bas +
       64 * ucast (sh_link (read_shdr m (find_rela_section m bas))))) + bas"

definition image_data :: "bytemem \<Rightarrow> u64 \<Rightarrow> u64 set" where
  "image_data m bas =
     (let sect = read_shdr m (find_rela_section m bas) in
      rela_data m (find_rela_section m bas) (bas + sh_offset sect) (image_symtab m bas) (unat (entry_count sect)))"

definition upper_value :: "bytemem \<Rightarrow> u64 \<Rightarrow> elf64_rela \<Rightarrow> u64" where
  "upper_value m bas r =
     (if applied_type r
      then st_value (read_sym m (image_symtab m bas + 24 * ELF64_R_SYM (r_info r))) + r_addend r
      else load_le m (rela_slot bas r) 8 - bas) + KERNEL_VA_BASE"

lemma relocation_memory:
  assumes "find_rela_section m bas \<noteq> 0" and n: "length (image_relas m bas) \<le> MAX_RELOCATIONS"
    and slots: "\<forall>r \<in> set (image_relas m bas). rela_slot bas r \<noteq> 0 \<and>
        win (rela_slot bas r) 8 \<inter> (image_data m bas \<union> table_area g) = {}"
    and sep: "sorted_wrt (\<lambda>r r'. win (rela_slot bas r) 8 \<inter> win (rela_slot bas r') 8 = {}) (image_relas m bas)"
    and data: "image_data m bas \<inter> table_area g = {}"
  shows "\<exists>m1 m2. relocate_kernel bas g m = Some m1 \<and> shift_loop g 0 MAX_RELOCATIONS m1 = m2 \<and>
           (\<forall>r \<in> set (image_relas m bas). load_le m2 (rela_slot bas r) 8 = upper_value m bas r) \<and>
           (\<forall>x. x \<notin> table_area g \<union> (\<Union>r \<in> set (image_relas m bas). win (rela_slot bas r) 8) \<longrightarrow> m2 x = m x)"
proof -
  define sect tab symtab where "sect = find_rela_section m bas" and "tab = bas + sh_offset (read_shdr m sect)"
    and "symtab = image_symtab m bas"
  define N where "N = unat (entry_count (read_shdr m sect))"
  define rel where "rel = (\<lambda>j. read_rela m (tab + 24 * of_nat j))"
  have relas: "image_relas m bas = map rel [0..<N]"
    by (simp add: image_relas_def N_def rel_def tab_def sect_def Let_def)
  have D: "image_data m bas = rela_data m sect tab symtab N"
    by (simp add: image_data_def N_def tab_def sect_def symtab_def Let_def)
  have cnt: "entry_count (read_shdr m sect) = of_nat N" by (simp add: N_def)
  have N: "N \<le> 272" using n by (simp add: relas MAX_RELOCATIONS_def)
  have sl: "rela_slot bas (rel j) \<noteq> 0" "win (rela_slot bas (rel j)) 8 \<inter> rela_data m sect tab symtab N = {}"
    "win (rela_slot bas (rel j)) 8 \<inter> table_area g = {}" if "j < N" for j
    using slots that unfolding D relas by auto
  have "win (rela_slot bas (rel j)) 8 \<inter> win (rela_slot bas (rel k)) 8 = {}" if "j < k" "k < N" for j k
    using sep that unfolding relas by (simp add: sorted_wrt_map sorted_wrt_iff_nth_less)
  then have sp: "\<forall>j < N. \<forall>k < N. j \<noteq> k \<longrightarrow> win (rela_slot bas (rel j)) 8 \<inter> win (rela_slot bas (rel k)) 8 = {}"
    by (metis Int_commute nat_neq_iff)
  let ?ps = "map (\<lambda>j. (rela_slot bas (rel j), rela_value m bas symtab (rel j))) [0..<N]"
  define mr where "mr = stores ?ps m"
  have R: "relocate_loop bas sect tab symtab 0 m = Some mr"
    unfolding mr_def rel_def
    by (rule relocate_loop_stores [OF cnt]) (use N sl sp in \<open>simp_all add: rel_def\<close>)
  define mc where "mc = clear_relocations g mr"
  have tf: "x \<notin> table_area g \<Longrightarrow> mc x = mr x" for x
    unfolding mc_def clear_relocations_stores
    using table_footprint [of 272 g "\<lambda>_. (0, 0)"] by (intro stores_outside) auto
  have dat: "x \<in> rela_data m sect tab symtab N \<Longrightarrow> mc x = m x" for x
  proof -
    assume x: "x \<in> rela_data m sect tab symtab N"
    then have "mc x = mr x" using data unfolding D by (intro tf) blast
    also have "\<dots> = m x" unfolding mr_def
      by (rule stores_outside) (use x sl(2) in \<open>auto simp: footprint_def disjoint_iff\<close>)
    finally show ?thesis .
  qed
  have sh: "read_shdr mc sect = read_shdr m sect" by (rule read_shdr_win) (simp add: dat rela_data_def)
  have rl: "read_rela mc (tab + 24 * of_nat j) = rel j" if "j < N" for j
  proof -
    have "read_rela mc (tab + 24 * of_nat j) = read_rela m (tab + 24 * of_nat j)"
      by (rule read_rela_win) (use that in \<open>auto intro!: dat simp: rela_data_def\<close>)
    then show ?thesis by (simp add: rel_def)
  qed
  have val: "load_le mc (rela_slot bas (rel j)) 8 = rela_value m bas symtab (rel j)" if "j < N" for j
  proof -
    have "load_le mc (rela_slot bas (rel j)) 8 = load_le mr (rela_slot bas (rel j)) 8"
      by (rule load_le_win) (use sl(3) [OF that] in \<open>auto intro!: tf\<close>)
    moreover have sepps: "separate ?ps" using sp by (simp add: sorted_wrt_map sorted_wrt_iff_nth_less)
    moreover have "load_le mr (rela_slot bas (rel j)) 8 = rela_value m bas symtab (rel j)"
      unfolding mr_def by (rule stores_load [OF sepps]) (use that in auto)
    ultimately show ?thesis by simp
  qed
  define f where "f = (\<lambda>j. (rela_slot bas (rel j), rela_value m bas symtab (rel j) - bas + KERNEL_VA_BASE))"
  define m1 where "m1 = stores (table_stores g f N) mc"
  have "record_loop bas sect tab g 0 mc = Some (stores (table_stores g
      (\<lambda>j. (rela_slot bas (read_rela mc (tab + 24 * of_nat j)),
            load_le mc (rela_slot bas (read_rela mc (tab + 24 * of_nat j))) 8 - bas + KERNEL_VA_BASE)) N) mc)"
  proof (rule record_loop_stores)
    show "entry_count (read_shdr mc sect) = of_nat N" by (simp add: sh cnt)
    show "win sect 64 \<inter> table_area g = {}" "\<forall>j < N. win (tab + 24 * of_nat j) 24 \<inter> table_area g = {}"
      using data unfolding D by (auto simp: rela_data_def)
  qed (use N sl(3) rl in auto)
  also have "\<dots> = Some m1" unfolding m1_def
    by (intro arg_cong [of _ _ "\<lambda>ps. Some (stores ps mc)"] table_stores_cong) (simp add: rl val f_def)
  finally have M1: "relocate_kernel bas g m = Some m1"
    using assms(1) R unfolding mc_def
    by (simp add: relocate_kernel_def Let_def sect_def tab_def symtab_def image_symtab_def)
  have "\<forall>j < N. load_le m1 (g + 16 * of_nat j) 8 = rela_slot bas (rel j) \<and>
      load_le m1 (g + 16 * of_nat j + 8) 8 = snd (f j) \<and> rela_slot bas (rel j) \<noteq> 0"
    unfolding m1_def using table_load [of _ N g f mc] N sl(1) by (simp add: f_def)
  moreover have "load_le m1 (g + 16 * of_nat N) 8 = 0" if "N < 272"
    unfolding m1_def mc_def clear_relocations_stores
    using table_load_behind [OF that, of g f] table_load(1) [OF that, of g "\<lambda>_. (0, 0)"] by simp
  ultimately have S: "shift_loop g 0 272 m1 = stores (map (\<lambda>j. (rela_slot bas (rel j), snd (f j))) [0..<N]) m1"
    using N sl(3) by (intro shift_loop_stores) auto
  let ?qs = "map (\<lambda>j. (rela_slot bas (rel j), snd (f j))) [0..<N]"
  have "separate ?qs" using sp by (simp add: sorted_wrt_map sorted_wrt_iff_nth_less)
  then have "load_le (stores ?qs m1) (rela_slot bas (rel j)) 8 = snd (f j)" if "j < N" for j
    using that by (intro stores_load) auto
  moreover have "snd (f j) = upper_value m bas (rel j)" for j
    by (simp add: f_def upper_value_def rela_value_def symtab_def)
  moreover have "stores ?qs m1 x = m x"
    if "x \<notin> table_area g \<union> (\<Union>r \<in> set (image_relas m bas). win (rela_slot bas r) 8)" for x
  proof -
    have x: "x \<notin> footprint ?qs" "x \<notin> footprint ?ps" "x \<notin> table_area g"
      using that by (auto simp: footprint_def relas)
    then have "x \<notin> footprint (table_stores g f N)" using table_footprint [OF N] by blast
    then show ?thesis using x tf [of x] by (simp add: stores_outside m1_def mr_def)
  qed
  ultimately show ?thesis using M1 S by (auto simp: MAX_RELOCATIONS_def relas)
qed

text \<open>C4. The two steps of the boot together put the image into the upper half: when the places of the
  relocations are separate, lie outside of the relocation data and of the array, and are at most 272,
  every place ends up with the address of its symbol relative to \<open>KERNEL_VA_BASE\<close> (a place whose type
  the code does not apply is still moved from \<open>base\<close> to the upper half), nothing else but the array is
  written, and the new stack lies as far above \<open>KERNEL_VA_BASE\<close> as the old one above the binary.\<close>

theorem relocation_to_upper_half:
  assumes "find_rela_section m bas \<noteq> 0" and "length (image_relas m bas) \<le> MAX_RELOCATIONS"
    and "\<forall>r \<in> set (image_relas m bas). rela_slot bas r \<noteq> 0 \<and>
        win (rela_slot bas r) 8 \<inter> (image_data m bas \<union> table_area g) = {}"
    and "sorted_wrt (\<lambda>r r'. win (rela_slot bas r) 8 \<inter> win (rela_slot bas r') 8 = {}) (image_relas m bas)"
    and "image_data m bas \<inter> table_area g = {}"
  shows "\<exists>m1. relocate_kernel bas g m = Some m1 \<and>
           fst (shift_to_va stack bin g m1) = KERNEL_VA_BASE + (stack + 0x10000 - (bin AND NOT 0xFFF)) \<and>
           (\<forall>r \<in> set (image_relas m bas).
              load_le (snd (shift_to_va stack bin g m1)) (rela_slot bas r) 8 = upper_value m bas r) \<and>
           (\<forall>x. x \<notin> table_area g \<union> (\<Union>r \<in> set (image_relas m bas). win (rela_slot bas r) 8) \<longrightarrow>
              snd (shift_to_va stack bin g m1) x = m x)"
  using relocation_memory [OF assms]
  by (auto simp: shift_to_va_def get_stack_base_def STACK_SIZE_def)

text \<open>An image at \<open>0x10000\<close> with one relocation, of the place \<open>0x10500\<close> to a symbol at \<open>0x600\<close>.\<close>

definition ex_image :: bytemem where
  "ex_image = (\<lambda>_. 0)(0x10029 := 1, 0x1003c := 2, 0x10119 := 4, 0x10144 := 4, 0x10159 := 3, 0x10160 := 24,
     0x10178 := 24, 0x10301 := 5, 0x10308 := 1, 0x10309 := 4, 0x10310 := 0x10, 0x10409 := 6)"

lemma ex_image_section: "find_rela_section ex_image 0x10000 = 0x10140"
  by (simp add: find_rela_section_def read_ehdr_def read_shdr_def field_at_def layouts load_le_def upt_rec
      ex_image_def ELF64_SHT_RELA_def Let_def)

lemma ex_image_shdr:
  "sh_offset (read_shdr ex_image 0x10140) = 0x300" "sh_size (read_shdr ex_image 0x10140) = 24"
  "sh_entsize (read_shdr ex_image 0x10140) = 24" "sh_link (read_shdr ex_image 0x10140) = 0"
  by (simp_all add: read_shdr_def field_at_def layouts load_le_def upt_rec ex_image_def Let_def)

lemma ex_image_rela:
  "r_offset (read_rela ex_image 0x10300) = 0x500" "r_info (read_rela ex_image 0x10300) = 0x401"
  by (simp_all add: read_rela_def field_at_def layouts load_le_def upt_rec ex_image_def Let_def)

lemma ex_image_symtab: "image_symtab ex_image 0x10000 = 0x10400"
  by (simp add: image_symtab_def ex_image_section ex_image_shdr)
    (simp add: read_ehdr_def read_shdr_def field_at_def layouts load_le_def upt_rec ex_image_def Let_def)

theorem relocation_to_upper_half_witness:
  "\<exists>m1. relocate_kernel 0x10000 0x20000 ex_image = Some m1 \<and>
     fst (shift_to_va 0x30000 0x10000 0x20000 m1) = KERNEL_VA_BASE + (0x30000 + 0x10000 - (0x10000 AND NOT 0xFFF)) \<and>
     (\<forall>r \<in> set (image_relas ex_image 0x10000).
        load_le (snd (shift_to_va 0x30000 0x10000 0x20000 m1)) (rela_slot 0x10000 r) 8 = upper_value ex_image 0x10000 r) \<and>
     (\<forall>x. x \<notin> table_area 0x20000 \<union> (\<Union>r \<in> set (image_relas ex_image 0x10000). win (rela_slot 0x10000 r) 8) \<longrightarrow>
        snd (shift_to_va 0x30000 0x10000 0x20000 m1) x = ex_image x)"
proof (rule relocation_to_upper_half)
  have r: "image_relas ex_image 0x10000 = [read_rela ex_image 0x10300]"
    by (simp add: image_relas_def ex_image_section ex_image_shdr)
  have d: "image_data ex_image 0x10000 = win 0x10140 64 \<union> win 0x10300 24 \<union> win 0x10400 24"
    by (simp add: image_data_def ex_image_section ex_image_shdr ex_image_symtab rela_data_def lessThan_Suc
        ex_image_rela ELF64_R_SYM_def Un_assoc)
  show "\<forall>r \<in> set (image_relas ex_image 0x10000). rela_slot 0x10000 r \<noteq> 0 \<and>
        win (rela_slot 0x10000 r) 8 \<inter> (image_data ex_image 0x10000 \<union> table_area 0x20000) = {}"
    by (simp add: r d rela_slot_def ex_image_rela Int_Un_distrib win_disjoint)
  show "image_data ex_image 0x10000 \<inter> table_area 0x20000 = {}"
    by (simp add: d Int_Un_distrib2 win_disjoint)
qed (simp_all add: ex_image_section image_relas_def ex_image_shdr MAX_RELOCATIONS_def)

end
