(* ===== verification/Boot.thy ===== *)
theory Boot
  imports Exec Firmware Reloc
begin

text \<open>
  Start-up of the kernel: \<open>kernel/main.c\<close>. The addresses of the linker's symbols are parameters
  (\<open>linker_symbols\<close>); before the MMU is on they are physical addresses, afterwards they lie in the
  upper half (\<open>relocation_to_upper_half\<close>), so each function takes its own. Barriers and the write of the
  floating point trap register, which no code reads, leave no trace but \<open>sysreg\<close>.
\<close>

record linker_symbols =
  TEXT_START :: u64
  TEXT_END :: u64
  RO_START :: u64
  RO_END :: u64
  DATA_START :: u64
  DATA_END :: u64
  BSS_START :: u64
  BSS_END :: u64
  PAGE_TABLE_START :: u64
  PAGE_TABLE_END :: u64
  BITMAP_NS_START :: u64
  BITMAP_NS_END :: u64
  BITMAP_START :: u64
  BITMAP_END :: u64
  SHARED_NS_MEMORY_START :: u64
  SHARED_NS_MEMORY_END :: u64
  binary_start :: u64
  binary_end :: u64
  ram_end :: u64

definition get_new_address :: "u64 \<Rightarrow> u64" where
  "get_new_address address = (address - KERNEL_PA_BASE) + KERNEL_VA_BASE"

text \<open>The bit fields of \<open>SCTLR_EL1_t\<close> that \<open>enable_mmu\<close> assigns.\<close>

definition sctlr_boot :: u64 where
  "sctlr_boot =
     (let r = 0xC008000;
          r = set_field 12 1 0 r;
          r = set_field 6 1 1 r;
          r = set_field 5 1 1 r;
          r = set_field 4 1 1 r;
          r = set_field 2 1 0 r;
          r = set_field 1 1 0 r
      in set_field 0 1 0 r)"

definition enable_mmu :: "kst \<Rightarrow> kst" where
  "enable_mmu s = s\<lparr>sysreg := (sysreg s)(''sctlr_el1'' := sctlr_boot)\<rparr>"

definition enable_exception_vectors :: "u64 \<Rightarrow> kst \<Rightarrow> kst" where
  "enable_exception_vectors vector_table s = s\<lparr>sysreg := (sysreg s)(''vbar_el1'' := vector_table)\<rparr>"

subsection \<open>The regions of the kernel\<close>

definition init_mem_region :: "u64 \<Rightarrow> u64 \<Rightarrow> u64 \<Rightarrow> c_int \<Rightarrow> c_int \<Rightarrow> kst \<Rightarrow> kst" where
  "init_mem_region region va sz prm secure s =
     upd_region region (\<lambda>r. r\<lparr>va_base := va, va_size := sz, perm := prm,
       is_secure := (if secure \<noteq> 0 then 1 else is_secure r)\<rparr>) s"

definition vma_regions :: "linker_symbols \<Rightarrow> (u64 \<times> u64 \<times> c_int \<times> c_int) list" where
  "vma_regions y =
    [(TEXT_START y, TEXT_END y, PROT_X, 1), (RO_START y, RO_END y, PROT_R, 1),
     (DATA_START y, DATA_END y, PROT_RW, 1), (BSS_START y, BSS_END y, PROT_RW, 1),
     (PAGE_TABLE_START y, PAGE_TABLE_END y, PROT_RW, 1), (BITMAP_NS_START y, BITMAP_NS_END y, PROT_RW, 1),
     (BITMAP_START y, BITMAP_END y, PROT_RW, 1),
     (SHARED_NS_MEMORY_START y, SHARED_NS_MEMORY_END y, PROT_RW, 0)]"

text \<open>One region: allocated, described and inserted; the results are its address and the new head.\<close>

definition add_region ::
  "machine \<Rightarrow> u64 \<Rightarrow> u64 \<Rightarrow> c_int \<Rightarrow> c_int \<Rightarrow> u64 \<Rightarrow> kst \<Rightarrow> (u64 \<times> u64 \<times> kst) option" where
  "add_region env va sz prm secure head s = do {
     (tmp, s) \<leftarrow> kcalloc sizeof_mem_region 1 s;
     s \<leftarrow> (if tmp = 0 then crash env s else Some s);
     if tmp = 0 then None
     else
       let s = upd_region tmp (\<lambda>_. zero_region) s;
           s = init_mem_region tmp va sz prm secure s
       in do {
         (_, head, rg) \<leftarrow> mmap_region_insert head tmp (regions s);
         Some (tmp, head, s\<lparr>regions := rg\<rparr>) } }"

fun add_regions ::
  "machine \<Rightarrow> u64 \<Rightarrow> (u64 \<times> u64 \<times> c_int \<times> c_int) list \<Rightarrow> u64 \<Rightarrow> kst \<Rightarrow> (u64 \<times> kst) option" where
  "add_regions env bas [] head s = Some (head, s)"
| "add_regions env bas ((start, fin, prm, secure) # rs) head s = do {
     (_, head, s) \<leftarrow> add_region env (PAGE_DOWN (start - bas + KERNEL_VA_BASE)) (PAGE_UP fin - PAGE_DOWN start)
                       prm secure head s;
     add_regions env bas rs head s }"

definition kernel_vma_regions_alloc :: "machine \<Rightarrow> linker_symbols \<Rightarrow> kst \<Rightarrow> kst option" where
  "kernel_vma_regions_alloc env y s = do {
     (head, s) \<leftarrow> add_regions env (PAGE_DOWN (binary_start y)) (vma_regions y) 0 s;
     (_, head, s) \<leftarrow> add_region env (heap_start (ks s)) (mmap_start (ks s) - heap_start (ks s)) PROT_RW 1 head s;
     (tmp, head, s) \<leftarrow> add_region env (mmap_start (ks s)) (mmap_size (ks s)) PROT_RW 1 head s;
     let s = upd_region (mmap_region_head (ks s)) (\<lambda>_. (regions s tmp)\<lparr>region_next := 0\<rparr>) s in do {
     (tmp, s) \<leftarrow> kcalloc sizeof_mem_region 1 s;
     s \<leftarrow> (if tmp = 0 then crash env s else Some s);
     if tmp = 0 then None
     else
       let s = upd_region tmp (\<lambda>_. zero_region) s;
           s = init_mem_region tmp (mmap_size (ks s) + mmap_start (ks s)) (mmap_size (ks s)) PROT_RW 1 s;
           s = upd_region tmp (\<lambda>r. r\<lparr>is_device := 1\<rparr>) s
       in do {
         (_, head, rg) \<leftarrow> mmap_region_insert head tmp (regions s);
         Some (s\<lparr>regions := rg, ks := (ks s)\<lparr>vma_allocation := head\<rparr>\<rparr>) } } }"

subsection \<open>The memory allocators\<close>

fun map_secure_pages :: "nat \<Rightarrow> u64 \<Rightarrow> u64 \<Rightarrow> kst \<Rightarrow> kst option" where
  "map_secure_pages 0 va pa s = Some s"
| "map_secure_pages (Suc n) va pa s = do {
     (_, s) \<leftarrow> kst_map (secure_t (ks s)) va pa 0 0 s;
     map_secure_pages n (va + PAGE_SIZE_4KB) (pa + PAGE_SIZE_4KB) s }"

text \<open>The virtual addresses of the tables and the two frame allocators.\<close>

definition enable_shared_frames :: "linker_symbols \<Rightarrow> kst \<Rightarrow> kst" where
  "enable_shared_frames y s =
     (let m = snd (memset (bytes s) (BITMAP_START y) 0 0x4000);
          m = snd (memset m (BITMAP_NS_START y) 0 0x4000);
          up = (\<lambda>a. (a - pa_base s) + KERNEL_VA_BASE);
          t = secure_t (ks s);
          t = t\<lparr>start_va := KERNEL_VA_BASE, va_PGD := up (PGD t), va_PUD := up (PUD t), va_PMD := up (PMD t),
                va_PT3 := up (PT3 t)\<rparr>;
          s = s\<lparr>bytes := m, ks := (ks s)\<lparr>secure_t := t\<rparr>\<rparr>;
          shared_size = PAGE_UP (SHARED_NS_MEMORY_END y - SHARED_NS_MEMORY_START y);
          shared_bitmap_size = PAGE_UP (BITMAP_NS_END y - BITMAP_NS_START y);
          shared_start = SHARED_NS_MEMORY_START y - PAGE_DOWN (binary_start y) + pa_base s
      in snd (kframe_allocator_init_insecure (BITMAP_NS_START y) shared_bitmap_size
                (shared_start OR get_shared_bit s) shared_size s))"

definition enable_private_frames :: "linker_symbols \<Rightarrow> kst \<Rightarrow> kst" where
  "enable_private_frames y s =
     (let private_size = PAGE_UP (ram_end y - SHARED_NS_MEMORY_END y);
          private_bitmap_size = PAGE_UP (BITMAP_END y - BITMAP_START y);
          private_start = SHARED_NS_MEMORY_END y - PAGE_DOWN (binary_start y) + pa_base s
      in snd (kframe_allocator_init_secure (BITMAP_START y) private_bitmap_size private_start private_size s))"

text \<open>The bounds of the heaps and of the regions for mappings, and the breaks.\<close>

definition enable_bounds :: "linker_symbols \<Rightarrow> kernel_struct \<Rightarrow> kernel_struct" where
  "enable_bounds y k =
     (let new_heap_start = PAGE_UP (SHARED_NS_MEMORY_END y - binary_start y);
          sz = ram_end y - SHARED_NS_MEMORY_END y;
          k = k\<lparr>heap_start := new_heap_start + KERNEL_VA_BASE, heap_size := KERNEL_HEAP_SIZE\<rparr>;
          k = k\<lparr>mmap_start := heap_start k + KERNEL_HEAP_SIZE\<rparr>;
          k = k\<lparr>cur_mmap := mmap_start k, mmap_size := sz - KERNEL_HEAP_SIZE\<rparr>;
          sz = SHARED_NS_MEMORY_END y - SHARED_NS_MEMORY_START y;
          start = SHARED_NS_MEMORY_START y;
          k = k\<lparr>shared_region_size := sz\<rparr>;
          sz = sz div 2
      in k\<lparr>shared_heap_start := start, shared_heap_size := sz, shared_mmap_start := start + sz,
           shared_mmap_size := sz, ks_sbrk := 0, ks_sbrk_base := 0, sh_sbrk := 0, sh_sbrk_base := 0\<rparr>)"

definition enable_mmap :: "machine \<Rightarrow> linker_symbols \<Rightarrow> kst \<Rightarrow> kst option" where
  "enable_mmap env y s =
     (let s = enable_private_frames y (enable_shared_frames y s);
          s = s\<lparr>ks := enable_bounds y (ks s)\<rparr>;
          (r, k) = k_brk (heap_start (ks s)) (ks s);
          s = s\<lparr>ks := k\<rparr>
      in do {
        s \<leftarrow> (if r <s 0 then crash env s else Some s);
        let (r, k) = shared_brk (shared_heap_start (ks s)) (ks s); s = s\<lparr>ks := k\<rparr> in do {
        s \<leftarrow> (if r <s 0 then crash env s else Some s);
        let pa = (shared_heap_start (ks s) - KERNEL_VA_BASE + pa_base s) OR get_shared_bit s;
            va = shared_heap_start (ks s);
            n = shared_heap_size (ks s) div PAGE_SIZE_4KB;
            (r, s) = kframe_allocate_fixed_insecure pa n s
        in if r = 0 then None
           else do {
             s \<leftarrow> map_secure_pages (unat n) va pa s;
             let pa = heap_start (ks s) - KERNEL_VA_BASE + pa_base s;
                 va = heap_start (ks s);
                 n = heap_size (ks s) div PAGE_SIZE_4KB;
                 (r, s) = kframe_allocate_fixed_secure pa n s
             in if r = 0 then None
                else do {
                  s \<leftarrow> map_secure_pages (unat n) va pa s;
                  let s = s\<lparr>sysreg := (sysreg s)(''cpacr_el1'' := push_bit 20 0x3)\<rparr>
                  in kernel_vma_regions_alloc env y (snd (heap_init s)) } } } })"

text \<open>
  \<open>kernel_test\<close> stores 24 frames into an array of 8; \<open>None\<close> is a store outside the array. The array holds at first the
  addresses \<open>input\<close> of kernel symbols, whose translations the function computes and drops.
\<close>

fun test_fill :: "nat \<Rightarrow> nat \<Rightarrow> u64 list \<Rightarrow> kst \<Rightarrow> (u64 list \<times> kst) option" where
  "test_fill i 0 input s = Some (input, s)"
| "test_fill i (Suc n) input s =
     (let (frame, s) = kframe_allocate_secure 1 s in
      if i < length input then test_fill (Suc i) n (input[i := frame]) s else None)"

definition kernel_test :: "machine \<Rightarrow> linker_symbols \<Rightarrow> u64 list \<Rightarrow> kst \<Rightarrow> kst option" where
  "kernel_test env y input s = do {
     s \<leftarrow> enable_mmap env y s;
     (input, s) \<leftarrow> test_fill 0 24 input s;
     Some (fold (\<lambda>i s. kframe_free_secure (input ! i) s) [0..<24] s) }"

lemma test_fill_outside: "i \<le> length input \<Longrightarrow> length input < i + n \<Longrightarrow> test_fill i n input s = None"
  by (induction i n input s rule: test_fill.induct) (auto split: prod.splits)

lemma kernel_test_fails: "length input = 8 \<Longrightarrow> kernel_test env y input s = None"
  using test_fill_outside [of 0 input 24] by (auto simp: kernel_test_def split: option.splits bind_splits)

subsection \<open>Before the MMU is on\<close>

text \<open>
  \<open>kernel_debug_buffer\<close> is at \<open>buf\<close>; while its first byte is 1 the function waits for ever. The test
  that is to end the copy at the terminator compares the pointer, not the character.
\<close>

fun log_loop :: "u64 \<Rightarrow> nat \<Rightarrow> nat \<Rightarrow> u64 \<Rightarrow> bytemem \<Rightarrow> bytemem" where
  "log_loop buf count 0 ptr m = m"
| "log_loop buf count (Suc n) ptr m =
     (if ptr = 0 then m
      else log_loop buf (Suc count) n (ptr + 1) (m(buf + of_nat (count + 1) := m ptr)))"

definition debug_log_message :: "u64 \<Rightarrow> u64 \<Rightarrow> bytemem \<Rightarrow> bytemem option" where
  "debug_log_message buf msg m =
     (if msg = 0 then Some m else if m buf = 1 then None else Some (log_loop buf 0 63 msg m))"

definition kernel_init ::
  "machine \<Rightarrow> linker_symbols \<Rightarrow> static_tables \<Rightarrow> static_tables \<Rightarrow> u64 \<Rightarrow> kst \<Rightarrow> kst option" where
  "kernel_init env y lower realm vector_table s =
     (let ram_shared_size = PAGE_UP (SHARED_NS_MEMORY_END y AND NOT 0xFFF) - PAGE_DOWN (SHARED_NS_MEMORY_START y);
          s = s\<lparr>pa_base := PAGE_DOWN (binary_start y), pa_binary_end := PAGE_UP (binary_end y)\<rparr>;
          sz = PAGE_UP (pa_binary_end s - pa_base s);
          s = enable_exception_vectors vector_table s;
          st = set_upper_translation_tables realm zero_tables;
          it = set_lower_translation_tables lower zero_tables;
          st = st\<lparr>start_va := KERNEL_VA_BASE, start_pa := pa_base s\<rparr>;
          it = it\<lparr>start_pa := pa_base s, start_va := pa_base s\<rparr>;
          s = s\<lparr>ks := (ks s)\<lparr>secure_t := st, insecure_t := it\<rparr>,
                cells := normal_map_kernel_4KB it sz ram_shared_size
                           (normal_map_kernel_4KB st sz ram_shared_size (cells s))\<rparr>;
          r = configure_translation lower realm
                \<lparr>MAIR_EL1 = sysreg s ''mair_el1'', TCR_EL1 = sysreg s ''tcr_el1'',
                 TTBR0_EL1 = sysreg s ''ttbr0_el1'', TTBR1_EL1 = sysreg s ''ttbr1_el1''\<rparr>;
          s = s\<lparr>sysreg := (sysreg s)(''mair_el1'' := MAIR_EL1 r, ''tcr_el1'' := TCR_EL1 r,
                ''ttbr0_el1'' := TTBR0_EL1 r, ''ttbr1_el1'' := TTBR1_EL1 r)\<rparr>
      in console env (''done configuring translation....'' @ CHR 0x0A # ''enabling mmu...'') 48 s)"

subsection \<open>Running\<close>

text \<open>The mappings of the two serial ports, and what \<open>uart_init\<close> writes to each.\<close>

definition map_uart :: "u64 \<Rightarrow> kst \<Rightarrow> (kst \<times> (u64 \<times> u16) list) option" where
  "map_uart va s = do {
     (_, s) \<leftarrow> kst_map_device (secure_t (ks s)) va (get_uart_base (get_shared_bit s)) 0 s;
     (_, s) \<leftarrow> kst_map_device (secure_t (ks s)) (va + 0x1000) (get_uart_syscall_base (get_shared_bit s)) 0 s;
     Some (s, uart_init va @ uart_init (va + 0x1000)) }"

text \<open>
  \<open>schedule\<close>, up to a call of \<open>_switch_to_user\<close>, which is assembly and resumes the process: the process
  and the state it is called with. The outer loop starts over at the end of the list, for ever when
  there is no process to run.
\<close>

partial_function (option) schedule :: "machine \<Rightarrow> u64 \<Rightarrow> kst \<Rightarrow> (u64 \<times> kst) option" where
  "schedule env t s =
     (if t = 0 then schedule env (process_head (ks s)) s
      else if p_state (procs s t) = READY then
        let s = upd_proc t (\<lambda>r. r\<lparr>p_state := RUNNING\<rparr>) s;
            s = set_current_process t s
        in do {
          s \<leftarrow> console env (CHR 0x0A # ''switch to user'' @ [CHR 0x0A]) 16 s;
          s \<leftarrow> console env [CHR 0x0A, CHR 0x0A] 2 s;
          Some (t, s) }
      else schedule env (proc_next (procs s t)) s)"

text \<open>The addresses of the data \<open>kernel_main\<close> uses: its strings, and its two vectors on the stack.\<close>

record main_symbols =
  debug_buffer :: u64
  prog :: u64
  test_elf :: u64
  pwd :: u64
  home :: u64
  main_argv :: u64
  main_env :: u64
  main_binary :: u64
  main_rhc :: u64
  main_pc :: u64
  main_vectors :: u64

definition kernel_main ::
  "machine \<Rightarrow> smc_call \<Rightarrow> (string \<Rightarrow> u64) \<Rightarrow> u64 \<Rightarrow> linker_symbols \<Rightarrow> main_symbols \<Rightarrow> kst \<Rightarrow> (u64 \<times> kst) option" where
  "kernel_main env smc mrs uninit y g s =
     (let s = s\<lparr>bytes := snd (memset (bytes s) (debug_buffer g) 0 64)\<rparr>;
          s = get_cpu_features mrs s
      in do {
        s \<leftarrow> enable_mmap env y s;
        (s, _) \<leftarrow> map_uart (KERNEL_VA_BASE + 512 * 1024 * 1024) s;
        s \<leftarrow> console env (''doing memory remapping'' @ [CHR 0x0A]) 23 s;
        let s = enable_exception_vectors (main_vectors g) s in do {
        s \<leftarrow> console env (''finished mapping kernel, going to execute user prog'' @ [CHR 0x0A]) 52 s;
        (b, s) \<leftarrow> smalloc 20 s;
        s \<leftarrow> (if b \<noteq> 0 then sfree b s else Some s);
        let m = store64 (bytes s) (main_argv g) (test_elf g);
            m = store64 m (main_argv g + 8) 0;
            m = store64 m (main_env g) (pwd g);
            m = store64 m (main_env g + 8) (home g);
            m = store64 m (main_env g + 16) 0;
            s = s\<lparr>bytes := m\<rparr>
        in do {
          s \<leftarrow> console env (CHR 0x0A # ''Test SmcccFilter - PSCI Version'' @ [CHR 0x0A]) 33 s;
          s \<leftarrow> rsi_host_call smc (mmu env) (main_rhc g) (main_pc g) s;
          (_, s) \<leftarrow> sys_execve env uninit (main_binary g) (prog g) (main_argv g) (main_env g) s;
          s \<leftarrow> console env (CHR 0x0A # ''executing scheduler'' @ [CHR 0x0A]) 20 s;
          schedule env (process_head (ks s)) s } } })"

end
