(* ===== verification/Registers.thy ===== *)
theory Registers
  imports Boot Handler PageWalk
begin

text \<open>
  The bit fields of the registers and table entries: the structures of \<open>defines.h\<close>, \<open>handler.c\<close>,
  \<open>exception_defines.h\<close> and \<open>pl011.h\<close> with the places the C compiler gives their fields. The rest of the
  development reads and writes the registers with shifts and masks; here these are shown to be the
  assignments to the fields.
\<close>

subsection \<open>Placement\<close>

text \<open>
  The rule of the procedure call standard (AAPCS64, little endian): a field of width \<open>w\<close> goes to the next
  free bit, or to the next unit of its declared type (\<open>u\<close> bits) if it would straddle two of them. A
  member that is not a bit field has the width of its type. A field without a name has the empty name.
\<close>

fun place :: "nat \<Rightarrow> nat \<Rightarrow> (string \<times> nat) list \<Rightarrow> (string \<times> nat \<times> nat) list" where
  "place u p [] = []"
| "place u p ((f, w) # fs) =
     (let q = (if p mod u + w > u then (p div u + 1) * u else p) in (f, q, w) # place u (q + w) fs)"

fun place_end :: "nat \<Rightarrow> nat \<Rightarrow> (string \<times> nat) list \<Rightarrow> nat" where
  "place_end u p [] = p"
| "place_end u p ((f, w) # fs) = place_end u ((if p mod u + w > u then (p div u + 1) * u else p) + w) fs"

definition bits_at :: "nat \<Rightarrow> (string \<times> nat) list \<Rightarrow> string \<Rightarrow> (nat \<times> nat) option" where
  "bits_at u fs f = map_of (place u 0 fs) f"

definition read_bits :: "nat \<Rightarrow> (string \<times> nat) list \<Rightarrow> string \<Rightarrow> u64 \<Rightarrow> u64" where
  "read_bits u fs f r = (case bits_at u fs f of None \<Rightarrow> 0 | Some (p, n) \<Rightarrow> get_field p n r)"

definition write_bits :: "nat \<Rightarrow> (string \<times> nat) list \<Rightarrow> string \<Rightarrow> u64 \<Rightarrow> u64 \<Rightarrow> u64" where
  "write_bits u fs f v r = (case bits_at u fs f of None \<Rightarrow> r | Some (p, n) \<Rightarrow> set_field p n v r)"

lemma next_unit: "0 < u \<Longrightarrow> p \<le> (p div u + 1) * (u :: nat)"
  by (metis Suc_eq_plus1 dividend_less_div_times less_imp_le mult.commute mult_Suc_right add.commute)

lemma place_ge: "0 < u \<Longrightarrow> (f, q, w) \<in> set (place u p fs) \<Longrightarrow> p \<le> q"
proof (induction u p fs rule: place.induct)
  case (2 u p g v fs)
  then show ?case using next_unit [of u p] by (fastforce simp: Let_def split: if_splits)
qed simp

lemma place_end_ge: "0 < u \<Longrightarrow> p \<le> place_end u p fs"
proof (induction u p fs rule: place_end.induct)
  case (2 u p g v fs)
  then show ?case using next_unit [of u p] by (auto split: if_splits)
qed simp

lemma place_le_end: "0 < u \<Longrightarrow> (f, q, w) \<in> set (place u p fs) \<Longrightarrow> q + w \<le> place_end u p fs"
proof (induction u p fs rule: place.induct)
  case (2 u p g v fs)
  then show ?case using place_end_ge [of u _ fs] by (auto simp: Let_def split: if_splits)
qed simp

lemma place_in_unit:
  "0 < u \<Longrightarrow> \<forall>(g, v) \<in> set fs. v \<le> u \<Longrightarrow> (f, q, w) \<in> set (place u p fs) \<Longrightarrow> q mod u + w \<le> u"
proof (induction u p fs rule: place.induct)
  case (2 u p g v fs)
  then show ?case by (auto simp: Let_def split: if_splits)
qed simp

lemma place_apart: "0 < u \<Longrightarrow> sorted_wrt (\<lambda>(f, q, w) (g, r, v). q + w \<le> r) (place u p fs)"
proof (induction u p fs rule: place.induct)
  case (2 u p g v fs)
  then show ?case by (auto simp: Let_def dest: place_ge)
qed simp

lemma bits_at_apart:
  assumes "0 < u" "bits_at u fs f = Some (p, n)" "bits_at u fs g = Some (q, m)" "f \<noteq> g"
  shows "p + n \<le> q \<or> q + m \<le> p"
proof -
  have "(f, p, n) \<in> set (place u 0 fs)" "(g, q, m) \<in> set (place u 0 fs)"
    using assms(2,3) by (auto simp: bits_at_def dest: map_of_SomeD)
  then obtain i j where ij: "i < length (place u 0 fs)" "j < length (place u 0 fs)"
    "place u 0 fs ! i = (f, p, n)" "place u 0 fs ! j = (g, q, m)" by (auto simp: in_set_conv_nth)
  then have "i \<noteq> j" using assms(4) by auto
  then show ?thesis
    using sorted_wrt_nth_less [OF place_apart [OF assms(1)], of i j 0 fs]
      sorted_wrt_nth_less [OF place_apart [OF assms(1)], of j i 0 fs] ij by (cases "i < j") auto
qed

text \<open>A write of a field is seen by reads of this field only.\<close>

lemma write_read_bits:
  assumes "0 < u" "bits_at u fs f = Some (p, n)" "p + n \<le> 64"
  shows "read_bits u fs f (write_bits u fs f v r) = take_bit n v"
    and "f \<noteq> g \<Longrightarrow> read_bits u fs g (write_bits u fs f v r) = read_bits u fs g r"
proof -
  show "read_bits u fs f (write_bits u fs f v r) = take_bit n v"
    using assms by (simp add: read_bits_def write_bits_def get_set_field_same)
  show "read_bits u fs g (write_bits u fs f v r) = read_bits u fs g r" if "f \<noteq> g"
  proof (cases "bits_at u fs g")
    case (Some x)
    then show ?thesis
      using bits_at_apart [OF assms(1,2) _ that] assms(2)
      by (cases x) (auto simp: read_bits_def write_bits_def intro: get_set_field_other)
  qed (simp add: read_bits_def)
qed

subsection \<open>The structures\<close>

text \<open>Translation control, table entries and system control (\<open>defines.h\<close>).\<close>

definition TCR_EL1_table_fields :: "(string \<times> nat) list" where
  "TCR_EL1_table_fields =
    [(''T0SZ'', 6), (''RES0'', 1), (''EPD0'', 1), (''IRGN0'', 2), (''ORGN0'', 2), (''SH0'', 2),
     (''TG0'', 2), (''T1SZ'', 6), (''A1'', 1), (''EPD1'', 1), (''IRGN1'', 2), (''ORGN1'', 2),
     (''SH1'', 2), (''TG1'', 2), (''IPS'', 3), (''RES1'', 1), (''AS'', 1), (''TBI0'', 1),
     (''TBI1'', 1), (''HA'', 1), (''HD'', 1), (''HPD0'', 1), (''HPD1'', 1), (''HWU059'', 1),
     (''HWU060'', 1), (''HWU061'', 1), (''HWU062'', 1), (''HWO159'', 1), (''HWO160'', 1),
     (''HWO161'', 1), (''HWO162'', 1), (''TB1D0'', 1), (''TB1D1'', 1), (''NFD0'', 1), (''NFD1'', 1),
     (''E0PD0'', 1), (''E0PD1'', 1), (''TCMA0'', 1), (''TCMA1'', 1), (''DS'', 1), (''RES3'', 4)]"

definition TABLE_FORMAT_4KB_52_OA_fields :: "(string \<times> nat) list" where
  "TABLE_FORMAT_4KB_52_OA_fields =
    [(''is_valid'', 1), (''is_link'', 1), (''ignore_0'', 6), (''next_level_table_address_msb'', 2),
     (''ignore_1'', 2), (''next_level_table_address'', 38), (''res0'', 1), (''ignore_2'', 8),
     (''attributes'', 4)]"

definition TABLE_FORMAT_4KB_48_OA_fields :: "(string \<times> nat) list" where
  "TABLE_FORMAT_4KB_48_OA_fields =
    [(''is_valid'', 1), (''is_link'', 1), (''ignore_0'', 10), (''next_level_table_address'', 36),
     (''res0'', 3), (''ignore_1'', 8), (''attributes'', 5)]"

definition table_attributes_fields :: "(string \<times> nat) list" where
  "table_attributes_fields =
    [(''reserved'', 3), (''pxn_table'', 1), (''uxn_table'', 1), (''ap_table'', 2), (''ns_table'', 1)]"

definition block_page_l0_fields :: "(string \<times> nat) list" where
  "block_page_l0_fields =
    [(''is_valid'', 1), (''is_link'', 1), (''lower_attributes'', 10), (''res0'', 4), (''nT'', 1),
     (''reserved'', 22), (''oa'', 9), (''res1'', 2), (''upper_attributes'', 14)]"

definition block_page_l1_fields :: "(string \<times> nat) list" where
  "block_page_l1_fields =
    [(''is_valid'', 1), (''is_link'', 1), (''lower_attributes'', 10), (''res0'', 4), (''nT'', 1),
     (''reserved'', 13), (''oa'', 18), (''res1'', 2), (''upper_attributes'', 14)]"

definition block_page_l2_fields :: "(string \<times> nat) list" where
  "block_page_l2_fields =
    [(''is_valid'', 1), (''is_link'', 1), (''lower_attributes'', 10), (''res0'', 4), (''nT'', 1),
     (''reserved'', 4), (''oa'', 27), (''res1'', 2), (''upper_attributes'', 14)]"

definition block_page_l3_fields :: "(string \<times> nat) list" where
  "block_page_l3_fields =
    [(''is_valid'', 1), (''is_link'', 1), (''lower_attributes'', 10), (''oa'', 36), (''res0'', 2),
     (''upper_attributes'', 14)]"

definition block_page_upper_attr_fields :: "(string \<times> nat) list" where
  "block_page_upper_attr_fields =
    [(''res0'', 2), (''gp'', 1), (''dbm'', 1), (''contiguous'', 1), (''pxn'', 1), (''uxn'', 1),
     (''ignore0'', 4), (''pbha'', 4), (''ignore1'', 1)]"

definition block_page_lower_attr_fields :: "(string \<times> nat) list" where
  "block_page_lower_attr_fields =
    [(''is_valid'', 1), (''is_link'', 1), (''attr'', 2), (''ns'', 1), (''ap'', 2), (''sh'', 2),
     (''af'', 1), (''ng'', 1), (''oa_upper'', 2), (''padding0'', 2)]"

definition SCTLR_EL1_t_fields :: "(string \<times> nat) list" where
  "SCTLR_EL1_t_fields =
    [(''M'', 1), (''A'', 1), (''C'', 1), (''SA'', 1), (''SA0'', 1), (''CP15BEN'', 1), (''nAA'', 1),
     (''ITD'', 1), (''SED'', 1), (''UMA'', 1), (''EnRCTX'', 1), (''EOS'', 1), (''I'', 1),
     (''EnDB'', 1), (''DZE'', 1), (''UCT'', 1), (''nTWI'', 1), (''RES0'', 1), (''nTWE'', 1),
     (''WXN'', 1), (''TSCXT'', 1), (''IESB'', 1), (''EIS'', 1), (''SPAN'', 1), (''E0E'', 1),
     (''EE'', 1), (''UCI'', 1), (''EnDA'', 1), (''nTLSMD'', 1), (''LSMAOE'', 1), (''EnIB'', 1),
     (''EnIA'', 1), (''CMOW'', 1), (''MSCEn'', 1), (''RES1'', 1), (''BT0'', 1), (''BT1'', 1),
     (''ITFSB'', 1), (''TCF0'', 2), (''TCF'', 2), (''ATA0'', 1), (''ATA'', 1), (''DSSBS'', 1),
     (''TWEDEn'', 1), (''TWEDEL'', 4), (''TMT0'', 1), (''TMT'', 1), (''TME0'', 1), (''TME'', 1),
     (''EnASR'', 1), (''EnAS0'', 1), (''EnALS'', 1), (''EPAN'', 1), (''RES2'', 2), (''EnTP2'', 1),
     (''NMI'', 1), (''SPINTMASK'', 1), (''TIDCP'', 1)]"

text \<open>The syndrome register (\<open>handler.c\<close>).\<close>

definition esr_el1_t_fields :: "(string \<times> nat) list" where
  "esr_el1_t_fields =
    [(''ISS'', 25), (''IL'', 1), (''EC'', 6), (''ISS2'', 5), (''reserved'', 27)]"

text \<open>Syndromes of exceptions (\<open>exception_defines.h\<close>).\<close>

definition ISS_Inst_abort_fields :: "(string \<times> nat) list" where
  "ISS_Inst_abort_fields =
    [(''ifsc'', 6), ('''', 1), (''siptw'', 1), ('''', 1), (''ea'', 1), (''fnv'', 1), (''set'', 2),
     ('''', 19)]"

definition ISS_data_abort_fields :: "(string \<times> nat) list" where
  "ISS_data_abort_fields =
    [(''dfsc'', 6), (''WnR'', 1), (''S1PTW'', 1), (''CM'', 1), (''EA'', 1), (''FnV'', 1),
     (''none'', 2), (''vncr'', 1), (''ar'', 1), (''sf'', 1), (''srt'', 5), (''sse'', 1), (''sas'', 2),
     (''isv'', 1), (''ignore'', 7)]"

definition iss_float_point_except_fields :: "(string \<times> nat) list" where
  "iss_float_point_except_fields =
    [(''iof'', 1), (''dzf'', 1), (''off'', 1), (''uff'', 1), (''ixf'', 1), ('''', 2), (''idf'', 1),
     (''vecitr'', 3), ('''', 12), (''tfv'', 1), ('''', 8)]"

definition iss_serror_interrupt_fields :: "(string \<times> nat) list" where
  "iss_serror_interrupt_fields =
    [(''dfsc'', 6), ('''', 3), (''ea'', 1), (''aet'', 3), (''iesb'', 1), ('''', 9), (''ids'', 1),
     ('''', 7)]"

definition iss_bp_vec_catch_debug_exception_fields :: "(string \<times> nat) list" where
  "iss_bp_vec_catch_debug_exception_fields =
    [(''ifsc'', 6), ('''', 26)]"

definition iss_sw_step_exception_fields :: "(string \<times> nat) list" where
  "iss_sw_step_exception_fields =
    [(''ifsc'', 6), (''ex'', 1), (''res0'', 18), (''isv'', 1), ('''', 7)]"

definition iss_watchpoint_exception_fields :: "(string \<times> nat) list" where
  "iss_watchpoint_exception_fields =
    [(''dfsc'', 6), (''wnr'', 1), (''res0'', 1), (''cm'', 1), ('''', 4), (''vncr'', 1), ('''', 1),
     ('''', 8), ('''', 8)]"

definition iss_breakpoint_fields :: "(string \<times> nat) list" where
  "iss_breakpoint_fields =
    [(''comment'', 16)]"

definition iss_erets_fields :: "(string \<times> nat) list" where
  "iss_erets_fields =
    [(''ereta'', 1), (''eret'', 1), ('''', 14), ('''', 16)]"

definition iss_branch_target_id_inst_fields :: "(string \<times> nat) list" where
  "iss_branch_target_id_inst_fields =
    [(''btype'', 2), ('''', 14), ('''', 16)]"

definition iss_ptr_auth_inst_fields :: "(string \<times> nat) list" where
  "iss_ptr_auth_inst_fields =
    [(''res0'', 25), ('''', 7)]"

definition iss_ptr_auth_inst_keys_fields :: "(string \<times> nat) list" where
  "iss_ptr_auth_inst_keys_fields =
    [(''a_or_b'', 1), (''inst_or_data'', 1), (''res0'', 23), ('''', 7)]"

text \<open>Registers of the serial ports (\<open>pl011.h\<close>).\<close>

definition uart_data_reg_fields :: "(string \<times> nat) list" where
  "uart_data_reg_fields =
    [(''data'', 8), (''FE'', 1), (''PE'', 1), (''BE'', 1), (''OE'', 1), ('''', 4)]"

definition uart_status_reg_fields :: "(string \<times> nat) list" where
  "uart_status_reg_fields =
    [(''FE'', 1), (''PE'', 1), (''OE'', 1), (''BE'', 1), ('''', 4), (''clear'', 8)]"

definition uart_flag_reg_fields :: "(string \<times> nat) list" where
  "uart_flag_reg_fields =
    [(''CTS'', 1), (''DSR'', 1), (''DCD'', 1), (''BUSY'', 1), (''RXFE'', 1), (''TXFF'', 1),
     (''RXFF'', 1), (''TXFE'', 1), (''RI'', 1), (''ignore'', 9)]"

definition uart_ibrd_reg_fields :: "(string \<times> nat) list" where
  "uart_ibrd_reg_fields =
    [(''baudrate_int'', 16)]"

definition uart_fbrd_reg_fields :: "(string \<times> nat) list" where
  "uart_fbrd_reg_fields =
    [(''baudrate_frac'', 6)]"

definition uart_lcrh_reg_bits_fields :: "(string \<times> nat) list" where
  "uart_lcrh_reg_bits_fields =
    [(''BRK'', 1), (''PEN'', 1), (''EPS'', 1), (''STP2'', 1), (''FEN'', 1), (''WLEN'', 2),
     (''SPS'', 1), (''ignore'', 8)]"

definition uart_cr_reg_bits_fields :: "(string \<times> nat) list" where
  "uart_cr_reg_bits_fields =
    [(''uarten'', 1), (''siren'', 1), (''sirlp'', 1), ('''', 4), (''lbe'', 1), (''txe'', 1),
     (''rxe'', 1), (''dtr'', 1), (''rts'', 1), (''out1'', 1), (''out2'', 1), (''RTSEn'', 1),
     (''CTSEn'', 1)]"

definition uart_fifo_ifls_fields :: "(string \<times> nat) list" where
  "uart_fifo_ifls_fields =
    [(''txifsel'', 3), (''rxifsel'', 3), (''ignore'', 10)]"

definition uart_imsc_fields :: "(string \<times> nat) list" where
  "uart_imsc_fields =
    [(''RIMIM'', 1), (''CTSMIM'', 1), (''DCDMIM'', 1), (''DSRMIM'', 1), (''rxim'', 1), (''txim'', 1),
     (''rtim'', 1), (''feim'', 1), (''peim'', 1), (''beim'', 1), (''oeim'', 1), ('''', 5)]"

text \<open>All of them, each with the width of its declared type.\<close>

definition register_structs :: "(string \<times> nat \<times> (string \<times> nat) list) list" where
  "register_structs =
    [(''TCR_EL1_table'', 64, TCR_EL1_table_fields),
     (''TABLE_FORMAT_4KB_52_OA'', 64, TABLE_FORMAT_4KB_52_OA_fields),
     (''TABLE_FORMAT_4KB_48_OA'', 64, TABLE_FORMAT_4KB_48_OA_fields),
     (''table_attributes'', 8, table_attributes_fields),
     (''block_page_l0'', 64, block_page_l0_fields),
     (''block_page_l1'', 64, block_page_l1_fields),
     (''block_page_l2'', 64, block_page_l2_fields),
     (''block_page_l3'', 64, block_page_l3_fields),
     (''block_page_upper_attr'', 16, block_page_upper_attr_fields),
     (''block_page_lower_attr'', 16, block_page_lower_attr_fields),
     (''SCTLR_EL1_t'', 64, SCTLR_EL1_t_fields),
     (''esr_el1_t'', 64, esr_el1_t_fields),
     (''ISS_Inst_abort'', 32, ISS_Inst_abort_fields),
     (''ISS_data_abort'', 8, ISS_data_abort_fields),
     (''iss_float_point_except'', 32, iss_float_point_except_fields),
     (''iss_serror_interrupt'', 16, iss_serror_interrupt_fields),
     (''iss_bp_vec_catch_debug_exception'', 32, iss_bp_vec_catch_debug_exception_fields),
     (''iss_sw_step_exception'', 32, iss_sw_step_exception_fields),
     (''iss_watchpoint_exception'', 32, iss_watchpoint_exception_fields),
     (''iss_breakpoint'', 16, iss_breakpoint_fields),
     (''iss_erets'', 16, iss_erets_fields),
     (''iss_branch_target_id_inst'', 16, iss_branch_target_id_inst_fields),
     (''iss_ptr_auth_inst'', 32, iss_ptr_auth_inst_fields),
     (''iss_ptr_auth_inst_keys'', 32, iss_ptr_auth_inst_keys_fields),
     (''uart_data_reg'', 8, uart_data_reg_fields),
     (''uart_status_reg'', 8, uart_status_reg_fields),
     (''uart_flag_reg'', 16, uart_flag_reg_fields),
     (''uart_ibrd_reg'', 16, uart_ibrd_reg_fields),
     (''uart_fbrd_reg'', 8, uart_fbrd_reg_fields),
     (''uart_lcrh_reg_bits'', 8, uart_lcrh_reg_bits_fields),
     (''uart_cr_reg_bits'', 8, uart_cr_reg_bits_fields),
     (''uart_fifo_ifls'', 16, uart_fifo_ifls_fields),
     (''uart_imsc'', 8, uart_imsc_fields)]"

lemmas field_lists =
  TCR_EL1_table_fields_def TABLE_FORMAT_4KB_52_OA_fields_def TABLE_FORMAT_4KB_48_OA_fields_def
  table_attributes_fields_def block_page_l0_fields_def block_page_l1_fields_def
  block_page_l2_fields_def block_page_l3_fields_def block_page_upper_attr_fields_def
  block_page_lower_attr_fields_def SCTLR_EL1_t_fields_def esr_el1_t_fields_def
  ISS_Inst_abort_fields_def ISS_data_abort_fields_def iss_float_point_except_fields_def
  iss_serror_interrupt_fields_def iss_bp_vec_catch_debug_exception_fields_def
  iss_sw_step_exception_fields_def iss_watchpoint_exception_fields_def iss_breakpoint_fields_def
  iss_erets_fields_def iss_branch_target_id_inst_fields_def iss_ptr_auth_inst_fields_def
  iss_ptr_auth_inst_keys_fields_def uart_data_reg_fields_def uart_status_reg_fields_def
  uart_flag_reg_fields_def uart_ibrd_reg_fields_def uart_fbrd_reg_fields_def
  uart_lcrh_reg_bits_fields_def uart_cr_reg_bits_fields_def uart_fifo_ifls_fields_def
  uart_imsc_fields_def



lemma register_structs_fit:
  "list_all (\<lambda>(name, u, fs). 0 < u \<and> place_end u 0 fs \<le> 64 \<and> list_all (\<lambda>(f, w). w \<le> u) fs) register_structs"
  by (simp add: register_structs_def field_lists)

text \<open>The registers that are 64 bits wide are described completely.\<close>

lemma registers_full:
  "place_end 64 0 TCR_EL1_table_fields = 64" "place_end 64 0 TABLE_FORMAT_4KB_48_OA_fields = 64"
  "place_end 64 0 block_page_l0_fields = 64" "place_end 64 0 block_page_l1_fields = 64"
  "place_end 64 0 block_page_l2_fields = 64" "place_end 64 0 block_page_l3_fields = 64"
  "place_end 64 0 SCTLR_EL1_t_fields = 64" "place_end 64 0 esr_el1_t_fields = 64"
  by (simp_all add: field_lists)

subsection \<open>The places the code relies on\<close>

lemma table_fields:
  "bits_at 64 TABLE_FORMAT_4KB_48_OA_fields ''is_valid'' = Some (0, 1)"
  "bits_at 64 TABLE_FORMAT_4KB_48_OA_fields ''is_link'' = Some (1, 1)"
  "bits_at 64 TABLE_FORMAT_4KB_48_OA_fields ''next_level_table_address'' = Some (12, 36)"
  "bits_at 64 block_page_l3_fields ''is_valid'' = Some (0, 1)"
  "bits_at 64 block_page_l3_fields ''is_link'' = Some (1, 1)"
  "bits_at 64 block_page_l3_fields ''lower_attributes'' = Some (2, 10)"
  "bits_at 64 block_page_l3_fields ''oa'' = Some (12, 36)"
  "bits_at 64 block_page_l3_fields ''upper_attributes'' = Some (50, 14)"
  "bits_at 16 block_page_upper_attr_fields ''uxn'' = Some (6, 1)"
  "bits_at 64 block_page_l2_fields ''is_valid'' = Some (0, 1)"
  "bits_at 64 block_page_l2_fields ''is_link'' = Some (1, 1)"
  "bits_at 64 block_page_l2_fields ''oa'' = Some (21, 27)"
  by code_simp+

lemma control_fields:
  "bits_at 64 SCTLR_EL1_t_fields ''M'' = Some (0, 1)" "bits_at 64 SCTLR_EL1_t_fields ''A'' = Some (1, 1)"
  "bits_at 64 SCTLR_EL1_t_fields ''C'' = Some (2, 1)" "bits_at 64 SCTLR_EL1_t_fields ''SA0'' = Some (4, 1)"
  "bits_at 64 SCTLR_EL1_t_fields ''CP15BEN'' = Some (5, 1)" "bits_at 64 SCTLR_EL1_t_fields ''nAA'' = Some (6, 1)"
  "bits_at 64 SCTLR_EL1_t_fields ''I'' = Some (12, 1)"
  by code_simp+

lemma syndrome_fields:
  "bits_at 64 esr_el1_t_fields ''ISS'' = Some (0, 25)" "bits_at 64 esr_el1_t_fields ''IL'' = Some (25, 1)"
  "bits_at 64 esr_el1_t_fields ''EC'' = Some (26, 6)" "bits_at 64 esr_el1_t_fields ''ISS2'' = Some (32, 5)"
  by code_simp+

lemma uart_fields:
  "bits_at 8 uart_lcrh_reg_bits_fields ''STP2'' = Some (3, 1)" "bits_at 8 uart_lcrh_reg_bits_fields ''WLEN'' = Some (5, 2)"
  "bits_at 8 uart_cr_reg_bits_fields ''uarten'' = Some (0, 1)" "bits_at 8 uart_cr_reg_bits_fields ''txe'' = Some (8, 1)"
  "bits_at 8 uart_cr_reg_bits_fields ''rxe'' = Some (9, 1)"
  "bits_at 16 uart_flag_reg_fields ''TXFF'' = Some (5, 1)" "bits_at 16 uart_flag_reg_fields ''RXFE'' = Some (4, 1)"
  by code_simp+

text \<open>In every register structure of the kernel the fields are independent: an assignment to one field
  makes it the value truncated to its width and leaves every other field alone; a field lies inside one
  unit of its declared type and inside the 64 bits of the largest register.\<close>

lemma register_fields_independent:
  assumes "(name, u, fs) \<in> set register_structs" and "bits_at u fs f = Some (p, n)" and "f \<noteq> g"
  shows "read_bits u fs f (write_bits u fs f v r) = take_bit n v \<and>
     read_bits u fs g (write_bits u fs f v r) = read_bits u fs g r \<and> p mod u + n \<le> u \<and> p + n \<le> 64"
proof -
  have fit: "0 < u" "place_end u 0 fs \<le> 64" "\<forall>(g, v) \<in> set fs. v \<le> u"
    using register_structs_fit assms(1) by (auto simp: list_all_iff)
  have "(f, p, n) \<in> set (place u 0 fs)" using assms(2) by (auto simp: bits_at_def dest: map_of_SomeD)
  then have "p + n \<le> 64" "p mod u + n \<le> u"
    using place_le_end [OF fit(1)] place_in_unit [OF fit(1,3)] fit(2) order_trans by blast+
  then show ?thesis using write_read_bits [OF fit(1) assms(2)] assms(3) by simp
qed

lemma register_fields_independent_witness:
  "read_bits 64 SCTLR_EL1_t_fields ''I'' (write_bits 64 SCTLR_EL1_t_fields ''I'' 3 0) = take_bit 1 3 \<and>
   read_bits 64 SCTLR_EL1_t_fields ''M'' (write_bits 64 SCTLR_EL1_t_fields ''I'' 3 0) =
     read_bits 64 SCTLR_EL1_t_fields ''M'' 0 \<and> (12 :: nat) mod 64 + 1 \<le> 64 \<and> (12 :: nat) + 1 \<le> 64"
  by (rule register_fields_independent [of "''SCTLR_EL1_t''"])
    (simp_all add: register_structs_def control_fields)

lemma get_field_bit: "get_field p 1 w = of_bool (bit w p)"
  by (simp add: get_field_def take_bit_Suc bit_iff_odd_drop_bit mod_2_eq_odd)

lemma bit_3: "bit (3 :: u64) n \<longleftrightarrow> n < 2"
  using bit_mask_iff [of 2 n, where ?'a = u64] by (auto simp: mask_eq_exp_minus_1)

lemma lcrh_value_take: "lcrh_value l = push_bit 3 (of_bool (STP2 l)) OR push_bit 5 (take_bit 2 (WLEN l))"
  by (simp add: lcrh_value_def take_bit_eq_mask mask_eq_exp_minus_1)

lemma bits_at_name: "bits_at u fs f = Some x \<Longrightarrow> f \<in> fst ` set fs"
proof -
  have "map fst (place u p fs) = map fst fs" for p
    by (induction u p fs rule: place.induct) (simp_all add: Let_def)
  then have "fst ` set (place u p fs) = fst ` set fs" for p by (metis set_map)
  then show "f \<in> fst ` set fs" if "bits_at u fs f = Some x"
    using that by (force simp: bits_at_def dest: map_of_SomeD)
qed

lemma read_bits_or: "read_bits u fs f (a OR b) = read_bits u fs f a OR read_bits u fs f b"
  by (auto simp: read_bits_def get_field_def drop_bit_or take_bit_or split: option.split)

text \<open>The code that works on registers and table entries with shifts and masks does what assignments to
  the fields of the structures do: the links and leaves of page tables, the control register
  that \<open>enable_mmu\<close> writes, the exception class and syndrome that the handlers read, and the line control and
  control registers of the serial ports.\<close>

lemma register_accessors:
  "(tf_link r pa =
     (let T = write_bits 64 TABLE_FORMAT_4KB_48_OA_fields in
      T ''next_level_table_address'' (MASK_VA_36_TABLE_ADDRESS pa) (T ''is_link'' 1 (T ''is_valid'' 1 r)))) \<and>
   (bd_l3 r pa =
     (let T = write_bits 64 block_page_l3_fields in
      T ''oa'' (BD_OA_l3_get pa) (T ''is_link'' 0 (T ''is_valid'' 1 r)))) \<and>
   (bd_l2 r pa =
     (let T = write_bits 64 block_page_l2_fields in
      T ''oa'' (BD_OA_l2_get pa) (T ''is_link'' 0 (T ''is_valid'' 1 r)))) \<and>
   (sctlr_boot =
     (let T = write_bits 64 SCTLR_EL1_t_fields in
      T ''M'' 0 (T ''A'' 0 (T ''C'' 0 (T ''SA0'' 1 (T ''CP15BEN'' 1 (T ''nAA'' 1 (T ''I'' 0 0xC008000)))))))) \<and>
   (esr_EC r = read_bits 64 esr_el1_t_fields ''EC'' r) \<and>
   (esr_ISS r = read_bits 64 esr_el1_t_fields ''ISS'' r) \<and>
   (ucast (lcrh_value l) =
     (let T = write_bits 8 uart_lcrh_reg_bits_fields in
      T ''WLEN'' (ucast (WLEN l)) (T ''STP2'' (of_bool (STP2 l)) 0))) \<and>
   (ucast (cr_value c) =
     (let T = write_bits 8 uart_cr_reg_bits_fields in
      T ''rxe'' (of_bool (rxe c)) (T ''txe'' (of_bool (txe c)) (T ''uarten'' (of_bool (uarten c)) 0)))) \<and>
   (TXFF f = (read_bits 16 uart_flag_reg_fields ''TXFF'' (ucast f) = 1))"
proof (intro conjI, goal_cases)
  case 1
  show ?case by (simp add: tf_link_def write_bits_def table_fields)
next
  case 2
  show ?case by (simp add: bd_l3_def write_bits_def table_fields)
next
  case 3
  show ?case by (simp add: bd_l2_def write_bits_def table_fields)
next
  case 4
  show ?case by (simp add: sctlr_boot_def write_bits_def control_fields)
next
  case 5
  show ?case by (simp add: esr_EC_def read_bits_def syndrome_fields get_field_def take_bit_eq_mask)
next
  case 6
  show ?case by (simp add: esr_ISS_def read_bits_def syndrome_fields get_field_def take_bit_eq_mask)
next
  case 7
  show ?case by (rule bit_word_eqI) (auto simp: lcrh_value_take write_bits_def uart_fields set_field_def bit_simps)
next
  case 8
  show ?case by (rule bit_word_eqI) (auto simp: cr_value_def write_bits_def uart_fields set_field_def bit_simps)
next
  case 9
  show ?case by (simp add: TXFF_def read_bits_def uart_fields get_field_bit bit_simps del: One_nat_def)
qed

subsection \<open>Table entries\<close>

lemma page_descriptor_word:
  assumes "low_flags flags"
  shows "page_descriptor pa flags is_dev = push_bit 12 (take_bit 36 (drop_bit 12 pa)) OR
     ucast (flags OR PT_ISH OR PT_AF OR (if is_dev = 1 then PT_DEV else PT_MEM)) OR 3 OR (if is_dev = 1 then PT_NX else 0)"
proof -
  have s: "(scast (PT_PAGE OR PT_ISH OR flags) :: u64) = 3 OR ucast PT_ISH OR ucast flags"
    using scast_low [OF low_flags_or [OF low_flags_consts(1) low_flags_or [OF low_flags_consts(2) assms]]]
    by (simp add: unsigned_or_eq PT_PAGE_def)
  have c: "(scast PT_DEV :: u64) = ucast PT_DEV" "(scast PT_AF :: u64) = ucast PT_AF"
    "(scast (PT_MEM OR PT_AF) :: u64) = ucast PT_MEM OR ucast PT_AF"
    by (simp_all add: PT_DEV_def PT_AF_def PT_MEM_def)
  have b: "bd_l3 0 pa = push_bit 12 (take_bit 36 (drop_bit 12 pa)) OR 1"
    by (rule bit_word_eqI) (auto simp: bd_l3_def set_field_def BD_OA_l3 bit_simps)
  show ?thesis unfolding page_descriptor_def s c b
    by (rule bit_word_eqI) (auto simp: unsigned_or_eq bit_or_iff bit_3 bit_1_iff)
qed

lemma low_flag_bits: "low_flags f \<Longrightarrow> bit (ucast f :: u64) n \<Longrightarrow> n < 12"
  by (metis scast_low bit_take_bit_iff)

text \<open>C17. Read as a level 3 block and page descriptor, the entry that \<open>page_table_map\<close> writes is valid, is a
  page, holds the frame number, and has as lower attributes the flags of the caller together with inner
  shareable, the access flag and the index of device memory for a device; of the upper attributes only the one
  that forbids execution by the process is set, and that only for a device.\<close>

theorem page_entry_fields:
  assumes "low_flags flags"
  shows "read_bits 64 block_page_l3_fields ''is_valid'' (page_descriptor pa flags is_dev) = 1 \<and>
     read_bits 64 block_page_l3_fields ''is_link'' (page_descriptor pa flags is_dev) = 1 \<and>
     read_bits 64 block_page_l3_fields ''oa'' (page_descriptor pa flags is_dev) = BD_OA_l3_get pa \<and>
     read_bits 64 block_page_l3_fields ''lower_attributes'' (page_descriptor pa flags is_dev) =
       drop_bit 2 (ucast (flags OR PT_ISH OR PT_AF OR (if is_dev = 1 then PT_DEV else PT_MEM))) \<and>
     read_bits 64 block_page_l3_fields ''upper_attributes'' (page_descriptor pa flags is_dev) =
       (if is_dev = 1 then drop_bit 2 (write_bits 16 block_page_upper_attr_fields ''uxn'' 1 0) else 0)"
proof -
  define g where "g = (ucast (flags OR PT_ISH OR PT_AF OR (if is_dev = 1 then PT_DEV else PT_MEM)) :: u64)"
  have g: "n < 12" if "bit g n" for n
    by (rule low_flag_bits [OF _ that [unfolded g_def]]) (use assms in \<open>simp add: low_flags_or low_flags_consts\<close>)
  have nx: "bit PT_NX n \<longleftrightarrow> n = 54" for n
    by (simp only: PT_NX_def bit_push_bit_iff) (auto simp: bit_1_iff)
  define x where "x = drop_bit 2 (write_bits 16 block_page_upper_attr_fields ''uxn'' 1 0)"
  have x: "bit x n \<longleftrightarrow> n = 4" for n
  proof -
    have "x = push_bit 4 1" by (simp add: x_def write_bits_def table_fields set_field_def)
    then show ?thesis by (simp only: bit_push_bit_iff) (auto simp: bit_1_iff)
  qed
  have W: "page_descriptor pa flags is_dev = push_bit 12 (take_bit 36 (drop_bit 12 pa)) OR g OR 3 OR
      (if is_dev = 1 then PT_NX else 0)"
    using page_descriptor_word [OF assms] by (simp add: g_def)
  have "get_field 12 36 (page_descriptor pa flags is_dev) = take_bit 36 (drop_bit 12 pa)"
    unfolding W by (rule bit_word_eqI) (auto simp: get_field_def bit_simps bit_3 nx dest: g)
  moreover have "get_field 2 10 (page_descriptor pa flags is_dev) = drop_bit 2 g"
    unfolding W by (rule bit_word_eqI) (auto simp: get_field_def bit_simps bit_3 nx dest: g)
  moreover have "get_field 50 14 (page_descriptor pa flags is_dev) = (if is_dev = 1 then x else 0)"
    unfolding W by (rule bit_word_eqI) (auto simp: get_field_def bit_simps bit_3 nx x dest: g)
  moreover have "bit (page_descriptor pa flags is_dev) 0" "bit (page_descriptor pa flags is_dev) 1"
    unfolding W by (simp_all add: bit_or_iff bit_3)
  ultimately show ?thesis
    by (simp add: read_bits_def table_fields get_field_bit BD_OA_l3 g_def x_def del: One_nat_def)
qed

theorem page_entry_fields_witness:
  "read_bits 64 block_page_l3_fields ''is_valid'' (page_descriptor 0x40200000 PT_USER 0) = 1 \<and>
   read_bits 64 block_page_l3_fields ''is_link'' (page_descriptor 0x40200000 PT_USER 0) = 1 \<and>
   read_bits 64 block_page_l3_fields ''oa'' (page_descriptor 0x40200000 PT_USER 0) = BD_OA_l3_get 0x40200000 \<and>
   read_bits 64 block_page_l3_fields ''lower_attributes'' (page_descriptor 0x40200000 PT_USER 0) =
     drop_bit 2 (ucast (PT_USER OR PT_ISH OR PT_AF OR (if (0 :: c_int) = 1 then PT_DEV else PT_MEM))) \<and>
   read_bits 64 block_page_l3_fields ''upper_attributes'' (page_descriptor 0x40200000 PT_USER 0) =
     (if (0 :: c_int) = 1 then drop_bit 2 (write_bits 16 block_page_upper_attr_fields ''uxn'' 1 0) else 0)"
  by (rule page_entry_fields) (simp add: low_flags_consts)

text \<open>
  \<open>block_page_lower_attr\<close>, which nothing uses, has one bit too few for the memory attributes, so that its
  fields lie one bit below the ones of the entries that the kernel writes; so do two syndromes.
\<close>

lemma misplaced_fields:
  "bits_at 16 block_page_lower_attr_fields ''af'' = Some (9, 1)" "PT_AF = push_bit 10 1"
  "bits_at 16 iss_serror_interrupt_fields ''ids'' = Some (25, 1)"
  "bits_at 32 iss_sw_step_exception_fields ''isv'' = Some (25, 1)"
  by code_simp+

subsection \<open>Translation control\<close>

definition translation_config :: "(string \<times> u64) list" where
  "translation_config =
    [(''T0SZ'', 16), (''IRGN0'', 1), (''ORGN0'', 1), (''SH0'', 3), (''T1SZ'', 16), (''IRGN1'', 1),
     (''ORGN1'', 1), (''SH1'', 3), (''TG1'', 2), (''IPS'', 4)]"

text \<open>C28. \<open>configure_translation\<close> sets, in the fields of the translation control register, the address
  size 16, write-back inner shareable walks, and granules of 4 kB for both halves, and the output
  size 4; what the register had is or-ed into them, and all the other fields keep it. The
  roots of the two tables are the static ones.\<close>

theorem translation_config_fields:
  assumes "bits_at 64 TCR_EL1_table_fields f = Some (p, n)"
  shows "read_bits 64 TCR_EL1_table_fields f (TCR_EL1 (configure_translation lower realm r)) =
      (case map_of translation_config f of None \<Rightarrow> 0 | Some v \<Rightarrow> v) OR read_bits 64 TCR_EL1_table_fields f (TCR_EL1 r) \<and>
     TTBR0_EL1 (configure_translation lower realm r) = st_PGD lower \<and>
     TTBR1_EL1 (configure_translation lower realm r) = st_PGD realm"
proof -
  let ?c = "push_bit 32 0b100 OR push_bit 30 0b10 OR push_bit 28 0b11 OR push_bit 26 0b01 OR push_bit 24 0b01 OR
      push_bit 16 16 OR push_bit 12 0b11 OR push_bit 10 0b01 OR push_bit 8 0b01 OR 16 :: u64"
  have "list_all (\<lambda>(f, w). read_bits 64 TCR_EL1_table_fields f ?c =
      (case map_of translation_config f of None \<Rightarrow> 0 | Some v \<Rightarrow> v)) TCR_EL1_table_fields"
    by code_simp
  then have "read_bits 64 TCR_EL1_table_fields f ?c = (case map_of translation_config f of None \<Rightarrow> 0 | Some v \<Rightarrow> v)"
    using bits_at_name [OF assms] by (auto simp: list_all_iff)
  moreover have "TCR_EL1 (configure_translation lower realm r) = ?c OR TCR_EL1 r"
    by (simp add: configure_translation_def Let_def ac_simps)
  ultimately show ?thesis
    by (simp only: read_bits_or) (simp add: configure_translation_def Let_def)
qed

definition ex_lower :: static_tables where
  "ex_lower = \<lparr>st_PGD = 0x40100000, st_PUD = 0x40101000, st_PMD = 0x40102000, st_PT3 = 0x40103000\<rparr>"
definition ex_realm :: static_tables where
  "ex_realm = \<lparr>st_PGD = 0x40200000, st_PUD = 0x40201000, st_PMD = 0x40202000, st_PT3 = 0x40203000\<rparr>"
definition ex_regs :: translation_regs where
  "ex_regs = \<lparr>MAIR_EL1 = 0, TCR_EL1 = 0x2000000000, TTBR0_EL1 = 0, TTBR1_EL1 = 0\<rparr>"

theorem translation_config_fields_witness:
  "read_bits 64 TCR_EL1_table_fields ''T1SZ'' (TCR_EL1 (configure_translation ex_lower ex_realm ex_regs)) =
      (case map_of translation_config ''T1SZ'' of None \<Rightarrow> 0 | Some v \<Rightarrow> v) OR
      read_bits 64 TCR_EL1_table_fields ''T1SZ'' (TCR_EL1 ex_regs) \<and>
     TTBR0_EL1 (configure_translation ex_lower ex_realm ex_regs) = st_PGD ex_lower \<and>
     TTBR1_EL1 (configure_translation ex_lower ex_realm ex_regs) = st_PGD ex_realm"
  by (rule translation_config_fields [of _ 16 6]) code_simp

end
