(* ===== verification/Macros.thy ===== *)
theory Macros
  imports PageTable
begin

text \<open>
  Macros of \<open>defines.h\<close> for parts of addresses and descriptors, and the fault status codes of
  \<open>exception_defines.h\<close>. The code uses some of them only in this header; they are here because the
  structures with bit fields (\<^theory_text>\<open>Registers\<close>) and the page tables describe the same bits.
\<close>

subsection \<open>Parts of an address\<close>

definition MASK_VA :: "u64 \<Rightarrow> nat \<Rightarrow> u64 \<Rightarrow> u64" where
  "MASK_VA address shift msk = drop_bit shift address AND msk"

definition OA_48_L0 :: "u64 \<Rightarrow> u64" where "OA_48_L0 address = MASK_VA address 39 0x1FF"
definition OA_48_L1 :: "u64 \<Rightarrow> u64" where "OA_48_L1 address = MASK_VA address 30 0x1FF"
definition OA_48_L2 :: "u64 \<Rightarrow> u64" where "OA_48_L2 address = MASK_VA address 21 0x1FF"
definition OA_48_L3 :: "u64 \<Rightarrow> u64" where "OA_48_L3 address = MASK_VA address 12 0x1FF"

definition V48_GET_L3_OFFSET :: "u64 \<Rightarrow> u64" where "V48_GET_L3_OFFSET address = drop_bit 12 address AND 0x1FF"

text \<open>The logical \<open>&&\<close> where a single bit is meant.\<close>

definition V48_GET_SECURE_BIT :: "u64 \<Rightarrow> c_int" where
  "V48_GET_SECURE_BIT address = (if drop_bit 47 address \<noteq> 0 then 1 else 0)"

definition SHARE_RAM_PA :: "u64 \<Rightarrow> u64" where "SHARE_RAM_PA address = address OR 0x0001000000000000"
definition UNSHARE_RAM_PA :: "u64 \<Rightarrow> u64" where "UNSHARE_RAM_PA address = address AND 0xFFFEFFFFFFFFFFFF"

text \<open>The four indices and the offset in the page make up a 48-bit address.\<close>

lemma take_bit_split: "take_bit (k + m) a = push_bit k (take_bit m (drop_bit k a)) OR take_bit k (a :: u64)"
  by (rule bit_word_eqI) (auto simp: bit_simps)

lemma OA_48_address:
  "take_bit 48 a = push_bit 39 (OA_48_L0 a) OR push_bit 30 (OA_48_L1 a) OR push_bit 21 (OA_48_L2 a) OR
     push_bit 12 (OA_48_L3 a) OR take_bit 12 a"
proof -
  have m: "(0x1FF :: u64) = mask 9" by (simp add: mask_eq_exp_minus_1)
  show ?thesis
    using take_bit_split [of 39 9 a] take_bit_split [of 30 9 a] take_bit_split [of 21 9 a] take_bit_split [of 12 9 a]
    unfolding OA_48_L0_def OA_48_L1_def OA_48_L2_def OA_48_L3_def MASK_VA_def m
    by (simp add: take_bit_eq_mask [symmetric] or.assoc)
qed

lemma OA_48_VA_OFFSET:
  "OA_48_L0 a = VA_OFFSET_48_L0 a" "OA_48_L1 a = VA_OFFSET_48_L1 a" "OA_48_L2 a = VA_OFFSET_48_L2 a"
  "OA_48_L3 a = VA_OFFSET_48_L3 a" "V48_GET_L3_OFFSET a = VA_OFFSET_48_L3 a"
  by (simp_all add: OA_48_L0_def OA_48_L1_def OA_48_L2_def OA_48_L3_def MASK_VA_def V48_GET_L3_OFFSET_def
      VA_OFFSET_48_L0_def VA_OFFSET_48_L1_def VA_OFFSET_48_L2_def VA_OFFSET_48_L3_def)

lemma unshare_share: "UNSHARE_RAM_PA (SHARE_RAM_PA a) = UNSHARE_RAM_PA a"
  and unshare_private: "\<not> bit a 48 \<Longrightarrow> UNSHARE_RAM_PA a = a"
proof -
  have e: "(0x0001000000000000 :: u64) = 2 ^ 48" "(0xFFFEFFFFFFFFFFFF :: u64) = NOT (2 ^ 48)" by simp_all
  show "UNSHARE_RAM_PA (SHARE_RAM_PA a) = UNSHARE_RAM_PA a"
    unfolding UNSHARE_RAM_PA_def SHARE_RAM_PA_def e by (rule bit_word_eqI) (simp only: bit_simps, blast)
  show "UNSHARE_RAM_PA a = a" if "\<not> bit a 48"
    unfolding UNSHARE_RAM_PA_def e by (rule bit_word_eqI) (use that in \<open>simp only: bit_simps, auto\<close>)
qed

subsection \<open>Parts of a descriptor\<close>

definition BD_OA_l0_get :: "u64 \<Rightarrow> u64" where "BD_OA_l0_get e = drop_bit 39 e AND 0x1FF"
definition BD_OA_l0_set :: "u64 \<Rightarrow> u64 \<Rightarrow> u64" where "BD_OA_l0_set e v = e OR push_bit 39 (v AND 0x1FF)"
definition BD_OA_l1_get :: "u64 \<Rightarrow> u64" where "BD_OA_l1_get e = drop_bit 30 e AND 0x3FFFF"
definition BD_OA_l1_set :: "u64 \<Rightarrow> u64 \<Rightarrow> u64" where "BD_OA_l1_set e v = e OR push_bit 30 (v AND 0x3FFFF)"
definition BD_OA_l2_set :: "u64 \<Rightarrow> u64 \<Rightarrow> u64" where "BD_OA_l2_set e v = e OR push_bit 21 (v AND 0x7FFFFFF)"
definition BD_OA_l3_set :: "u64 \<Rightarrow> u64 \<Rightarrow> u64" where "BD_OA_l3_set e v = e OR push_bit 12 (v AND 0x0FFFFFFFFF)"
definition BD_UA_get :: "u64 \<Rightarrow> u64" where "BD_UA_get e = drop_bit 49 e"
definition BD_UA_set :: "u64 \<Rightarrow> u64 \<Rightarrow> u64" where "BD_UA_set e v = push_bit 49 (drop_bit 49 e OR (v AND 0x3FFF))"
definition BD_LA_get :: "u64 \<Rightarrow> u64" where "BD_LA_get e = drop_bit 2 e AND 0x3FF"
definition BD_LA_set :: "u64 \<Rightarrow> u64 \<Rightarrow> u64" where "BD_LA_set e v = push_bit 2 (v AND 0x3FF) OR e"

lemma mask_numerals:
  "(0x1FF :: u64) = mask 9" "(0x3FFFF :: u64) = mask 18" "(0x7FFFFFF :: u64) = mask 27"
  "(0x0FFFFFFFFF :: u64) = mask 36" "(0x3FFF :: u64) = mask 14" "(0x3FF :: u64) = mask 10"
  by (simp_all add: mask_eq_exp_minus_1)

text \<open>A value is added to the bits that are there, so that it is read back from a cleared field only.\<close>

lemma BD_get_set:
  "BD_OA_l0_get (BD_OA_l0_set e v) = BD_OA_l0_get e OR take_bit 9 v"
  "BD_OA_l1_get (BD_OA_l1_set e v) = BD_OA_l1_get e OR take_bit 18 v"
  "BD_OA_l2_get (BD_OA_l2_set e v) = BD_OA_l2_get e OR take_bit 27 v"
  "BD_OA_l3_get (BD_OA_l3_set e v) = BD_OA_l3_get e OR take_bit 36 v"
  "BD_UA_get (BD_UA_set e v) = BD_UA_get e OR take_bit 14 v"
  "BD_LA_get (BD_LA_set e v) = BD_LA_get e OR take_bit 10 v"
  unfolding BD_OA_l0_get_def BD_OA_l0_set_def BD_OA_l1_get_def BD_OA_l1_set_def BD_OA_l2_get_def BD_OA_l2_set_def
    BD_OA_l3_get_def BD_OA_l3_set_def BD_UA_get_def BD_UA_set_def BD_LA_get_def BD_LA_set_def mask_numerals
  by (rule bit_word_eqI, auto simp: bit_simps dest: bit_imp_le_length)+

text \<open>Setting the upper attributes clears everything below them.\<close>

lemma BD_UA_set_clears: "take_bit 49 (BD_UA_set e v) = 0"
  by (rule bit_word_eqI) (auto simp: BD_UA_set_def bit_simps)

subsection \<open>Fault status codes\<close>

definition ISS_IST_IFSC :: "(string \<times> u8) list" where
  "ISS_IST_IFSC =
    [(''ADRSZ_L0'', 0b000000), (''ADRSZ_L1'', 0b000001), (''ADRSZ_L2'', 0b000010), (''ADRSZ_L3'', 0b000011),
     (''ADRTF_L0'', 0b000100), (''ADRTF_L1'', 0b000101), (''ADRTF_L2'', 0b000110), (''ADRTF_L3'', 0b000111),
     (''AFF_L0'', 0b001000), (''AFF_L1'', 0b001001), (''AFF_L2'', 0b001010), (''AFF_L3'', 0b001011),
     (''PERMF_L0'', 0b001100), (''PERMF_L1'', 0b001101), (''PERMF_L2'', 0b001110), (''PERMF_L3'', 0b001111),
     (''SEA_ntl'', 0b010000), (''SEA_tl'', 0b010011), (''SEA_tl0'', 0b010100), (''SEA_tl1'', 0b010101),
     (''SEA_tl2'', 0b010110), (''SEA_tl3'', 0b010111), (''SP_ECC_N'', 0b011000), (''SP_ECC'', 0b011011),
     (''SP_ECC_tl0'', 0b011100), (''SP_ECC_tl1'', 0b011101), (''SP_ECC_tl2'', 0b011110), (''SP_ECC_tl3'', 0b011111),
     (''ADR_SZF'', 0b101001), (''ADR_SZF_'', 0b101011), (''TLB_ABRT'', 0b110000), (''ATOMIC'', 0b110001)]"

text \<open>The codes are all different and fit the field of six bits.\<close>

lemma IFSC_distinct: "distinct (map snd ISS_IST_IFSC)" "distinct (map fst ISS_IST_IFSC)" "list_all (\<lambda>(_, c). c < 64) ISS_IST_IFSC"
  by code_simp+

end
