(* ===== verification/Boot_Safety.thy ===== *)
theory Boot_Safety
  imports Boot Frame_Safety Vma_Safety
begin

text \<open>
  Start-up and scheduling: the frames of the kernel heap are reserved before any frame is handed
  out, \<open>debug_log_message\<close> copies past the end of its message, and \<open>schedule\<close> hands the processor to
  the first process that is ready, or to none for ever.
\<close>

subsection \<open>Frames of the kernel heaps\<close>

text \<open>An allocator that has just been set up, and the reservation of its first \<open>h\<close> frames.\<close>

lemma fixed_bytes:
  assumes "kf_wf fa" and "unat h \<le> unat (frame_count fa)"
    and "kframe_allocate_fixed m fa (frame_start fa) h = (r, m', fa')" and "x \<notin> bitmap_area fa"
  shows "m' x = m x"
proof -
  have far: "\<not> unat (x - bitmap_frame fa) < unat h" using assms(2,4) by (simp add: bitmap_area_def)
  obtain m1 fa1 where mark: "kf_mark m fa (of_nat 0) h = (m1, fa1)" by force
  have k: "0 + unat h \<le> unat (frame_count fa)" using assms(2) by simp
  have "m1 x = m x" using kf_mark_free_set(3) [OF assms(1) k mark, of x] far by simp
  then show ?thesis using assms(3) mark by (auto simp: kframe_allocate_fixed_def Let_def split: if_splits)
qed

lemma first_frames_reserved:
  assumes fa: "kf_inv m fa" "kf_free_set m fa = {..<unat (frame_count fa)}" and h: "unat h \<le> unat (frame_count fa)"
  obtains m2 where "kframe_allocate_fixed m fa (frame_start fa) h =
      (frame_start fa, m2, fa\<lparr>available_frame_count := available_frame_count fa - h\<rparr>)"
    "kf_inv m2 (fa\<lparr>available_frame_count := available_frame_count fa - h\<rparr>)"
    "kf_free_set m2 (fa\<lparr>available_frame_count := available_frame_count fa - h\<rparr>) = {unat h..<unat (frame_count fa)}"
    "\<forall>x. x \<notin> bitmap_area fa \<longrightarrow> m2 x = m x"
proof -
  have wf: "kf_wf fa" using fa(1) by (simp add: kf_inv_def)
  have run: "kf_run m fa (unat h) 0"
    unfolding kf_run_def
  proof (intro conjI allI impI)
    fix j assume "j < unat h"
    then have "j \<in> kf_free_set m fa" using fa(2) h by simp
    then show "kf_free_at m fa (0 + j)" by (simp add: kf_free_set_def)
  qed (use h in simp)
  have le: "0 + unat h \<le> unat (frame_count fa)" using h by simp
  have z: "kf_addr fa 0 = frame_start fa" by (simp add: kf_addr_def)
  obtain m2 where A: "kframe_allocate_fixed m fa (frame_start fa) h =
      (frame_start fa, m2, fa\<lparr>available_frame_count := available_frame_count fa - h\<rparr>)"
    "kf_inv m2 (fa\<lparr>available_frame_count := available_frame_count fa - h\<rparr>)"
    "kf_free_set m2 fa = kf_free_set m fa - {0..<0 + unat h}"
    using kf_fixed_cases(1) [OF fa(1) le run] unfolding z by blast
  have "{..<n} - {0..<0 + l} = {l..<n}" for n l :: nat by auto
  then have "kf_free_set m2 (fa\<lparr>available_frame_count := available_frame_count fa - h\<rparr>) = {unat h..<unat (frame_count fa)}"
    using A(3) fa(2) by (simp only: kf_free_set_avail)
  then show ?thesis using that A(1,2) fixed_bytes [OF wf h A(1)] by blast
qed

text \<open>A frame handed out after that lies behind the first \<open>h\<close>.\<close>

lemma frame_behind:
  fixes h :: u64
  assumes inv: "kf_inv m fa" and free: "kf_free_set m fa = {unat h..<unat (frame_count fa)}"
    and r: "kframe_allocate_range m fa 1 = (r, m3, fa3)"
  shows "r = -1 \<or> unat (frame_start fa) + unat h * 4096 \<le> unat r"
proof (rule kf_range1_cases [OF inv])
  have wf: "kf_wf fa" using inv by (simp add: kf_inv_def)
  fix i m' assume i: "kframe_allocate_range m fa 1 = (kf_addr fa i, m', fa\<lparr>available_frame_count := available_frame_count fa - 1\<rparr>)"
    "i \<in> kf_free_set m fa"
  then have "unat h \<le> i" "i \<le> unat (frame_count fa)" using free by auto
  then show ?thesis using i(1) r unat_kf_addr [OF wf, of i] by simp
qed (use r in simp)

definition shared_frames_start :: "linker_symbols \<Rightarrow> kst \<Rightarrow> u64" where
  "shared_frames_start y s = (SHARED_NS_MEMORY_START y - KERNEL_VA_BASE + pa_base s) OR get_shared_bit s"

definition private_frames_start :: "linker_symbols \<Rightarrow> kst \<Rightarrow> u64" where
  "private_frames_start y s = SHARED_NS_MEMORY_END y - KERNEL_VA_BASE + pa_base s"

text \<open>
  A kernel that runs at \<open>KERNEL_VA_BASE\<close>, with both regions in one piece of the address space, bitmaps with a byte
  for every frame that do not overlap, and enough private memory for the heap.
\<close>

definition memory_plan :: "linker_symbols \<Rightarrow> kst \<Rightarrow> bool" where
  "memory_plan y s \<longleftrightarrow>
     (let shared = PAGE_UP (SHARED_NS_MEMORY_END y - SHARED_NS_MEMORY_START y);
          private = PAGE_UP (ram_end y - SHARED_NS_MEMORY_END y);
          shared_bits = PAGE_UP (BITMAP_NS_END y - BITMAP_NS_START y);
          private_bits = PAGE_UP (BITMAP_END y - BITMAP_START y)
      in binary_start y = KERNEL_VA_BASE \<and>
         PAGE_UP (SHARED_NS_MEMORY_END y - KERNEL_VA_BASE) = SHARED_NS_MEMORY_END y - KERNEL_VA_BASE \<and>
         shared \<noteq> 0 \<and> unat (shared_frames_start y s) + unat shared < 18446744073709551616 \<and>
         SHARED_NS_MEMORY_END y - SHARED_NS_MEMORY_START y \<le> shared \<and>
         KERNEL_HEAP_SIZE \<le> private \<and> unat (private_frames_start y s) + unat private < 18446744073709551616 \<and>
         shared div KFRAME_SIZE \<le> shared_bits \<and> private div KFRAME_SIZE \<le> private_bits \<and>
         (\<forall>x. unat (x - BITMAP_START y) < unat private_bits \<longrightarrow> \<not> unat (x - BITMAP_NS_START y) < unat (shared div KFRAME_SIZE)))"

text \<open>Both allocators right after they have been set up: every frame is free.\<close>

lemma frames_set_up:
  fixes y :: linker_symbols and s :: kst
  defines "s1 \<equiv> enable_private_frames y (enable_shared_frames y s)"
    and "shared \<equiv> PAGE_UP (SHARED_NS_MEMORY_END y - SHARED_NS_MEMORY_START y)"
    and "private \<equiv> PAGE_UP (ram_end y - SHARED_NS_MEMORY_END y)"
  assumes plan: "memory_plan y s"
  shows "pa_base s1 = pa_base s \<and> get_shared_bit s1 = get_shared_bit s \<and>
    (let fa = insecure_frames (ks s1) in kf_inv (bytes s1) fa \<and> kf_free_set (bytes s1) fa = {..<unat (frame_count fa)} \<and>
       frame_start fa = shared_frames_start y s \<and> frame_count fa = shared div KFRAME_SIZE \<and> bitmap_frame fa = BITMAP_NS_START y) \<and>
    (let fa = secure_frames (ks s1) in kf_inv (bytes s1) fa \<and> kf_free_set (bytes s1) fa = {..<unat (frame_count fa)} \<and>
       frame_start fa = private_frames_start y s \<and> frame_count fa = private div KFRAME_SIZE \<and> bitmap_frame fa = BITMAP_START y)"
proof -
  define sbits where "sbits = PAGE_UP (BITMAP_NS_END y - BITMAP_NS_START y)"
  define pbits where "pbits = PAGE_UP (BITMAP_END y - BITMAP_START y)"
  have P: "binary_start y = KERNEL_VA_BASE" "shared \<noteq> 0" "unat (shared_frames_start y s) + unat shared < 18446744073709551616"
    "KERNEL_HEAP_SIZE \<le> private" "unat (private_frames_start y s) + unat private < 18446744073709551616"
    "shared div KFRAME_SIZE \<le> sbits" "private div KFRAME_SIZE \<le> pbits"
    and sep: "\<forall>x. unat (x - BITMAP_START y) < unat pbits \<longrightarrow> \<not> unat (x - BITMAP_NS_START y) < unat (shared div KFRAME_SIZE)"
    using plan unfolding memory_plan_def Let_def by (simp_all add: shared_def private_def sbits_def pbits_def)
  have dn: "PAGE_DOWN (binary_start y) = KERNEL_VA_BASE" by (simp add: P(1) KERNEL_VA_BASE_def PAGE_DOWN_def)
  have "private \<noteq> 0" using P(4) by (auto simp: KERNEL_HEAP_SIZE_def)
  define m0 where "m0 = snd (memset (snd (memset (bytes s) (BITMAP_START y) 0 0x4000)) (BITMAP_NS_START y) 0 0x4000)"
  define fa0 where "fa0 = insecure_frames (ks s)"
  obtain m1 fa1 where I1: "kframe_allocator_init m0 fa0 (BITMAP_NS_START y) sbits (shared_frames_start y s) shared = (1, m1, fa1)"
      "kf_inv m1 fa1" "kf_free_set m1 fa1 = {..<unat shared div 4096}"
    using kf_init_all_free_aux [OF P(2,3,6), of m0 fa0 "BITMAP_NS_START y"] by blast
  obtain m2 fa2 where I2: "kframe_allocator_init m1 (secure_frames (ks s)) (BITMAP_START y) pbits (private_frames_start y s) private = (1, m2, fa2)"
      "kf_inv m2 fa2" "kf_free_set m2 fa2 = {..<unat private div 4096}"
    using kf_init_all_free_aux [OF \<open>private \<noteq> 0\<close> P(5,7), of m1 "secure_frames (ks s)" "BITMAP_START y"] by blast
  note R1 = kf_init_result [OF I1(1)] and R2 = kf_init_result [OF I2(1)]
  define sA where "sA = enable_shared_frames y s"
  have A: "bytes sA = m1" "insecure_frames (ks sA) = fa1" "secure_frames (ks sA) = secure_frames (ks s)"
    "pa_base sA = pa_base s" "get_shared_bit sA = get_shared_bit s"
    using I1(1) by (simp_all add: sA_def enable_shared_frames_def Let_def dn m0_def fa0_def sbits_def shared_def
        kframe_allocator_init_insecure_def shared_frames_start_def get_shared_bit_def)
  have B: "bytes s1 = m2" "insecure_frames (ks s1) = fa1" "secure_frames (ks s1) = fa2" "pa_base s1 = pa_base s"
    "get_shared_bit s1 = get_shared_bit s"
    using I2(1) A by (simp_all add: s1_def sA_def [symmetric] enable_private_frames_def Let_def dn pbits_def private_def
        kframe_allocator_init_secure_def private_frames_start_def get_shared_bit_def)
  have "\<forall>x \<in> bitmap_area fa1. m2 x = m1 x" using sep by (auto simp: bitmap_area_def R1(2,4) R2(7))
  from kf_cong(1) [OF this] kf_cong(3) [OF this] have "kf_inv m2 fa1" "kf_free_set m2 fa1 = {..<unat shared div 4096}"
    using I1(2,3) by simp_all
  then show ?thesis using B I2(2,3) R1(2-4) R2(2-4) by (simp add: Let_def unat_div KFRAME_SIZE_def)
qed

text \<open>C12. Right after the two frame allocators are set up, \<open>enable_mmap\<close> reserves frames for the two heaps: in the
  shared region as many whole frames as the first half of it has, and in private memory the first 16 MB, whatever
  is written to the tables in between. Both reservations succeed at the physical addresses of the heaps, the frames left
  free are exactly the ones behind them, in both allocators, and so the next frame that is handed out by
  either lies behind the reserved ones.\<close>

theorem heap_frames_reserved:
  fixes y :: linker_symbols and s :: kst and w :: wordmem
  defines "s1 \<equiv> enable_private_frames y (enable_shared_frames y s)"
  defines "k \<equiv> enable_bounds y (ks s1)" and "n \<equiv> (SHARED_NS_MEMORY_END y - SHARED_NS_MEMORY_START y) div 2 div PAGE_SIZE_4KB"
  assumes plan: "memory_plan y s"
  shows "\<exists>s2 s3. kframe_allocate_fixed_insecure ((shared_heap_start k - KERNEL_VA_BASE + pa_base s1) OR get_shared_bit s1)
             (shared_heap_size k div PAGE_SIZE_4KB) (s1\<lparr>ks := k\<rparr>) = (shared_frames_start y s, s2) \<and>
           kframe_allocate_fixed_secure (heap_start k - KERNEL_VA_BASE + pa_base s1) (heap_size k div PAGE_SIZE_4KB)
             (s2\<lparr>cells := w\<rparr>) = (private_frames_start y s, s3) \<and>
           kf_free_set (bytes s3) (insecure_frames (ks s3)) = {unat n..<unat (frame_count (insecure_frames (ks s3)))} \<and>
           kf_free_set (bytes s3) (secure_frames (ks s3)) = {4096..<unat (frame_count (secure_frames (ks s3)))} \<and>
           (\<forall>r s4. kframe_allocate_insecure 0 1 s3 = (r, s4) \<longrightarrow> r = -1 \<or> unat (shared_frames_start y s) + unat n * 4096 \<le> unat r) \<and>
           (\<forall>r s4. kframe_allocate_secure 1 s3 = (r, s4) \<longrightarrow> r = -1 \<or> unat (private_frames_start y s) + 0x1000000 \<le> unat r)"
proof -
  define fi where "fi = insecure_frames (ks s1)"
  define fs where "fs = secure_frames (ks s1)"
  note U = frames_set_up [OF plan, folded s1_def, unfolded Let_def, folded fi_def fs_def]
  have F: "kf_inv (bytes s1) fi" "kf_free_set (bytes s1) fi = {..<unat (frame_count fi)}" "frame_start fi = shared_frames_start y s"
    "kf_inv (bytes s1) fs" "kf_free_set (bytes s1) fs = {..<unat (frame_count fs)}" "frame_start fs = private_frames_start y s"
    using U by blast+
  have sep: "bitmap_area fs \<inter> bitmap_area fi = {}"
    using U plan unfolding memory_plan_def Let_def bitmap_area_def word_le_nat_alt by force
  have P: "binary_start y = KERNEL_VA_BASE" "PAGE_UP (SHARED_NS_MEMORY_END y - KERNEL_VA_BASE) = SHARED_NS_MEMORY_END y - KERNEL_VA_BASE"
    "KERNEL_HEAP_SIZE \<le> PAGE_UP (ram_end y - SHARED_NS_MEMORY_END y)"
    "SHARED_NS_MEMORY_END y - SHARED_NS_MEMORY_START y \<le> PAGE_UP (SHARED_NS_MEMORY_END y - SHARED_NS_MEMORY_START y)"
    using plan unfolding memory_plan_def Let_def by blast+
  have k: "(shared_heap_start k - KERNEL_VA_BASE + pa_base s1) OR get_shared_bit s1 = shared_frames_start y s"
    "heap_start k - KERNEL_VA_BASE + pa_base s1 = private_frames_start y s"
    "shared_heap_size k div PAGE_SIZE_4KB = n" "heap_size k div PAGE_SIZE_4KB = 4096"
    "insecure_frames k = fi" "secure_frames k = fs"
    using U by (simp_all add: k_def enable_bounds_def Let_def P(1,2) shared_frames_start_def private_frames_start_def n_def
        KERNEL_HEAP_SIZE_def PAGE_SIZE_4KB_def fi_def fs_def)
  have h: "unat n \<le> unat (frame_count fi)" "unat (4096 :: u64) \<le> unat (frame_count fs)"
  proof -
    have "unat n = unat (SHARED_NS_MEMORY_END y - SHARED_NS_MEMORY_START y) div 2 div 4096"
      by (simp add: n_def PAGE_SIZE_4KB_def unat_div)
    moreover have "frame_count fi = PAGE_UP (SHARED_NS_MEMORY_END y - SHARED_NS_MEMORY_START y) div KFRAME_SIZE" using U by blast
    ultimately show "unat n \<le> unat (frame_count fi)" using P(4) by (simp add: KFRAME_SIZE_def unat_div word_le_nat_alt)
    have "frame_count fs = PAGE_UP (ram_end y - SHARED_NS_MEMORY_END y) div KFRAME_SIZE" using U by blast
    then show "unat (4096 :: u64) \<le> unat (frame_count fs)" 
      using P(3) by (simp add: KFRAME_SIZE_def KERNEL_HEAP_SIZE_def unat_div word_le_nat_alt)
  qed
  let ?fi = "fi\<lparr>available_frame_count := available_frame_count fi - n\<rparr>"
  let ?fs = "fs\<lparr>available_frame_count := available_frame_count fs - 4096\<rparr>"
  obtain m2 where S: "kframe_allocate_fixed (bytes s1) fi (shared_frames_start y s) n = (shared_frames_start y s, m2, ?fi)"
      "kf_inv m2 ?fi" "kf_free_set m2 ?fi = {unat n..<unat (frame_count fi)}" "\<forall>x. x \<notin> bitmap_area fi \<longrightarrow> m2 x = bytes s1 x"
    by (rule first_frames_reserved [OF F(1,2) h(1), unfolded F(3)])
  have "\<forall>x \<in> bitmap_area fs. m2 x = bytes s1 x" using S(4) sep by blast
  from kf_cong(1) [OF this] kf_cong(3) [OF this] have F2: "kf_inv m2 fs" "kf_free_set m2 fs = {..<unat (frame_count fs)}"
    using F(4,5) by simp_all
  obtain m3 where T: "kframe_allocate_fixed m2 fs (private_frames_start y s) 4096 = (private_frames_start y s, m3, ?fs)"
      "kf_inv m3 ?fs" "kf_free_set m3 ?fs = {unat (4096 :: u64)..<unat (frame_count fs)}" "\<forall>x. x \<notin> bitmap_area fs \<longrightarrow> m3 x = m2 x"
    by (rule first_frames_reserved [OF F2 h(2), unfolded F(6)])
  have "\<forall>x \<in> bitmap_area ?fi. m3 x = m2 x" using T(4) sep by (auto simp: bitmap_area_def)
  from kf_cong(1) [OF this] kf_cong(3) [OF this] have S3: "kf_inv m3 ?fi" "kf_free_set m3 ?fi = {unat n..<unat (frame_count ?fi)}"
    using S(2,3) by simp_all
  define s2 where "s2 = s1\<lparr>ks := k\<lparr>insecure_frames := ?fi\<rparr>, bytes := m2\<rparr>"
  define s3 where "s3 = s2\<lparr>cells := w, ks := (ks s2)\<lparr>secure_frames := ?fs\<rparr>, bytes := m3\<rparr>"
  have f3: "bytes s3 = m3" "insecure_frames (ks s3) = ?fi" "secure_frames (ks s3) = ?fs" by (simp_all add: s3_def s2_def)
  have "kframe_allocate_fixed_insecure (shared_frames_start y s) n (s1\<lparr>ks := k\<rparr>) = (shared_frames_start y s, s2)"
    using S(1) by (simp add: kframe_allocate_fixed_insecure_def k s2_def)
  moreover have "kframe_allocate_fixed_secure (private_frames_start y s) 4096 (s2\<lparr>cells := w\<rparr>) = (private_frames_start y s, s3)"
    using T(1) by (simp add: kframe_allocate_fixed_secure_def k s2_def s3_def)
  moreover have "r = -1 \<or> unat (shared_frames_start y s) + unat n * 4096 \<le> unat r" if "kframe_allocate_insecure 0 1 s3 = (r, s4)" for r s4
    using that frame_behind [OF S3] by (auto simp: kframe_allocate_insecure_def f3 F(3) split: prod.splits)
  moreover have "r = -1 \<or> unat (private_frames_start y s) + 0x1000000 \<le> unat r" if "kframe_allocate_secure 1 s3 = (r, s4)" for r s4
    using that frame_behind [OF T(2), of "4096 :: u64"] T(3) by (auto simp: kframe_allocate_secure_def f3 F(6) split: prod.splits)
  moreover have "kf_free_set (bytes s3) (insecure_frames (ks s3)) = {unat n..<unat (frame_count (insecure_frames (ks s3)))}"
    "kf_free_set (bytes s3) (secure_frames (ks s3)) = {4096..<unat (frame_count (secure_frames (ks s3)))}"
    using S3(2) T(3) by (simp_all only: f3) simp
  ultimately show ?thesis unfolding k by blast
qed

text \<open>A kernel of 4 MB, loaded at \<open>KERNEL_PA_BASE\<close>, in front of 32 MB of private memory.\<close>

definition ex_symbols :: linker_symbols where
  "ex_symbols = \<lparr>TEXT_START = 0xFFFFF00000000000, TEXT_END = 0xFFFFF00000040000, RO_START = 0xFFFFF00000040000,
     RO_END = 0xFFFFF00000044000, DATA_START = 0xFFFFF00000044000, DATA_END = 0xFFFFF00000048000,
     BSS_START = 0xFFFFF00000048000, BSS_END = 0xFFFFF00000050000, PAGE_TABLE_START = 0xFFFFF00000050000,
     PAGE_TABLE_END = 0xFFFFF000000F0000, BITMAP_NS_START = 0xFFFFF000000F0000, BITMAP_NS_END = 0xFFFFF000000F4000,
     BITMAP_START = 0xFFFFF000000F4000, BITMAP_END = 0xFFFFF000000F8000, SHARED_NS_MEMORY_START = 0xFFFFF00000200000,
     SHARED_NS_MEMORY_END = 0xFFFFF00000400000, binary_start = 0xFFFFF00000000000, binary_end = 0xFFFFF00000400000,
     ram_end = 0xFFFFF00002400000\<rparr>"

lemma ex_plan: "memory_plan ex_symbols zero_kst"
  unfolding memory_plan_def Let_def
proof (intro conjI allI impI)
  fix x :: u64
  assume "unat (x - BITMAP_START ex_symbols) < unat (PAGE_UP (BITMAP_END ex_symbols - BITMAP_START ex_symbols))"
  then have a: "unat (x - 0xFFFFF000000F4000) < 0x4000" by (simp add: ex_symbols_def PAGE_UP_def)
  have "x - 0xFFFFF000000F0000 = (x - 0xFFFFF000000F4000) + 0x4000" by simp
  then have "unat (x - 0xFFFFF000000F0000) = unat (x - 0xFFFFF000000F4000) + 0x4000"
    using a by (simp only:) (subst unat_add_nowrap, simp_all)
  then show "\<not> unat (x - BITMAP_NS_START ex_symbols) <
      unat (PAGE_UP (SHARED_NS_MEMORY_END ex_symbols - SHARED_NS_MEMORY_START ex_symbols) div KFRAME_SIZE)"
    by (simp add: ex_symbols_def PAGE_UP_def KFRAME_SIZE_def)
qed (simp_all add: ex_symbols_def KERNEL_VA_BASE_def PAGE_UP_def shared_frames_start_def private_frames_start_def zero_kst_def
      KERNEL_HEAP_SIZE_def KFRAME_SIZE_def get_shared_bit_def KERNEL_PA_BASE_def)

definition ex_boot :: kst where
  "ex_boot = enable_private_frames ex_symbols (enable_shared_frames ex_symbols zero_kst)"

theorem heap_frames_reserved_witness:
  "\<exists>s2 s3. kframe_allocate_fixed_insecure
       ((shared_heap_start (enable_bounds ex_symbols (ks ex_boot)) - KERNEL_VA_BASE + pa_base ex_boot) OR get_shared_bit ex_boot)
       (shared_heap_size (enable_bounds ex_symbols (ks ex_boot)) div PAGE_SIZE_4KB)
       (ex_boot\<lparr>ks := enable_bounds ex_symbols (ks ex_boot)\<rparr>) = (shared_frames_start ex_symbols zero_kst, s2) \<and>
     kframe_allocate_fixed_secure (heap_start (enable_bounds ex_symbols (ks ex_boot)) - KERNEL_VA_BASE + pa_base ex_boot)
       (heap_size (enable_bounds ex_symbols (ks ex_boot)) div PAGE_SIZE_4KB) (s2\<lparr>cells := (\<lambda>_. 7)\<rparr>) =
       (private_frames_start ex_symbols zero_kst, s3) \<and>
     kf_free_set (bytes s3) (insecure_frames (ks s3)) = {256..<unat (frame_count (insecure_frames (ks s3)))}"
  using heap_frames_reserved [OF ex_plan, where w = "\<lambda>_. 7", folded ex_boot_def]
  by (simp add: ex_symbols_def PAGE_SIZE_4KB_def) blast

subsection \<open>The debug buffer\<close>

lemma log_loop_result:
  "n \<le> 63 \<Longrightarrow> \<forall>i < n. ptr + of_nat i \<noteq> 0 \<Longrightarrow> \<forall>i < n. \<forall>j < n. ptr + of_nat i \<noteq> buf + of_nat (count + j + 1) \<Longrightarrow>
   count + n \<le> 63 \<Longrightarrow>
   \<forall>i < n. log_loop buf count n ptr m (buf + of_nat (count + i + 1)) = m (ptr + of_nat i)"
proof (induction n arbitrary: count ptr m)
  case (Suc n)
  let ?m = "m(buf + of_nat (count + 1) := m ptr)"
  have p: "ptr \<noteq> 0" using Suc.prems(2) [rule_format, of 0] by simp
  have keep: "log_loop buf c k q m' (buf + of_nat i) = m' (buf + of_nat i)" if "i \<le> c" "c + k \<le> 63" for c k q m' i
    using that
  proof (induction k arbitrary: c q m')
    case (Suc k)
    have "buf + of_nat i \<noteq> buf + of_nat (c + 1)"
    proof
      assume "buf + of_nat i = buf + of_nat (c + 1)"
      then have "(of_nat i :: u64) = of_nat (c + 1)" by (simp only: add_left_cancel)
      then show False using Suc.prems by (subst (asm) of_nat_eq_u64_iff) auto
    qed
    then show ?case using Suc.IH [of "Suc c"] Suc.prems by simp
  qed simp
  have IH: "\<forall>i < n. log_loop buf (Suc count) n (ptr + 1) ?m (buf + of_nat (Suc count + i + 1)) = ?m (ptr + 1 + of_nat i)"
  proof (rule Suc.IH)
    show "\<forall>i < n. ptr + 1 + of_nat i \<noteq> 0" using Suc.prems(2) by (auto simp: add.assoc dest: spec [of _ "Suc _"])
    show "\<forall>i < n. \<forall>j < n. ptr + 1 + of_nat i \<noteq> buf + of_nat (Suc count + j + 1)"
    proof (intro allI impI)
      fix i j assume "i < n" "j < n"
      then show "ptr + 1 + of_nat i \<noteq> buf + of_nat (Suc count + j + 1)"
        using Suc.prems(3) [rule_format, of "Suc i" "Suc j"] by (simp add: algebra_simps)
    qed
  qed (use Suc.prems in auto)
  show ?case
  proof (intro allI impI)
    fix i assume i: "i < Suc n"
    show "log_loop buf count (Suc n) ptr m (buf + of_nat (count + i + 1)) = m (ptr + of_nat i)"
    proof (cases i)
      case 0
      then show ?thesis using p keep [of "count + 1" "Suc count" n "ptr + 1" ?m] Suc.prems(4) by simp
    next
      case (Suc j)
      then have "ptr + 1 + of_nat j \<noteq> buf + of_nat (count + 1)"
        using Suc.prems(3) [rule_format, of i 0] i by (simp add: algebra_simps)
      then show ?thesis using p IH [rule_format, of j] Suc i by (simp add: algebra_simps)
    qed
  qed
qed simp

text \<open>Whatever terminators the message holds, 63 bytes of it are copied.\<close>

lemma debug_log_overreads:
  assumes "msg \<noteq> 0" "m buf \<noteq> 1" "\<forall>i < 63. msg + of_nat i \<noteq> 0"
    and "\<forall>i < 63. \<forall>j < 63. msg + of_nat i \<noteq> buf + of_nat (j + 1)"
  shows "\<exists>m'. debug_log_message buf msg m = Some m' \<and> (\<forall>i < 63. m' (buf + of_nat (i + 1)) = m (msg + of_nat i))"
  using log_loop_result [of 63 msg buf 0 m] assms by (simp add: debug_log_message_def)

subsection \<open>The scheduler\<close>

abbreviation proc_list :: "(u64 \<Rightarrow> process) \<Rightarrow> u64 \<Rightarrow> u64 list \<Rightarrow> bool" where
  "proc_list st \<equiv> chain (\<lambda>q. proc_next (st q))"

lemma schedule_skips:
  "proc_list (procs s) t (xs @ y # ys) \<Longrightarrow> \<forall>x \<in> set xs. p_state (procs s x) \<noteq> READY \<Longrightarrow>
   schedule env t s = schedule env y s"
proof (induction xs arbitrary: t)
  case (Cons x xs)
  have "schedule env t s = schedule env (proc_next (procs s x)) s"
    using Cons.prems by (subst schedule.simps) auto
  then show ?case using Cons by simp
qed simp

lemma schedule_stuck_aux:
  "schedule env t s = Some r \<Longrightarrow> t \<in> S \<Longrightarrow> process_head (ks s) \<in> S \<Longrightarrow>
   \<forall>x \<in> S. x \<noteq> 0 \<longrightarrow> p_state (procs s x) \<noteq> READY \<and> proc_next (procs s x) \<in> S \<Longrightarrow> False"
proof (induction arbitrary: S rule: schedule.raw_induct [rotated, consumes 1])
  case (1 f env t s r)
  show ?case
  proof (cases "t = 0")
    case True
    with 1(2) have "f env (process_head (ks s)) s = Some r" by simp
    then show ?thesis using 1(1) 1(4,5) by blast
  next
    case False
    then have n: "p_state (procs s t) \<noteq> READY" "proc_next (procs s t) \<in> S" using 1(3,5) by auto
    with 1(2) False have "f env (proc_next (procs s t)) s = Some r" by simp
    then show ?thesis using 1(1) 1(4,5) n(2) by blast
  qed
qed

lemma find_split:
  "List.find P ps = Some t \<Longrightarrow> \<exists>xs ys. ps = xs @ t # ys \<and> (\<forall>x \<in> set xs. \<not> P x) \<and> P t"
proof (induction ps)
  case (Cons a ps)
  show ?case
  proof (cases "P a")
    case False
    then obtain xs ys where "ps = xs @ t # ys" "\<forall>x \<in> set xs. \<not> P x" "P t" using Cons by auto
    then show ?thesis using False by (intro exI [of _ "a # xs"] exI [of _ ys]) simp
  qed (use Cons in \<open>auto intro: exI [of _ "[]"]\<close>)
qed simp

lemma chain_closed: "chain nx p xs \<Longrightarrow> \<forall>x \<in> set xs. x \<noteq> 0 \<and> (nx x \<in> insert 0 (set xs))"
proof (induction xs arbitrary: p)
  case (Cons x xs)
  then show ?case by (cases xs) auto
qed simp

lemma schedule_result:
  assumes "proc_list (procs s) (process_head (ks s)) ps" and "\<forall>msg n s. console env msg n s = Some s"
  shows "schedule env (process_head (ks s)) s =
     (case List.find (\<lambda>t. p_state (procs s t) = READY) ps of
        None \<Rightarrow> None
      | Some t \<Rightarrow> Some (t, set_current_process t (upd_proc t (\<lambda>r. r\<lparr>p_state := RUNNING\<rparr>) s)))"
proof (cases "List.find (\<lambda>t. p_state (procs s t) = READY) ps")
  case None
  then have n: "\<forall>x \<in> set ps. p_state (procs s x) \<noteq> READY" by (simp add: find_None_iff)
  have "process_head (ks s) \<in> insert 0 (set ps)" using assms(1) by (cases ps) auto
  then have "schedule env (process_head (ks s)) s \<noteq> Some r" for r
    using schedule_stuck_aux [of env "process_head (ks s)" s r "insert 0 (set ps)"] chain_closed [OF assms(1)] n
    by auto
  then have "schedule env (process_head (ks s)) s = None"
    by (cases "schedule env (process_head (ks s)) s") blast+
  then show ?thesis using None by simp
next
  case (Some t)
  then obtain xs ys where ps: "ps = xs @ t # ys" "\<forall>x \<in> set xs. p_state (procs s x) \<noteq> READY" "p_state (procs s t) = READY"
    using find_split [OF Some] by blast
  have "schedule env (process_head (ks s)) s = schedule env t s"
    using schedule_skips assms(1) ps by blast
  moreover have "t \<noteq> 0" using chain_nonnull [OF assms(1)] ps by auto
  ultimately show ?thesis using Some ps(3) assms(2) by (subst (asm) (2) schedule.simps) (simp add: Let_def)
qed

text \<open>C27. When no process is ready, \<open>schedule\<close> hands the processor to none, ever; otherwise it hands it
  to the first ready process of the list, marked as running and as the current process, with nothing
  else changed.\<close>

theorem schedule_first_ready:
  assumes "proc_list (procs s) (process_head (ks s)) ps" and "\<forall>msg n s. console env msg n s = Some s"
  shows "schedule env (process_head (ks s)) s =
     (case List.find (\<lambda>t. p_state (procs s t) = READY) ps of
        None \<Rightarrow> None
      | Some t \<Rightarrow> Some (t, set_current_process t (upd_proc t (\<lambda>r. r\<lparr>p_state := RUNNING\<rparr>) s)))"
  using assms by (rule schedule_result)

text \<open>A console that takes every byte, and two processes of which the second is ready.\<close>

definition quiet_env :: machine where "quiet_env = ex_env\<lparr>con_port := quiet_port\<rparr>"

lemma quiet_console: "console quiet_env msg n s = Some s"
  by (simp add: console_def quiet_env_def quiet_sends)

definition ex_ready :: kst where
  "ex_ready = zero_kst\<lparr>ks := zero_ks\<lparr>process_head := 0x9000\<rparr>,
     procs := (\<lambda>_. zero_process)(0x9000 := zero_process\<lparr>proc_next := 0xA000\<rparr>,
       0xA000 := zero_process\<lparr>p_state := READY\<rparr>)\<rparr>"

theorem schedule_first_ready_witness:
  "schedule quiet_env (process_head (ks ex_ready)) ex_ready =
     (case List.find (\<lambda>t. p_state (procs ex_ready t) = READY) [0x9000, 0xA000] of
        None \<Rightarrow> None
      | Some t \<Rightarrow> Some (t, set_current_process t (upd_proc t (\<lambda>r. r\<lparr>p_state := RUNNING\<rparr>) ex_ready)))"
  by (rule schedule_first_ready) (simp_all add: quiet_console ex_ready_def zero_process_def)

end
