(* ===== verification/Process_Safety.thy ===== *)
theory Process_Safety
  imports Boot_Safety
begin

text \<open>
  The table of processes: the sessions in which processes are added (\<open>add_new_process\<close>) and scheduled,
  and what holds of the table in all of them; what a system call leaves of the process that makes it.
\<close>

subsection \<open>Adding a process\<close>

lemma proc_last_chain: "proc_list st p xs \<Longrightarrow> xs \<noteq> [] \<Longrightarrow> proc_last st p = Some (last xs)"
proof (induction xs arbitrary: p)
  case (Cons x xs)
  then show ?case by (cases xs) (auto simp: proc_last.simps [of st x])
qed simp

lemma add_new_process_appends:
  assumes "proc_list (procs s) (process_head (ks s)) ps" and "p \<noteq> 0" "p \<notin> set ps" "proc_next (procs s p) = 0"
    and "add_new_process p s = Some (n, s')"
  shows "n = next_pid (ks s) + 1" "next_pid (ks s') = n" "pid (procs s' p) = n"
    and "proc_list (procs s') (process_head (ks s')) (ps @ [p])"
    and "\<forall>q. q \<noteq> p \<longrightarrow> pid (procs s' q) = pid (procs s q)"
proof (atomize (full), goal_cases)
  case 1
  have upd: "chain (\<lambda>q. proc_next ((st(p := r)) q)) h xs = chain (\<lambda>q. proc_next (st q)) h xs"
    if "proc_next r = proc_next (st p)" for st :: "u64 \<Rightarrow> process" and r h xs
    by (rule chain_cong) (use that in simp)
  show ?case
  proof (cases "process_head (ks s) = 0")
    case True
    then have "ps = []" using assms(1) by (cases ps) auto
    then show ?thesis using assms(2,4,5) True
      by (auto simp: add_new_process_def Let_def upd_proc_def)
  next
    case False
    then have ne: "ps \<noteq> []" using assms(1) by (cases ps) auto
    let ?st = "set_proc_next (last ps) p (procs s)"
    have a: "proc_list ?st (process_head (ks s)) (ps @ [p])"
      by (rule prl.append_node [OF assms(1) ne assms(2-4)])
    have "s' = upd_proc p (\<lambda>r. r\<lparr>tid := n, pid := n\<rparr>) (s\<lparr>procs := ?st, ks := (ks s)\<lparr>next_pid := n\<rparr>\<rparr>)"
      "n = next_pid (ks s) + 1"
      using assms(2,5) False proc_last_chain [OF assms(1) ne] by (auto simp: add_new_process_def Let_def)
    then show ?thesis using a upd by (simp add: upd_proc_def set_proc_next_def)
  qed
qed

subsection \<open>Sessions\<close>

text \<open>
  From the empty table on, processes are added and the scheduler picks processes; the list is the order
  of addition. The console is one that leaves the state of the kernel alone.
\<close>

inductive proc_session :: "machine \<Rightarrow> kst \<Rightarrow> u64 list \<Rightarrow> bool" for env where
  empty: "process_head (ks s) = 0 \<Longrightarrow> next_pid (ks s) = 0 \<Longrightarrow> proc_session env s []"
| add: "proc_session env s ps \<Longrightarrow> p \<noteq> 0 \<Longrightarrow> p \<notin> set ps \<Longrightarrow> proc_next (procs s p) = 0 \<Longrightarrow>
    add_new_process p s = Some (n, s') \<Longrightarrow> proc_session env s' (ps @ [p])"
| run: "proc_session env s ps \<Longrightarrow> schedule env (process_head (ks s)) s = Some (t, s') \<Longrightarrow> proc_session env s' ps"
| ready: "proc_session env s ps \<Longrightarrow> proc_session env (upd_proc p (\<lambda>r. r\<lparr>p_state := READY\<rparr>) s) ps"

definition proc_table :: "kst \<Rightarrow> u64 list \<Rightarrow> bool" where
  "proc_table s ps \<longleftrightarrow> proc_list (procs s) (process_head (ks s)) ps \<and> next_pid (ks s) = of_nat (length ps) \<and>
     (\<forall>i < length ps. pid (procs s (ps ! i)) = of_nat (i + 1))"

lemma proc_table_state:
  "proc_table (upd_proc p (\<lambda>r. r\<lparr>p_state := v\<rparr>) s) ps = proc_table s ps"
proof -
  have "proc_list (procs (upd_proc p (\<lambda>r. r\<lparr>p_state := v\<rparr>) s)) h ps = proc_list (procs s) h ps" for h
    by (rule chain_cong) (simp add: upd_proc_def)
  moreover have "pid (procs (upd_proc p (\<lambda>r. r\<lparr>p_state := v\<rparr>) s) q) = pid (procs s q)"
    "ks (upd_proc p (\<lambda>r. r\<lparr>p_state := v\<rparr>) s) = ks s" for q
    by (simp_all add: upd_proc_def)
  ultimately show ?thesis by (simp add: proc_table_def)
qed

lemma proc_session_table:
  assumes "proc_session env s ps" and quiet: "\<forall>msg n s. console env msg n s = Some s"
  shows "proc_table s ps"
  using assms(1)
proof induction
  case (empty s)
  then show ?case by (simp add: proc_table_def)
next
  case (add s ps p n s')
  then have I: "proc_list (procs s) (process_head (ks s)) ps" "next_pid (ks s) = of_nat (length ps)"
    "\<forall>i < length ps. pid (procs s (ps ! i)) = of_nat (i + 1)"
    by (simp_all add: proc_table_def)
  note A = add_new_process_appends [OF I(1) add.hyps(2-5)]
  have "pid (procs s' ((ps @ [p]) ! i)) = of_nat (i + 1)" if "i < length (ps @ [p])" for i
  proof (cases "i < length ps")
    case True
    then have "ps ! i \<noteq> p" using add.hyps(3) nth_mem by metis
    then show ?thesis using A(5) I(3) True by (simp add: nth_append)
  qed (use that A(1,3) I(2) in \<open>simp add: nth_append less_Suc_eq\<close>)
  then show ?case using A(1,2,4) I(2) by (simp add: proc_table_def)
next
  case (run s ps t s')
  then have "proc_list (procs s) (process_head (ks s)) ps" by (simp add: proc_table_def)
  then have "s' = set_current_process t (upd_proc t (\<lambda>r. r\<lparr>p_state := RUNNING\<rparr>) s)"
    using schedule_result [OF _ quiet] run.hyps(2) by (auto split: option.splits)
  moreover have "proc_table (set_current_process t u) ps = proc_table u ps" for u
    by (simp add: proc_table_def set_current_process_def)
  ultimately show ?case using run.IH proc_table_state by simp
next
  case (ready s ps p)
  then show ?case by (simp only: proc_table_state)
qed

lemma sint_of_nat_c_int: "k < 2147483648 \<Longrightarrow> sint (of_nat k :: c_int) = int k"
  by (simp add: sint_c_int unat_of_nat take_bit_nat_eq_self)

lemma proc_table_pids:
  assumes "proc_table s ps" and "length ps < 2147483647"
  shows "map (\<lambda>p. sint (pid (procs s p))) ps = map int [1..<length ps + 1]"
    and "sint (next_pid (ks s) + 1) = int (length ps) + 1"
proof -
  have I: "\<forall>i < length ps. pid (procs s (ps ! i)) = of_nat (i + 1)" "next_pid (ks s) + 1 = of_nat (length ps + 1)"
    using assms(1) by (simp_all add: proc_table_def)
  show "map (\<lambda>p. sint (pid (procs s p))) ps = map int [1..<length ps + 1]"
  proof (rule nth_equalityI)
    fix i assume "i < length (map (\<lambda>p. sint (pid (procs s p))) ps)"
    then have i: "i < length ps" by simp
    then have "sint (pid (procs s (ps ! i))) = int (i + 1)"
      using I(1) sint_of_nat_c_int [of "i + 1"] assms(2) by simp
    then show "map (\<lambda>p. sint (pid (procs s p))) ps ! i = map int [1..<length ps + 1] ! i"
      using i by (simp add: nth_append del: upt_Suc)
  qed (simp del: upt_Suc)
  show "sint (next_pid (ks s) + 1) = int (length ps) + 1"
    using sint_of_nat_c_int [of "length ps + 1"] assms(2) unfolding I(2) by simp
qed

text \<open>C16. In every session of added and scheduled processes the table is one list that holds each process
  once, in the order of addition. Read as the signed numbers they are, the process numbers are 1, 2, 3, ...
  in that order, and the next number to be given is the one after them, as long as there are fewer than
  \<open>INT_MAX\<close> processes: all are positive and pairwise different.\<close>

theorem process_table_distinct:
  assumes "proc_session env s ps" and "\<forall>msg n s. console env msg n s = Some s" and "length ps < 2147483647"
  shows "proc_list (procs s) (process_head (ks s)) ps \<and> distinct ps \<and>
     map (\<lambda>p. sint (pid (procs s p))) ps = map int [1..<length ps + 1] \<and>
     sint (next_pid (ks s) + 1) = int (length ps) + 1"
proof -
  have T: "proc_table s ps" using assms(1,2) by (rule proc_session_table)
  moreover have "proc_list (procs s) (process_head (ks s)) ps" using T by (simp add: proc_table_def)
  ultimately show ?thesis using proc_table_pids [OF T assms(3)] chain_distinct by blast
qed

definition ex_proc1 :: kst where "ex_proc1 = snd (the (add_new_process 0x9000 zero_kst))"
definition ex_proc2 :: kst where "ex_proc2 = snd (the (add_new_process 0xA000 ex_proc1))"

lemma ex_proc1: "add_new_process 0x9000 zero_kst = Some (1, ex_proc1)" "process_head (ks ex_proc1) = 0x9000"
  "procs ex_proc1 = (\<lambda>_. zero_process)(0x9000 := zero_process\<lparr>tid := 1, pid := 1\<rparr>)" "next_pid (ks ex_proc1) = 1"
  by (simp_all add: ex_proc1_def add_new_process_def Let_def upd_proc_def zero_kst_def zero_ks_def)

lemma ex_proc2: "\<exists>n. add_new_process 0xA000 ex_proc1 = Some (n, ex_proc2)"
proof -
  have "proc_last (procs ex_proc1) 0x9000 = Some 0x9000"
    by (subst proc_last.simps) (simp add: ex_proc1 zero_process_def)
  then show ?thesis by (simp add: ex_proc2_def add_new_process_def Let_def ex_proc1)
qed

theorem process_table_distinct_witness:
  "proc_list (procs ex_proc2) (process_head (ks ex_proc2)) [0x9000, 0xA000] \<and> distinct [0x9000, 0xA000 :: u64] \<and>
     map (\<lambda>p. sint (pid (procs ex_proc2 p))) [0x9000, 0xA000] = map int [1..<length [0x9000, 0xA000 :: u64] + 1] \<and>
     sint (next_pid (ks ex_proc2) + 1) = int (length [0x9000, 0xA000 :: u64]) + 1"
proof (rule process_table_distinct [of quiet_env])
  have "proc_session quiet_env zero_kst []"
    by (rule proc_session.empty) (simp_all add: zero_kst_def zero_ks_def)
  then have "proc_session quiet_env ex_proc1 ([] @ [0x9000])"
    by (rule proc_session.add) (use ex_proc1(1) in \<open>simp_all add: zero_kst_def zero_process_def\<close>)
  moreover obtain n where "add_new_process 0xA000 ex_proc1 = Some (n, ex_proc2)" using ex_proc2 by blast
  ultimately have "proc_session quiet_env ex_proc2 (([] @ [0x9000]) @ [0xA000])"
    using proc_session.add [of quiet_env ex_proc1 "[] @ [0x9000]" "0xA000"] by (simp add: ex_proc1 zero_process_def)
  then show "proc_session quiet_env ex_proc2 [0x9000, 0xA000]" by simp
qed (simp_all add: quiet_console)

end
