(* ===== verification/Start.thy ===== *)
theory Start
  imports PageBoot Process_Safety Registers
begin

text \<open>
  The entry of the kernel: \<open>_start\<close> of \<open>kernel/start.c\<close>, which is C for the relocation and one block of
  assembly that calls the functions of the other files in order, turns on the MMU and jumps to the upper
  half. The choice of the stack, barriers and the read of two feature registers leave no trace in the
  state of the model.
\<close>

subsection \<open>From the entry to the upper half\<close>

text \<open>
  Up to the jump: the address that is jumped to, what was written to the registers of the console, and
  the state. \<open>g\<close> is the address of \<open>global_relocations\<close>, \<open>sync_main\<close> the address of the label.
\<close>

definition start_upper ::
  "machine \<Rightarrow> linker_symbols \<Rightarrow> static_tables \<Rightarrow> static_tables \<Rightarrow> u64 \<Rightarrow> u64 \<Rightarrow> u64 \<Rightarrow> u64 \<Rightarrow> kst \<Rightarrow>
     (u64 \<times> (u64 \<times> u16) list \<times> kst) option" where
  "start_upper env y lower realm vector_table g kernel_stack sync_main s = do {
     m \<leftarrow> relocate_kernel 0x42000000 g (bytes s);
     let s = check_init_features (s\<lparr>bytes := m\<rparr>);
         regs = uart_init (get_uart_base (get_shared_bit s))
     in do {
       s \<leftarrow> console env (''hell kernel'' @ [CHR 0x0A]) 12 s;
       s \<leftarrow> kernel_init env y lower realm vector_table s;
       s \<leftarrow> console env (''done  kinit'' @ [CHR 0x0A]) 12 s;
       let s = enable_mmu s;
           dest = get_new_address sync_main;
           s = s\<lparr>bytes := snd (shift_to_va kernel_stack (binary_start y) g (bytes s))\<rparr>;
           s = s\<lparr>sysreg := (sysreg s)(''sctlr_el1'' := sysreg s ''sctlr_el1'' OR 1)\<rparr>
       in Some (dest, regs, s) } }"

text \<open>The whole of it: \<open>kernel_main\<close> runs in the upper half, with the addresses of its data there.\<close>

definition start_kernel ::
  "machine \<Rightarrow> smc_call \<Rightarrow> (string \<Rightarrow> u64) \<Rightarrow> u64 \<Rightarrow> linker_symbols \<Rightarrow> linker_symbols \<Rightarrow> static_tables \<Rightarrow> static_tables \<Rightarrow>
     u64 \<Rightarrow> u64 \<Rightarrow> u64 \<Rightarrow> u64 \<Rightarrow> main_symbols \<Rightarrow> kst \<Rightarrow> (u64 \<times> kst) option" where
  "start_kernel env smc mrs uninit y y_upper lower realm vector_table g kernel_stack sync_main gm s = do {
     (_, _, s) \<leftarrow> start_upper env y lower realm vector_table g kernel_stack sync_main s;
     kernel_main env smc mrs uninit y_upper gm s }"

subsection \<open>The tables of the boot\<close>

definition boot_upper :: "linker_symbols \<Rightarrow> static_tables \<Rightarrow> translation_tables" where
  "boot_upper y realm =
     (set_upper_translation_tables realm zero_tables)\<lparr>start_va := KERNEL_VA_BASE, start_pa := PAGE_DOWN (binary_start y)\<rparr>"

definition boot_lower :: "linker_symbols \<Rightarrow> static_tables \<Rightarrow> translation_tables" where
  "boot_lower y lower =
     (set_lower_translation_tables lower zero_tables)\<lparr>start_pa := PAGE_DOWN (binary_start y),
        start_va := PAGE_DOWN (binary_start y)\<rparr>"

definition boot_size :: "linker_symbols \<Rightarrow> u64" where
  "boot_size y = PAGE_UP (PAGE_UP (binary_end y) - PAGE_DOWN (binary_start y))"

lemma kernel_init_result:
  assumes quiet: "\<forall>msg n s. console env msg n s = Some s"
  shows "\<exists>s' sh. kernel_init env y lower realm vector_table s = Some s' \<and> bytes s' = bytes s \<and>
     secure_t (ks s') = boot_upper y realm \<and> insecure_t (ks s') = boot_lower y lower \<and>
     sysreg s' ''ttbr0_el1'' = st_PGD lower \<and> sysreg s' ''ttbr1_el1'' = st_PGD realm \<and>
     cells s' = normal_map_kernel_4KB (boot_lower y lower) (boot_size y) sh
                  (normal_map_kernel_4KB (boot_upper y realm) (boot_size y) sh (cells s))"
  using quiet
  by (simp add: kernel_init_def Let_def enable_exception_vectors_def configure_translation_def boot_upper_def
      boot_lower_def boot_size_def) (rule exI, rule refl)

definition frame_at :: "translation_tables \<Rightarrow> wordmem \<Rightarrow> u64 \<Rightarrow> u64 \<Rightarrow> bool" where
  "frame_at t w va pa \<longleftrightarrow> (\<exists>e. pt_walk t w va = Some e \<and> bd_l3_oa e = take_bit 36 (drop_bit 12 pa))"

lemma upper_half_mapped:
  fixes w :: wordmem and sh sh' :: u64
  assumes L: "pt_layout (pt_phys t) n" and n: "n = unat ((sz + 0x1FFFFF) div 0x200000) + 2"
    and ram: "unat sz + 0x1FFFFF < 18446744073709551616"
    and apart: "\<forall>sl \<in> pt_slots n. pt_cell (pt_phys t) sl \<notin> boot_area t' (unat (sz div 0x1000) + 511)"
  defines "w' \<equiv> normal_map_kernel_4KB t' sz sh' (normal_map_kernel_4KB t sz sh w)"
  shows "pt_inv (pt_phys t) n w'" and "k < unat sz div 4096 \<Longrightarrow> frame_at (pt_phys t) w' (start_va t + of_nat k * 0x1000) (start_pa t + of_nat k * 0x1000)"
proof -
  note A = boot_aligned [OF L]
  let ?w = "normal_map_kernel_4KB t sz sh w"
  have same: "\<forall>sl \<in> pt_slots n. w' (pt_cell (pt_phys t) sl) = ?w (pt_cell (pt_phys t) sl)"
    using apart normal_map_frame unfolding w'_def by blast
  note M = normal_map_cells(1-3) [OF A(1,3) n ram, of sh w, unfolded A(2)]
  have "pt_inv (pt_phys t) n ?w"
    unfolding pt_inv_def using M pt_layout_links [OF L]
    by (auto simp del: pt_cell.simps; metis (no_types, lifting) tf_link_valid)
  then show "pt_inv (pt_phys t) n w'" using pt_inv_cong [OF same] by simp
  show "frame_at (pt_phys t) w' (start_va t + of_nat k * 0x1000) (start_pa t + of_nat k * 0x1000)" if "k < unat sz div 4096"
    unfolding frame_at_def
    by (subst boot_walk [OF A(1,3) _ n ram that, where shared = sh and w = w]) (use L same in \<open>simp_all add: pt_layout_def A(2) boot_descriptor_bits\<close>)
qed

text \<open>
  What the boot needs of the image: relocations as in \<open>relocation_to_upper_half\<close>, and tables for both
  halves, each without overlap, large enough, at addresses an entry can hold; the tables of the lower
  half do not overlap those of the upper half.
\<close>

definition image_ok :: "bytemem \<Rightarrow> u64 \<Rightarrow> u64 \<Rightarrow> bool" where
  "image_ok m bas g \<longleftrightarrow> find_rela_section m bas \<noteq> 0 \<and> length (image_relas m bas) \<le> MAX_RELOCATIONS \<and>
     (\<forall>r \<in> set (image_relas m bas). rela_slot bas r \<noteq> 0 \<and>
        win (rela_slot bas r) 8 \<inter> (image_data m bas \<union> table_area g) = {}) \<and>
     sorted_wrt (\<lambda>r r'. win (rela_slot bas r) 8 \<inter> win (rela_slot bas r') 8 = {}) (image_relas m bas) \<and>
     image_data m bas \<inter> table_area g = {}"

definition boot_tables_ok :: "linker_symbols \<Rightarrow> static_tables \<Rightarrow> static_tables \<Rightarrow> nat \<Rightarrow> bool" where
  "boot_tables_ok y lower realm n \<longleftrightarrow>
     n = unat ((boot_size y + 0x1FFFFF) div 0x200000) + 2 \<and> unat (boot_size y) + 0x1FFFFF < 18446744073709551616 \<and>
     pt_layout (pt_phys (boot_upper y realm)) n \<and>
     boot_ok (boot_lower y lower) n \<and> inj_on (boot_cell (boot_lower y lower)) (pt_slots n) \<and>
     (\<forall>p \<in> {st_PUD lower, st_PMD lower} \<union> (\<lambda>j. st_PT3 lower + of_nat j * 0x1000) ` {..<n}.
        push_bit 12 (take_bit 36 (drop_bit 12 p)) = p) \<and>
     (\<forall>sl \<in> pt_slots n. pt_cell (pt_phys (boot_upper y realm)) sl \<notin>
        boot_area (boot_lower y lower) (unat (boot_size y div 0x1000) + 511))"

lemma sctlr_M: "read_bits 64 SCTLR_EL1_t_fields ''M'' (r OR 1) = 1"
  by (simp add: read_bits_def control_fields get_field_bit bit_or_iff del: One_nat_def)

text \<open>C3. The start of the kernel returns from every step, and when it jumps to the upper half: the MMU is
  on, with the static tables as roots; every page of the image is mapped to its frame both at its
  address, where the code still runs, and in the upper half, where the jump goes; the tables of the upper half
  satisfy the invariant \<open>page_table_map\<close> relies on; and every relocated place holds its address in the
  upper half.\<close>

theorem start_reaches_upper_half:
  assumes "\<forall>msg n s. console env msg n s = Some s" and "image_ok (bytes s) 0x42000000 g"
    and "boot_tables_ok y lower realm n"
  shows "\<exists>s'. start_upper env y lower realm vector_table g kernel_stack sync_main s =
       Some (get_new_address sync_main, uart_init (get_uart_base 0x100000000), s') \<and>
     read_bits 64 SCTLR_EL1_t_fields ''M'' (sysreg s' ''sctlr_el1'') = 1 \<and>
     sysreg s' ''ttbr0_el1'' = st_PGD lower \<and> sysreg s' ''ttbr1_el1'' = st_PGD realm \<and>
     pt_inv (pt_phys (boot_upper y realm)) n (cells s') \<and>
     (\<forall>k < unat (boot_size y) div 4096.
        frame_at (pt_phys (boot_upper y realm)) (cells s') (KERNEL_VA_BASE + of_nat k * 0x1000)
          (PAGE_DOWN (binary_start y) + of_nat k * 0x1000) \<and>
        frame_at (pt_phys (boot_lower y lower)) (cells s') (PAGE_DOWN (binary_start y) + of_nat k * 0x1000)
          (PAGE_DOWN (binary_start y) + of_nat k * 0x1000)) \<and>
     (\<forall>r \<in> set (image_relas (bytes s) 0x42000000).
        load_le (bytes s') (rela_slot 0x42000000 r) 8 = upper_value (bytes s) 0x42000000 r)"
proof -
  note I = assms(2) [unfolded image_ok_def] and T = assms(3) [unfolded boot_tables_ok_def]
  obtain m1 where m1: "relocate_kernel 0x42000000 g (bytes s) = Some m1"
    "\<forall>r \<in> set (image_relas (bytes s) 0x42000000).
       load_le (snd (shift_to_va kernel_stack (binary_start y) g m1)) (rela_slot 0x42000000 r) 8 = upper_value (bytes s) 0x42000000 r"
    using relocation_memory I by (metis snd_conv shift_to_va_def)
  obtain s2 sh where s2: "kernel_init env y lower realm vector_table (check_init_features (s\<lparr>bytes := m1\<rparr>)) = Some s2"
      "bytes s2 = m1" "sysreg s2 ''ttbr0_el1'' = st_PGD lower" "sysreg s2 ''ttbr1_el1'' = st_PGD realm"
      "cells s2 = normal_map_kernel_4KB (boot_lower y lower) (boot_size y) sh
                    (normal_map_kernel_4KB (boot_upper y realm) (boot_size y) sh (cells s))"
    using kernel_init_result [OF assms(1), of y lower realm vector_table "check_init_features (s\<lparr>bytes := m1\<rparr>)"]
    by (auto simp: check_init_features_def)
  define s' where "s' = s2\<lparr>bytes := snd (shift_to_va kernel_stack (binary_start y) g m1),
      sysreg := (sysreg s2)(''sctlr_el1'' := sctlr_boot OR 1)\<rparr>"
  have run: "start_upper env y lower realm vector_table g kernel_stack sync_main s =
      Some (get_new_address sync_main, uart_init (get_uart_base 0x100000000), s')"
    using m1(1) s2(1,2) assms(1)
    by (simp add: start_upper_def s'_def enable_mmu_def get_shared_bit_def check_init_features_def)
  have cells: "cells s' = cells s2" by (simp add: s'_def)
  have up: "start_va (boot_upper y realm) = KERNEL_VA_BASE" "start_pa (boot_upper y realm) = PAGE_DOWN (binary_start y)"
    and low: "start_va (boot_lower y lower) = PAGE_DOWN (binary_start y)" "start_pa (boot_lower y lower) = PAGE_DOWN (binary_start y)"
    "PUD (boot_lower y lower) = st_PUD lower" "PMD (boot_lower y lower) = st_PMD lower" "PT3 (boot_lower y lower) = st_PT3 lower"
    by (simp_all add: boot_upper_def boot_lower_def set_lower_translation_tables_def)
  have n: "n = unat ((boot_size y + 0x1FFFFF) div 0x200000) + 2" and ram: "unat (boot_size y) + 0x1FFFFF < 18446744073709551616"
    and L: "pt_layout (pt_phys (boot_upper y realm)) n"
    and B: "boot_ok (boot_lower y lower) n" "inj_on (boot_cell (boot_lower y lower)) (pt_slots n)"
    and fit: "\<forall>p \<in> {PUD (boot_lower y lower), PMD (boot_lower y lower)} \<union>
        (\<lambda>j. PT3 (boot_lower y lower) + of_nat j * 0x1000) ` {..<n}. push_bit 12 (take_bit 36 (drop_bit 12 p)) = p"
    and apart: "\<forall>sl \<in> pt_slots n. pt_cell (pt_phys (boot_upper y realm)) sl \<notin>
        boot_area (boot_lower y lower) (unat (boot_size y div 0x1000) + 511)"
    unfolding low using T by blast+
  note U = upper_half_mapped [OF L n ram apart, where w = "cells s" and sh = sh and sh' = sh, folded s2(5), unfolded up]
  have lower: "frame_at (pt_phys (boot_lower y lower)) (cells s2) (PAGE_DOWN (binary_start y) + of_nat k * 0x1000)
      (PAGE_DOWN (binary_start y) + of_nat k * 0x1000)" if "k < unat (boot_size y) div 4096" for k
    using boot_walk [OF B fit n ram that, where w' = "cells s2" and shared = sh, unfolded low] s2(5)
    by (metis frame_at_def boot_descriptor_bits(3))
  have mem: "sysreg s' ''ttbr0_el1'' = st_PGD lower" "sysreg s' ''ttbr1_el1'' = st_PGD realm"
    "read_bits 64 SCTLR_EL1_t_fields ''M'' (sysreg s' ''sctlr_el1'') = 1"
    "bytes s' = snd (shift_to_va kernel_stack (binary_start y) g m1)"
    by (simp_all add: s'_def s2 sctlr_M)
  show ?thesis
    by (rule exI [of _ s'], intro conjI allI impI)
      (use U run lower mem m1(2) in \<open>simp_all add: cells\<close>)
qed

subsection \<open>Contiguous tables\<close>

text \<open>In the image the tables of each half lie one behind the other, as numbered entries.\<close>

definition contiguous :: "translation_tables \<Rightarrow> bool" where
  "contiguous t \<longleftrightarrow> PUD t = PGD t + 0x1000 \<and> PMD t = PGD t + 0x2000 \<and> PT3 t = PGD t + 0x3000"

fun boot_entry :: "translation_tables \<Rightarrow> pt_slot \<Rightarrow> nat" where
  "boot_entry t Slot0 = unat (VA_OFFSET_48_L0 (start_va t))"
| "boot_entry t Slot1 = 512 + unat (VA_OFFSET_48_L1 (start_va t))"
| "boot_entry t (Slot2 j) = 1024 + (boot_off t + j)"
| "boot_entry t (Slot3 p) = 1536 + p"

lemma boot_cell_entry: "contiguous t \<Longrightarrow> boot_cell t sl = arr (PGD t) (of_nat (boot_entry t sl))"
  by (cases sl) (simp_all add: contiguous_def arr_def)

lemma boot_entry_lt:
  assumes "boot_ok t n" "sl \<in> pt_slots n"
  shows "boot_entry t sl < 1536 + n * 512"
  using assms VA_OFFSET_lt(1,2) [of "start_va t"] boot_okD [OF assms(1)]
  by (cases sl) (auto simp: pt_slots_def word_less_nat_alt)

lemma boot_entry_inj: "boot_ok t n \<Longrightarrow> inj_on (boot_entry t) (pt_slots n)"
  using VA_OFFSET_lt(1,2) [of "start_va t"] boot_okD [of t n]
  by (auto simp: inj_on_def pt_slots_def word_less_nat_alt)

lemma arr_unat:
  "unat b + 8 * m < 18446744073709551616 \<Longrightarrow> i < m \<Longrightarrow> unat (arr b (of_nat i)) = unat b + 8 * i"
  using unat_of_nat_u64 [of "8 * i"] by (simp add: arr_def unat_add_nowrap)

lemma contiguous_inj:
  assumes "contiguous t" "boot_ok t n" "unat (PGD t) + 8 * (1536 + n * 512) < 18446744073709551616"
  shows "inj_on (boot_cell t) (pt_slots n)"
proof (rule inj_onI)
  fix a b assume ab: "a \<in> pt_slots n" "b \<in> pt_slots n" "boot_cell t a = boot_cell t b"
  then have "boot_entry t a = boot_entry t b"
    using arr_unat [OF assms(3) boot_entry_lt [OF assms(2)]] boot_cell_entry [OF assms(1)]
    by (metis add_left_cancel mult_left_cancel zero_neq_numeral)
  then show "a = b" using boot_entry_inj [OF assms(2)] ab by (auto dest: inj_onD)
qed

lemma boot_area_entry:
  assumes "contiguous t" "x \<in> boot_area t N"
  shows "\<exists>i < 1536 + N. x = arr (PGD t) (of_nat i)"
proof -
  have a: "arr (PGD t + 8 * of_nat d) (of_nat i) = arr (PGD t) (of_nat (d + i))" for d i
    by (simp add: arr_def algebra_simps)
  have s: "PUD t = PGD t + 8 * of_nat 512" "PMD t = PGD t + 8 * of_nat 1024" "PT3 t = PGD t + 8 * of_nat 1536"
    using assms(1) by (simp_all add: contiguous_def)
  have "\<exists>i < 1536 + N. x = arr (PGD t) (of_nat i)" if "x = arr (PGD t) (of_nat i)" "i < 1536 + N" for i
    using that by blast
  then show ?thesis
    using assms(2) unfolding boot_area_def s a by (elim UnE imageE) (simp_all del: of_nat_add)
qed

lemma contiguous_apart:
  assumes c: "contiguous t" "contiguous t'" and B: "boot_ok t n" and sl: "sl \<in> pt_slots n"
    and apart: "unat (PGD t) + 8 * (1536 + n * 512) \<le> unat (PGD t')" "unat (PGD t') + 8 * (1536 + N) < 18446744073709551616"
  shows "boot_cell t sl \<notin> boot_area t' N"
proof
  assume "boot_cell t sl \<in> boot_area t' N"
  then obtain i where i: "i < 1536 + N" "boot_cell t sl = arr (PGD t') (of_nat i)"
    using boot_area_entry [OF c(2)] by blast
  then have "unat (arr (PGD t) (of_nat (boot_entry t sl))) = unat (PGD t') + 8 * i"
    using arr_unat [OF apart(2) i(1)] by (simp add: boot_cell_entry [OF c(1)])
  moreover have "unat (arr (PGD t) (of_nat (boot_entry t sl))) = unat (PGD t) + 8 * boot_entry t sl"
    using apart by (intro arr_unat [OF _ boot_entry_lt [OF B sl]]) simp
  ultimately show False using boot_entry_lt [OF B sl] apart(1) by simp
qed

subsection \<open>An example\<close>

definition ex_low :: static_tables where
  "ex_low = \<lparr>st_PGD = 0x42200000, st_PUD = 0x42201000, st_PMD = 0x42202000, st_PT3 = 0x42203000\<rparr>"
definition ex_up :: static_tables where
  "ex_up = \<lparr>st_PGD = 0x42100000, st_PUD = 0x42101000, st_PMD = 0x42102000, st_PT3 = 0x42103000\<rparr>"

lemma ex_boot_tables:
  assumes y: "binary_start y = 0x42000000" "binary_end y = 0x42400000"
  shows "boot_tables_ok y ex_low ex_up 4"
proof -
  have r: "PAGE_DOWN (binary_start y) = 0x42000000" "boot_size y = 0x400000"
    by (simp_all add: boot_size_def y PAGE_UP_def PAGE_DOWN_def)
  have S: "{..<4::nat} = {0, 1, 2, 3}" by auto
  note D = boot_upper_def boot_lower_def set_upper_translation_tables_def set_lower_translation_tables_def
    zero_tables_def ex_low_def ex_up_def
  have U: "pt_layout (pt_phys (boot_upper y ex_up)) 4"
    by (rule pt_layout_contiguous) (simp_all add: D r S KERNEL_VA_BASE_def)
  have o: "unat (0x42000000 :: u64) = 0x200000 * 528" by simp
  have L: "boot_ok (boot_lower y ex_low) 4"
    by (simp add: boot_ok_def boot_off_def D r)
  have c: "contiguous (boot_upper y ex_up)" "contiguous (boot_lower y ex_low)"
    by (simp_all add: contiguous_def D)
  have p: "unat (PGD (boot_upper y ex_up)) = 0x42100000" "unat (PGD (boot_lower y ex_low)) = 0x42200000"
    by (simp_all add: D)
  have "inj_on (boot_cell (boot_lower y ex_low)) (pt_slots 4)"
    by (rule contiguous_inj [OF c(2) L]) (simp add: p)
  moreover have "\<forall>sl \<in> pt_slots 4. pt_cell (pt_phys (boot_upper y ex_up)) sl \<notin>
      boot_area (boot_lower y ex_low) (unat (boot_size y div 0x1000) + 511)"
    using contiguous_apart [OF c boot_aligned(1) [OF U]] by (simp add: p r boot_aligned(2) [OF U, symmetric])
  moreover have "\<forall>q \<in> {st_PUD ex_low, st_PMD ex_low} \<union> (\<lambda>j. st_PT3 ex_low + of_nat j * 0x1000) ` {..<4}.
      push_bit 12 (take_bit 36 (drop_bit 12 q)) = q"
    by (simp add: S ex_low_def)
  ultimately show ?thesis
    unfolding boot_tables_ok_def using U L by (simp add: r)
qed

text \<open>The image of \<open>Reloc\<close> at the address the kernel is loaded to.\<close>

definition ex_loaded :: bytemem where
  "ex_loaded = (\<lambda>_. 0)(0x42000029 := 1, 0x4200003c := 2, 0x42000119 := 4, 0x42000144 := 4, 0x42000159 := 3,
     0x42000160 := 24, 0x42000178 := 24, 0x42000301 := 5, 0x42000308 := 1, 0x42000309 := 4, 0x42000310 := 0x10,
     0x42000409 := 6)"

lemma ex_loaded_section: "find_rela_section ex_loaded 0x42000000 = 0x42000140"
  by (simp add: find_rela_section_def read_ehdr_def read_shdr_def field_at_def layouts load_le_def upt_rec
      ex_loaded_def ELF64_SHT_RELA_def Let_def)

lemma ex_loaded_shdr:
  "sh_offset (read_shdr ex_loaded 0x42000140) = 0x300" "sh_size (read_shdr ex_loaded 0x42000140) = 24"
  "sh_entsize (read_shdr ex_loaded 0x42000140) = 24" "sh_link (read_shdr ex_loaded 0x42000140) = 0"
  by (simp_all add: read_shdr_def field_at_def layouts load_le_def upt_rec ex_loaded_def Let_def)

lemma ex_loaded_rela:
  "r_offset (read_rela ex_loaded 0x42000300) = 0x500" "r_info (read_rela ex_loaded 0x42000300) = 0x401"
  by (simp_all add: read_rela_def field_at_def layouts load_le_def upt_rec ex_loaded_def Let_def)

lemma ex_loaded_symtab: "image_symtab ex_loaded 0x42000000 = 0x42000400"
  by (simp add: image_symtab_def ex_loaded_section ex_loaded_shdr)
    (simp add: read_ehdr_def read_shdr_def field_at_def layouts load_le_def upt_rec ex_loaded_def Let_def)

lemma ex_loaded_ok: "image_ok ex_loaded 0x42000000 0x42020000"
proof -
  have r: "image_relas ex_loaded 0x42000000 = [read_rela ex_loaded 0x42000300]"
    by (simp add: image_relas_def ex_loaded_section ex_loaded_shdr)
  have d: "image_data ex_loaded 0x42000000 = win 0x42000140 64 \<union> win 0x42000300 24 \<union> win 0x42000400 24"
    by (simp add: image_data_def ex_loaded_section ex_loaded_shdr ex_loaded_symtab rela_data_def lessThan_Suc
        ex_loaded_rela ELF64_R_SYM_def Un_assoc)
  show ?thesis
    by (simp add: image_ok_def ex_loaded_section r d rela_slot_def ex_loaded_rela Int_Un_distrib Int_Un_distrib2
        win_disjoint MAX_RELOCATIONS_def)
qed

definition ex_phys_symbols :: linker_symbols where
  "ex_phys_symbols = \<lparr>TEXT_START = 0, TEXT_END = 0, RO_START = 0, RO_END = 0, DATA_START = 0, DATA_END = 0,
     BSS_START = 0, BSS_END = 0, PAGE_TABLE_START = 0, PAGE_TABLE_END = 0, BITMAP_NS_START = 0, BITMAP_NS_END = 0,
     BITMAP_START = 0, BITMAP_END = 0, SHARED_NS_MEMORY_START = 0, SHARED_NS_MEMORY_END = 0,
     binary_start = 0x42000000, binary_end = 0x42400000, ram_end = 0x44000000\<rparr>"

definition ex_power_on :: kst where "ex_power_on = zero_kst\<lparr>bytes := ex_loaded\<rparr>"

theorem start_reaches_upper_half_witness:
  "\<exists>s'. start_upper quiet_env ex_phys_symbols ex_low ex_up 0x42001800 0x42020000 0x42030000 0x42000abc ex_power_on =
       Some (get_new_address 0x42000abc, uart_init (get_uart_base 0x100000000), s') \<and>
     read_bits 64 SCTLR_EL1_t_fields ''M'' (sysreg s' ''sctlr_el1'') = 1 \<and>
     sysreg s' ''ttbr0_el1'' = st_PGD ex_low \<and> sysreg s' ''ttbr1_el1'' = st_PGD ex_up \<and>
     pt_inv (pt_phys (boot_upper ex_phys_symbols ex_up)) 4 (cells s') \<and>
     (\<forall>k < unat (boot_size ex_phys_symbols) div 4096.
        frame_at (pt_phys (boot_upper ex_phys_symbols ex_up)) (cells s') (KERNEL_VA_BASE + of_nat k * 0x1000)
          (PAGE_DOWN (binary_start ex_phys_symbols) + of_nat k * 0x1000) \<and>
        frame_at (pt_phys (boot_lower ex_phys_symbols ex_low)) (cells s') (PAGE_DOWN (binary_start ex_phys_symbols) + of_nat k * 0x1000)
          (PAGE_DOWN (binary_start ex_phys_symbols) + of_nat k * 0x1000)) \<and>
     (\<forall>r \<in> set (image_relas (bytes ex_power_on) 0x42000000).
        load_le (bytes s') (rela_slot 0x42000000 r) 8 = upper_value (bytes ex_power_on) 0x42000000 r)"
proof (rule start_reaches_upper_half)
  show "image_ok (bytes ex_power_on) 0x42000000 0x42020000" using ex_loaded_ok by (simp add: ex_power_on_def)
  show "boot_tables_ok ex_phys_symbols ex_low ex_up 4" by (rule ex_boot_tables) (simp_all add: ex_phys_symbols_def)
qed (simp add: quiet_console)

end
