(* ===== verification/Image.thy ===== *)
theory Image
  imports Elf Cstring
begin

text \<open>
  The tool that turns the linked kernel into a memory image: \<open>kernel/image_generator.c\<close>. The input
  file is mapped at \<open>addr\<close> and the output file at \<open>new_map\<close>; both are parts of one memory. \<open>None\<close> is a
  crash of the tool: a store outside \<open>PROG_SEGMENTS\<close>, a division by zero, or a copy that leaves the pages that
  a file has in its mapping (the signal \<open>SIGBUS\<close>, or \<open>SIGSEGV\<close> behind the mapping). The reads of headers and symbols are not
  checked like that. The main function as a whole
  is in \<^theory_text>\<open>Generator\<close>.
  The tool runs on the host with its C library; \<open>strlen\<close>, \<open>strncmp\<close> and \<open>memcpy\<close> of \<^theory_text>\<open>Cstring\<close> and
  \<^theory_text>\<open>Memops\<close> stand for the standard functions (the two mappings do not overlap, and of \<open>strncmp\<close> only the
  test for zero is used).
\<close>

definition MAX_SEGMENTS :: nat where "MAX_SEGMENTS = 40"
definition PAGEUP :: "u64 \<Rightarrow> u64" where "PAGEUP x = (x + 0x1000 - 1) AND ucast (NOT (0x1000 - 1) :: u32)"
definition SHT_DYNSYM :: u32 where "SHT_DYNSYM = 11"

subsection \<open>Symbols\<close>

text \<open>
  One turn of the outer loop sets \<open>dynsym\<close>, \<open>num\<close>, \<open>entsize\<close> and \<open>strtab\<close> at a section of dynamic
  symbols, and searches when both tables are known; \<open>strtab\<close> is reset after a search. The value of the
  symbol passes through an \<open>int\<close>.
\<close>

record symbol_state =
  sy_strtab :: u64
  sy_dynsym :: u64
  sy_num :: c_int
  sy_entsize :: c_int

definition enter_section :: "u64 \<Rightarrow> u64 \<Rightarrow> bytemem \<Rightarrow> elf64_shdr \<Rightarrow> symbol_state \<Rightarrow> symbol_state option" where
  "enter_section elf shdr m sh y =
     (if sh_type sh \<noteq> SHT_DYNSYM then Some y
      else if sh_entsize sh = 0 then None
      else Some \<lparr>sy_strtab = sh_offset (read_shdr m (shdr + 64 * ucast (sh_link sh))) + elf,
                 sy_dynsym = sh_offset sh + elf, sy_num = ucast (sh_size sh div sh_entsize sh),
                 sy_entsize = ucast (sh_entsize sh)\<rparr>)"

definition search_symbol :: "bytemem \<Rightarrow> symbol_state \<Rightarrow> u64 \<Rightarrow> u64 \<Rightarrow> u64 option" where
  "search_symbol m y name len =
     map_option (\<lambda>s. st_value (read_sym m (sy_dynsym y + scast (sy_entsize y * of_nat s))))
       (List.find (\<lambda>s. strncmp m (ucast (st_name (read_sym m (sy_dynsym y + scast (sy_entsize y * of_nat s)))) +
                                   sy_strtab y) name len = 0)
          [0..<nat (sint (sy_num y))])"

fun symbol_loop ::
  "u64 \<Rightarrow> u64 \<Rightarrow> bytemem \<Rightarrow> u64 \<Rightarrow> u64 \<Rightarrow> nat \<Rightarrow> nat \<Rightarrow> symbol_state \<Rightarrow> u64 option" where
  "symbol_loop elf shdr m name len i 0 y = Some 0"
| "symbol_loop elf shdr m name len i (Suc n) y = do {
     y \<leftarrow> enter_section elf shdr m (read_shdr m (shdr + 64 * of_nat i)) y;
     if sy_strtab y \<noteq> 0 \<and> sy_dynsym y \<noteq> 0 then
       (case search_symbol m y name len of
          Some v \<Rightarrow> Some (scast (ucast v :: c_int))
        | None \<Rightarrow> symbol_loop elf shdr m name len (Suc i) n (y\<lparr>sy_strtab := 0\<rparr>))
     else symbol_loop elf shdr m name len (Suc i) n y }"

definition get_symbol_address :: "u64 \<Rightarrow> u64 \<Rightarrow> bytemem \<Rightarrow> u64 option" where
  "get_symbol_address elf name m = do {
     len \<leftarrow> strlen m name;
     symbol_loop elf (elf + e_shoff (read_ehdr m elf)) m name (scast (ucast len :: c_int)) 0
       (unat (e_shnum (read_ehdr m elf)))
       \<lparr>sy_strtab = 0, sy_dynsym = 0, sy_num = 0, sy_entsize = 0\<rparr> }"

subsection \<open>Segments\<close>

record segment =
  sg_offset :: u64
  sg_vaddr :: u64
  sg_filesz :: u64
  sg_memsz :: u64
  sg_align :: u64
  sg_vaddr_end :: u64

definition zero_segment :: segment where
  "zero_segment = \<lparr>sg_offset = 0, sg_vaddr = 0, sg_filesz = 0, sg_memsz = 0, sg_align = 0, sg_vaddr_end = 0\<rparr>"

definition segment_of :: "elf64_phdr \<Rightarrow> segment" where
  "segment_of ph = \<lparr>sg_offset = p_offset ph, sg_vaddr = p_vaddr ph, sg_filesz = p_filesz ph, sg_memsz = p_memsz ph,
     sg_align = p_align ph, sg_vaddr_end = PAGEUP (p_vaddr ph + p_memsz ph)\<rparr>"

text \<open>The first loop over the program headers: the array, \<open>phdr_count\<close> and \<open>lowest_virt_addr\<close>.\<close>

fun segment_loop :: "elf64_phdr list \<Rightarrow> segment list \<times> nat \<times> u64 \<Rightarrow> (segment list \<times> nat \<times> u64) option" where
  "segment_loop [] (segs, count, lowest) = Some (segs, count, lowest)"
| "segment_loop (ph # phs) (segs, count, lowest) =
     (if p_type ph \<noteq> PT_LOAD then segment_loop phs (segs, count, lowest)
      else if MAX_SEGMENTS \<le> count then None
      else segment_loop phs (segs[count := segment_of ph], count + 1,
             if p_vaddr ph < lowest then p_vaddr ph else lowest))"

definition image_segments :: "u64 \<Rightarrow> bytemem \<Rightarrow> (segment list \<times> nat \<times> u64) option" where
  "image_segments addr m =
     (let ehdr = read_ehdr m addr; phdr = addr + e_phoff ehdr in
      segment_loop (map (\<lambda>i. read_phdr m (phdr + 56 * of_nat i)) [0..<unat (e_phnum ehdr)])
        (replicate MAX_SEGMENTS zero_segment, 0, -1))"

text \<open>The loop for the highest address runs over the entry behind the last segment as well.\<close>

fun highest_loop :: "segment list \<Rightarrow> u64 \<Rightarrow> u64" where
  "highest_loop [] highest_vaddr = highest_vaddr"
| "highest_loop (g # gs) highest_vaddr =
     highest_loop gs (if sg_vaddr g > highest_vaddr then sg_vaddr_end g else highest_vaddr)"

definition image_map_size :: "segment list \<Rightarrow> nat \<Rightarrow> u64 \<Rightarrow> u64 option" where
  "image_map_size segs count lowest =
     (if MAX_SEGMENTS \<le> count then None else Some (highest_loop (take (count + 1) segs) 0 - lowest))"

text \<open>
  One \<open>memcpy\<close> from the input file to the image, with the bytes that each may be accessed: \<open>in_len\<close> from \<open>addr\<close> and
  \<open>out_len\<close> from \<open>new_map\<close> on.
\<close>

abbreviation pages :: "nat \<Rightarrow> nat" where "pages n \<equiv> (n + 4095) div 4096 * 4096"

definition accessible :: "nat \<Rightarrow> u64 \<Rightarrow> nat \<Rightarrow> bool" where
  "accessible limit p k \<longleftrightarrow> k = 0 \<or> unat p + k \<le> limit"

definition copy_bytes :: "u64 \<Rightarrow> nat \<Rightarrow> u64 \<Rightarrow> nat \<Rightarrow> u64 \<Rightarrow> u64 \<Rightarrow> u64 \<Rightarrow> bytemem \<Rightarrow> bytemem option" where
  "copy_bytes addr in_len new_map out_len p off n m =
     (if accessible out_len p (unat n) \<and> accessible in_len off (unat n)
      then Some (snd (memcpy m (p + new_map) (off + addr) n)) else None)"

text \<open>Copying: every segment but the last up to the start of the next one, then the last one.\<close>

definition copy_segment :: "u64 \<Rightarrow> nat \<Rightarrow> u64 \<Rightarrow> nat \<Rightarrow> u64 \<Rightarrow> segment \<Rightarrow> segment \<Rightarrow> bytemem \<Rightarrow> bytemem option" where
  "copy_segment addr in_len new_map out_len lowest g nxt m =
     (let to_write = sg_vaddr nxt - sg_vaddr g;
          to_write = (if sg_offset g + sg_filesz g < sg_memsz nxt then PAGEUP to_write else to_write)
      in copy_bytes addr in_len new_map out_len (sg_vaddr g - lowest) (sg_offset g) to_write m)"

fun copy_segments :: "u64 \<Rightarrow> u64 \<Rightarrow> nat \<Rightarrow> u64 \<Rightarrow> u64 \<Rightarrow> segment list \<Rightarrow> bytemem \<Rightarrow> bytemem option" where
  "copy_segments addr new_map out_len lowest file_size [] m = None"
| "copy_segments addr new_map out_len lowest file_size [g] m =
     (let to_write = (if file_size - sg_offset g < sg_memsz g then file_size - sg_offset g else sg_memsz g)
      in copy_bytes addr (pages (unat file_size)) new_map out_len (sg_vaddr g - lowest) (sg_offset g) to_write m)"
| "copy_segments addr new_map out_len lowest file_size (g # g' # gs) m = do {
     m \<leftarrow> copy_segment addr (pages (unat file_size)) new_map out_len lowest g g' m;
     copy_segments addr new_map out_len lowest file_size (g' # gs) m }"

text \<open>The size of the image with the segments: the main function up to the opening of the output file.\<close>

definition image_plan :: "u64 \<Rightarrow> bytemem \<Rightarrow> (segment list \<times> u64 \<times> u64) option" where
  "image_plan addr m = do {
     (segs, count, lowest) \<leftarrow> image_segments addr m;
     map_size \<leftarrow> image_map_size segs count lowest;
     Some (take count segs, lowest, map_size) }"

text \<open>
  The image, once both files are mapped. \<open>user_data\<close> are the bytes copied from \<open>user_buffer\<close>, a local array; they go
  to the value of the symbol \<open>user_binary\<close>, taken as an offset into the image.
\<close>

definition put_bytes :: "bytemem \<Rightarrow> u64 \<Rightarrow> u8 list \<Rightarrow> bytemem" where
  "put_bytes m p bs = (\<lambda>x. if unat (x - p) < length bs then bs ! unat (x - p) else m x)"

definition image_fill ::
  "u64 \<Rightarrow> u64 \<Rightarrow> nat \<Rightarrow> u64 \<Rightarrow> segment list \<Rightarrow> u64 \<Rightarrow> u64 \<Rightarrow> u8 list \<Rightarrow> bool \<Rightarrow> bytemem \<Rightarrow> bytemem option" where
  "image_fill addr new_map out_len test_elf_ptr segs lowest file_size user_data b_flag m = do {
     m \<leftarrow> copy_segments addr new_map out_len lowest file_size segs m;
     m \<leftarrow> (if test_elf_ptr = 0 then Some m
          else if accessible out_len test_elf_ptr (length user_data) then Some (put_bytes m (test_elf_ptr + new_map) user_data)
          else None);
     if \<not> b_flag then Some m else if accessible out_len 0 1 then Some (m(new_map := 0)) else None }"

subsection \<open>The size of the image\<close>

text \<open>Segments in ascending order with a gap of at least a byte between the pages of one and the next.\<close>

definition gapped :: "segment list \<Rightarrow> bool" where
  "gapped gs \<longleftrightarrow> sorted_wrt (\<lambda>g g'. sg_vaddr_end g < sg_vaddr g') gs \<and> (\<forall>g \<in> set gs. sg_vaddr g \<le> sg_vaddr_end g)"

lemma highest_loop_append: "highest_loop (gs @ gs') h = highest_loop gs' (highest_loop gs h)"
  by (induction gs arbitrary: h) simp_all

lemma highest_loop_skips:
  assumes "\<forall>g \<in> set gs. sg_vaddr g \<le> h"
  shows "highest_loop gs h = h"
  using assms by (induction gs) auto

lemma highest_loop_gapped:
  "gapped gs \<Longrightarrow> gs \<noteq> [] \<Longrightarrow> h < sg_vaddr (hd gs) \<Longrightarrow> highest_loop gs h = sg_vaddr_end (last gs)"
proof (induction gs arbitrary: h)
  case (Cons g gs)
  then show ?case by (cases gs) (auto simp: gapped_def)
qed simp

text \<open>The array after the first loop: the loadable headers in their order, zero entries behind them.\<close>

definition loadable :: "elf64_phdr list \<Rightarrow> segment list" where
  "loadable phs = map segment_of (filter (\<lambda>ph. p_type ph = PT_LOAD) phs)"

lemma loadable_Cons: "loadable (ph # phs) = (if p_type ph = PT_LOAD then segment_of ph # loadable phs else loadable phs)"
  by (simp add: loadable_def)

lemma segment_loop_spec:
  "length gs + length (loadable phs) \<le> n \<Longrightarrow> n = MAX_SEGMENTS \<Longrightarrow>
   segment_loop phs (gs @ replicate (n - length gs) zero_segment, length gs, lowest) =
     Some (gs @ loadable phs @ replicate (n - length gs - length (loadable phs)) zero_segment,
           length gs + length (loadable phs), fold (\<lambda>g l. if sg_vaddr g < l then sg_vaddr g else l) (loadable phs) lowest)"
proof (induction phs arbitrary: gs lowest)
  case Nil
  then show ?case by (simp add: loadable_def)
next
  case (Cons ph phs)
  show ?case
  proof (cases "p_type ph = PT_LOAD")
    case True
    have "(gs @ replicate (n - length gs) zero_segment)[length gs := segment_of ph] =
          (gs @ [segment_of ph]) @ replicate (n - length (gs @ [segment_of ph])) zero_segment"
      using Cons.prems True by (cases "n - length gs") (auto simp: loadable_Cons list_update_append Suc_diff_Suc)
    then show ?thesis
      using Cons.prems True Cons.IH [of "gs @ [segment_of ph]" "if p_vaddr ph < lowest then p_vaddr ph else lowest"]
      by (simp add: loadable_Cons) (simp add: segment_of_def)
  qed (use Cons in \<open>simp add: loadable_Cons\<close>)
qed

text \<open>
  The last segment counts only when it starts strictly behind the page end of the one before it: when it
  starts exactly there, it is left out of the size, although the copying loop still writes it.
\<close>

lemma image_map_size_ascending:
  assumes "map segment_of (filter (\<lambda>ph. p_type ph = PT_LOAD) phs) = gs @ [g]"
    and "gapped gs" and "gs \<noteq> []" and "0 < sg_vaddr (hd gs)" and "length gs + 1 < MAX_SEGMENTS"
    and "segment_loop phs (replicate MAX_SEGMENTS zero_segment, 0, - 1) = Some (segs, count, lowest)"
  shows "image_map_size segs count lowest =
    Some ((if sg_vaddr_end (last gs) < sg_vaddr g then sg_vaddr_end g else sg_vaddr_end (last gs)) - lowest)"
proof -
  have l: "loadable phs = gs @ [g]"
    using assms(1) by (simp add: loadable_def)
  have "segment_loop phs (replicate MAX_SEGMENTS zero_segment, 0, - 1) =
      Some (gs @ [g] @ replicate (MAX_SEGMENTS - (length gs + 1)) zero_segment, length gs + 1,
        fold (\<lambda>g l. if sg_vaddr g < l then sg_vaddr g else l) (gs @ [g]) (- 1))"
    using segment_loop_spec [of "[]" phs MAX_SEGMENTS "- 1"] assms(5) l by simp
  then have segs: "segs = gs @ [g] @ replicate (MAX_SEGMENTS - (length gs + 1)) zero_segment"
    and count: "count = length gs + 1"
    using assms(6) by simp_all
  have "take (count + 1) segs = gs @ [g, zero_segment]"
    using assms(5) by (simp add: segs count take_replicate min_def)
  then show ?thesis
    using assms(2-5) by (simp add: image_map_size_def count highest_loop_append highest_loop_gapped)
      (simp add: zero_segment_def)
qed

end
