(* ===== verification/Generator.thy ===== *)
theory Generator
  imports Image
begin

text \<open>
  The image generator as a whole (\<open>kernel/image_generator.c\<close>): its own copy of the ELF structures, the main
  function from the command line to the output file, and what is in the image it writes.
\<close>

subsection \<open>The copy of the ELF structures\<close>

text \<open>The file does not include \<open>elf.h\<close> but repeats its structures and macros.\<close>

definition gen_ehdr :: "(nat \<times> nat) list" where
  "gen_ehdr = place 0 [char_array 16, half, half, wrd, xword, xword, xword, wrd, half, half, half, half, half, half]"

definition gen_phdr :: "(nat \<times> nat) list" where
  "gen_phdr = place 0 [wrd, wrd, xword, xword, xword, xword, xword, xword]"

definition gen_shdr :: "(nat \<times> nat) list" where
  "gen_shdr = place 0 [wrd, wrd, xword, xword, xword, xword, wrd, wrd, xword, xword]"

definition gen_sym :: "(nat \<times> nat) list" where
  "gen_sym = place 0 [wrd, char_array 1, char_array 1, half, xword, xword]"

definition gen_rel :: "(nat \<times> nat) list" where "gen_rel = place 0 [xword, xword]"
definition gen_rela :: "(nat \<times> nat) list" where "gen_rela = place 0 [xword, xword, xword]"

definition GEN_HDR_macros :: "(nat \<times> nat) list" where
  "GEN_HDR_macros = [(0, 16), (16, 2), (18, 2), (20, 4), (24, 8), (32, 8), (40, 8), (48, 4), (52, 2),
     (54, 2), (56, 2), (58, 2), (60, 2), (62, 2)]"

definition GEN_SH_macros :: "(nat \<times> nat) list" where
  "GEN_SH_macros = running 0 [4, 4, 8, 8, 8, 8, 4, 4, 4, 4]"

definition GEN_ST_macros :: "(nat \<times> nat) list" where
  "GEN_ST_macros = running 0 [4, 1, 1, 2, 8, 8]"

definition GEN_REL_macros :: "(nat \<times> nat) list" where "GEN_REL_macros = [(0, 8), (8, 8)]"
definition GEN_RELA_macros :: "(nat \<times> nat) list" where "GEN_RELA_macros = [(0, 8), (8, 8), (16, 8)]"

text \<open>
  The kernel and the tool agree on the structures: both read the same image with the same
  offsets; the macros of the section header are wrong in the same way.
\<close>

lemma generator_structures:
  "gen_ehdr = ehdr_layout" "gen_phdr = phdr_layout" "gen_shdr = shdr_layout" "gen_sym = sym_layout"
  "gen_rel = rel_layout" "gen_rela = rela_layout" "GEN_HDR_macros = gen_ehdr" "GEN_SH_macros = ELF64_SH_macros"
  "GEN_ST_macros = gen_sym" "GEN_REL_macros = gen_rel" "GEN_RELA_macros = gen_rela"
  by code_simp+

subsection \<open>The main function\<close>

text \<open>
  What the tool asks of the host: the contents of the files it opens (\<open>None\<close> when \<open>open\<close> fails), whether
  \<open>fstat\<close> and \<open>lseek\<close> succeed, where \<open>mmap\<close> puts the files (\<open>-1\<close> is its failure), and what is in the array
  \<open>user_buffer\<close> before it is filled.
\<close>

record gen_host =
  gh_input :: "string \<Rightarrow> u8 list option"
  gh_fstat :: bool
  gh_addr :: u64
  gh_output :: "string \<Rightarrow> u8 list option"
  gh_lseek :: bool
  gh_new_map :: u64
  gh_test_elf :: "u8 list option"
  gh_user_buffer :: "u8 list"

text \<open>A file in memory; the rest of its last page is zero.\<close>

definition map_file :: "u64 \<Rightarrow> u8 list \<Rightarrow> bytemem \<Rightarrow> bytemem" where
  "map_file addr bs m = put_bytes m addr (bs @ replicate ((4096 - length bs mod 4096) mod 4096) 0)"

text \<open>
  The bytes for \<open>user_binary\<close>. A failed \<open>open\<close> gives the descriptor -1, which passes the test of \<open>test_fd\<close>; \<open>lseek\<close>
  then gives -1 as well, which as an unsigned number is greater than 8192, and nothing is read.
\<close>

definition user_bytes :: "gen_host \<Rightarrow> u8 list" where
  "user_bytes h = (case gh_test_elf h of Some bs \<Rightarrow> take 8192 bs | None \<Rightarrow> take 8192 (gh_user_buffer h))"

text \<open>The loop that writes pages of zeros over the old contents of the output file.\<close>

definition zero_pages :: "nat \<Rightarrow> u8 list \<Rightarrow> u8 list" where
  "zero_pages n old = replicate (n * 4096) 0 @ drop (n * 4096) old"

text \<open>The output file after its mapping of \<open>n\<close> bytes, in whole pages, is written back: what lies behind its end is lost.\<close>

definition write_back :: "bytemem \<Rightarrow> u64 \<Rightarrow> nat \<Rightarrow> u8 list \<Rightarrow> u8 list" where
  "write_back m new_map n c = map (\<lambda>i. m (new_map + of_nat i)) [0..<min n (length c)] @ drop n c"

text \<open>
  The result is the exit code and the contents of the output file, once it is open. \<open>name\<close> is the address of the
  string \<open>user_binary\<close>. The argument behind the last one is a null pointer, which cannot be opened. The file has only the
  whole pages of \<open>map_size\<close>, or its old size when that is larger: a store into the mapping behind its last page
  ends the tool.
\<close>

definition gen_output ::
  "gen_host \<Rightarrow> u64 \<Rightarrow> segment list \<Rightarrow> u64 \<Rightarrow> u64 \<Rightarrow> u64 \<Rightarrow> bool \<Rightarrow> u8 list \<Rightarrow> bytemem \<Rightarrow> (c_int \<times> u8 list option) option" where
  "gen_output h test_elf_ptr segs lowest map_size file_size b_flag old m =
     (let c = zero_pages (unat (map_size div 0x1000)) old in
      if \<not> gh_lseek h then Some (1, Some c)
      else if gh_new_map h = -1 then Some (0, Some c)
      else do {
        m \<leftarrow> image_fill (gh_addr h) (gh_new_map h) (min (pages (unat map_size)) (pages (length c))) test_elf_ptr segs lowest
              file_size (user_bytes h) b_flag (map_file (gh_new_map h) (take (pages (unat map_size)) c) m);
        Some (0, Some (write_back m (gh_new_map h) (pages (unat map_size)) c)) })"

definition gen_main :: "gen_host \<Rightarrow> string list \<Rightarrow> u64 \<Rightarrow> bytemem \<Rightarrow> (c_int \<times> u8 list option) option" where
  "gen_main h argv name m =
     (if length argv < 2 \<or> (length argv = 4 \<and> argv ! 1 \<noteq> ''-b'') then Some (1, None)
      else
        let b_flag = (length argv = 4);
            arg_index = (if b_flag then 2 else 1);
            input_file = argv ! arg_index;
            output_file = (if arg_index + 1 < length argv then Some (argv ! (arg_index + 1)) else None)
        in if take 1 input_file = ''-'' then Some (1, None)
        else case gh_input h input_file of None \<Rightarrow> Some (1, None)
        | Some bs \<Rightarrow>
            if \<not> gh_fstat h \<or> gh_addr h = -1 then Some (1, None)
            else let m = map_file (gh_addr h) bs m in do {
              test_elf_ptr \<leftarrow> get_symbol_address (gh_addr h) name m;
              (segs, lowest, map_size) \<leftarrow> image_plan (gh_addr h) m;
              case Option.bind output_file (gh_output h) of None \<Rightarrow> Some (0, None)
              | Some old \<Rightarrow> gen_output h test_elf_ptr segs lowest map_size (of_nat (length bs)) b_flag old m })"

subsection \<open>What is in the image\<close>

text \<open>The segments copied, each with the number of bytes.\<close>

definition copy_length :: "segment \<Rightarrow> segment \<Rightarrow> u64" where
  "copy_length g g' =
     (if sg_offset g + sg_filesz g < sg_memsz g' then PAGEUP (sg_vaddr g' - sg_vaddr g) else sg_vaddr g' - sg_vaddr g)"

definition last_length :: "u64 \<Rightarrow> segment \<Rightarrow> u64" where
  "last_length file_size g = (if file_size - sg_offset g < sg_memsz g then file_size - sg_offset g else sg_memsz g)"

text \<open>
  The parts of the image: the position, the offset in the file and the number of bytes. Each segment reaches up
  to the start of the next one, the last one to the end of the segment or of the file.
\<close>

fun image_parts :: "u64 \<Rightarrow> u64 \<Rightarrow> segment list \<Rightarrow> (nat \<times> nat \<times> nat) list" where
  "image_parts lowest fsz [] = []"
| "image_parts lowest fsz [g] = [(unat (sg_vaddr g - lowest), unat (sg_offset g), unat (last_length fsz g))]"
| "image_parts lowest fsz (g # g' # gs) =
     (unat (sg_vaddr g - lowest), unat (sg_offset g), unat (sg_vaddr g' - lowest) - unat (sg_vaddr g - lowest)) #
     image_parts lowest fsz (g' # gs)"

text \<open>
  Ascending segments whose copies stay within an image of \<open>sz\<close> bytes and a file of \<open>fsz\<close> bytes.
\<close>

definition copy_fits :: "u64 \<Rightarrow> nat \<Rightarrow> nat \<Rightarrow> segment \<Rightarrow> u64 \<Rightarrow> bool" where
  "copy_fits lowest sz fsz g n \<longleftrightarrow> unat (sg_vaddr g - lowest) + unat n \<le> sz \<and> unat (sg_offset g) + unat n \<le> fsz"

fun copies_fit :: "u64 \<Rightarrow> nat \<Rightarrow> u64 \<Rightarrow> segment list \<Rightarrow> bool" where
  "copies_fit lowest sz fsz [] \<longleftrightarrow> False"
| "copies_fit lowest sz fsz [g] \<longleftrightarrow> copy_fits lowest sz (unat fsz) g (last_length fsz g)"
| "copies_fit lowest sz fsz (g # g' # gs) \<longleftrightarrow>
     lowest \<le> sg_vaddr g \<and> sg_vaddr g < sg_vaddr g' \<and> sg_vaddr g' - sg_vaddr g \<le> 0xFFFFF000 \<and>
     copy_fits lowest sz (unat fsz) g (copy_length g g') \<and> copies_fit lowest sz fsz (g' # gs)"

lemma PAGEUP_PAGE_UP: "unat x \<le> 0xFFFFF000 \<Longrightarrow> PAGEUP x = PAGE_UP x"
proof -
  assume x: "unat x \<le> 0xFFFFF000"
  have "unat (x + 0xFFF) = unat x + 4095" using x by (subst unat_add_nowrap) simp_all
  then have "unat (x + 0xFFF) < 2 ^ 32" using x by simp
  then have "take_bit 32 (x + 0xFFF) = x + 0xFFF"
    by (simp only: word_unat_eq_iff unsigned_take_bit_eq take_bit_nat_eq_self)
  moreover have "(x + 0xFFF) AND ucast (NOT (mask 12) :: u32) = take_bit 32 (x + 0xFFF) AND NOT (mask 12)"
    by (rule bit_word_eqI) (auto simp: bit_simps)
  moreover have "x + 0x1000 - 1 = x + 0xFFF" "(0x1000 - 1 :: u32) = mask 12" "(0xFFF :: u64) = mask 12"
    by (simp_all add: mask_eq_exp_minus_1)
  ultimately show ?thesis by (simp only: PAGEUP_def PAGE_UP_def)
qed

lemma copy_length_ge: "sg_vaddr g' - sg_vaddr g \<le> 0xFFFFF000 \<Longrightarrow> unat (sg_vaddr g' - sg_vaddr g) \<le> unat (copy_length g g')"
  by (auto simp: copy_length_def PAGEUP_PAGE_UP word_le_nat_alt unat_PAGE_UP)

definition maps_apart :: "u64 \<Rightarrow> nat \<Rightarrow> u64 \<Rightarrow> nat \<Rightarrow> bool" where
  "maps_apart a k b n \<longleftrightarrow> unat a + k \<le> 18446744073709551616 \<and> unat b + n \<le> 18446744073709551616 \<and>
     (unat a + k \<le> unat b \<or> unat b + n \<le> unat a)"

lemma unat_offset:
  fixes b :: u64
  assumes "unat b + n \<le> 18446744073709551616" and "i < n"
  shows "unat (b + of_nat i) = unat b + i"
  using assms by (simp add: unat_add_nowrap unat_of_nat_u64)

lemma offset_eq_iff:
  fixes b :: u64
  assumes "unat b + n \<le> 18446744073709551616" "i < n" "j < n"
  shows "b + of_nat i = b + of_nat j \<longleftrightarrow> i = j"
  using unat_offset [OF assms(1,2)] unat_offset [OF assms(1,3)] by (metis add_left_cancel)

lemma in_offset:
  fixes b :: u64
  assumes "unat b + n \<le> 18446744073709551616" "q < n" "p + k \<le> n"
  shows "unat (b + of_nat q - (b + of_nat p)) < k \<longleftrightarrow> p \<le> q \<and> q < p + k"
proof -
  have e: "b + of_nat q - (b + of_nat p) = of_nat q - (of_nat p :: u64)" by simp
  have u: "unat (of_nat q :: u64) = q" using assms by (intro unat_of_nat_u64) simp
  show ?thesis
  proof (cases "p \<le> q")
    case True
    then have "of_nat q - (of_nat p :: u64) = of_nat (q - p)" by simp
    moreover have "unat (of_nat (q - p) :: u64) = q - p" using assms by (intro unat_of_nat_u64) linarith
    ultimately show ?thesis using True by (auto simp: e)
  next
    case False
    then have "unat (of_nat p :: u64) = p \<or> k = 0" using assms by (cases "k = 0") (auto intro!: unat_of_nat_u64)
    moreover have "k \<le> unat (of_nat q - (of_nat p :: u64))" if "unat (of_nat p :: u64) = p"
      using False assms that u by (simp add: unat_sub_if_size word_size)
    ultimately show ?thesis using False by (simp only: e) auto
  qed
qed

lemma apart_neq:
  fixes a b :: u64
  assumes "maps_apart a l b n" "i < l" "q < n"
  shows "a + of_nat i \<noteq> b + of_nat q"
proof -
  have "unat (a + of_nat i) = unat a + i" "unat (b + of_nat q) = unat b + q"
    using assms by (auto simp: maps_apart_def intro!: unat_offset)
  then have "unat a + i = unat b + q" if "a + of_nat i = b + of_nat q" using that by simp
  then show ?thesis using assms unfolding maps_apart_def by linarith
qed

text \<open>One copy: the bytes at the position \<open>p\<close> of the image, everything else as before.\<close>

lemma copy_effect:
  fixes m :: bytemem and p off k :: u64
  assumes A: "maps_apart addr l new_map n" and p: "unat p + unat k \<le> n" and o: "unat off + unat k \<le> l"
  defines "m' \<equiv> snd (memcpy m (p + new_map) (off + addr) k)"
  shows "\<forall>i < l. m' (addr + of_nat i) = m (addr + of_nat i)"
    and "\<forall>q < n. m' (new_map + of_nat q) = (if unat p \<le> q \<and> q < unat p + unat k
           then m (addr + of_nat (unat off + (q - unat p))) else m (new_map + of_nat q))"
proof -
  have pw: "p + new_map = new_map + of_nat (unat p)" "off + addr = addr + of_nat (unat off)" by simp_all
  have B: "unat addr + l \<le> 18446744073709551616" "unat new_map + n \<le> 18446744073709551616"
    using A by (simp_all add: maps_apart_def)
  have "unat k \<le> unat (p + new_map - (off + addr))"
  proof (rule ccontr)
    assume c: "\<not> unat k \<le> unat (p + new_map - (off + addr))"
    define j where "j = unat (p + new_map - (off + addr))"
    have "addr + of_nat (unat off + j) = new_map + of_nat (unat p)" by (simp add: j_def)
    moreover have "unat off + j < l" "unat p < n" using c o p by (auto simp: j_def)
    ultimately show False using apart_neq [OF A] by blast
  qed
  then have m': "m' = (\<lambda>x. if unat (x - (p + new_map)) < unat k then m (off + addr + (x - (p + new_map))) else m x)"
    by (simp add: m'_def memcpy_def memcpy_loop_copy)
  have img: "unat (new_map + of_nat q - (p + new_map)) < unat k \<longleftrightarrow> unat p \<le> q \<and> q < unat p + unat k" if "q < n" for q
    using in_offset [OF B(2) that p] by (simp only: pw)
  show "\<forall>q < n. m' (new_map + of_nat q) = (if unat p \<le> q \<and> q < unat p + unat k
           then m (addr + of_nat (unat off + (q - unat p))) else m (new_map + of_nat q))"
    using img by (auto simp: m' of_nat_diff algebra_simps)
  have "\<not> unat (addr + of_nat i - (p + new_map)) < unat k" if i: "i < l" for i
  proof
    define j where "j = unat (addr + of_nat i - (p + new_map))"
    assume "unat (addr + of_nat i - (p + new_map)) < unat k"
    then have "unat p + j < n" using p by (simp add: j_def)
    moreover have "addr + of_nat i = new_map + of_nat (unat p + j)" by (simp add: j_def)
    ultimately show False using apart_neq [OF A i] by blast
  qed
  then show "\<forall>i < l. m' (addr + of_nat i) = m (addr + of_nat i)" by (simp add: m')
qed

text \<open>
  All copies: the file stays as it is, nothing before the first segment is written, and every part of
  the image has its bytes.
\<close>

definition image_done :: "u64 \<Rightarrow> u64 \<Rightarrow> u64 \<Rightarrow> nat \<Rightarrow> u64 \<Rightarrow> segment list \<Rightarrow> bytemem \<Rightarrow> bytemem \<Rightarrow> bool" where
  "image_done addr new_map lowest n fsz gs m m' \<longleftrightarrow>
     (\<forall>i < unat fsz. m' (addr + of_nat i) = m (addr + of_nat i)) \<and>
     (\<forall>q < n. q < unat (sg_vaddr (hd gs) - lowest) \<longrightarrow> m' (new_map + of_nat q) = m (new_map + of_nat q)) \<and>
     (\<forall>(p, off, k) \<in> set (image_parts lowest fsz gs). p + k \<le> n \<and> off + k \<le> unat fsz \<and>
        (\<forall>i < k. m' (new_map + of_nat (p + i)) = m (addr + of_nat (off + i))))"

lemma pages_ge: "k \<le> pages k"
  using div_mult_mod_eq [of "k + 4095" 4096] mod_less_divisor [of 4096 "k + 4095"] by linarith

lemma copies_effect:
  assumes A: "maps_apart addr (unat fsz) new_map n"
  shows "copies_fit lowest n fsz gs \<Longrightarrow>
     \<exists>m'. copy_segments addr new_map n lowest fsz gs m = Some m' \<and> image_done addr new_map lowest n fsz gs m m'"
proof (induction gs arbitrary: m)
  case (Cons g gs)
  show ?case
  proof (cases gs)
    case Nil
    then have f: "unat (sg_vaddr g - lowest) + unat (last_length fsz g) \<le> n" "unat (sg_offset g) + unat (last_length fsz g) \<le> unat fsz"
      using Cons.prems by (simp_all add: copy_fits_def)
    define m' where "m' = snd (memcpy m (sg_vaddr g - lowest + new_map) (sg_offset g + addr) (last_length fsz g))"
    have ok: "copy_bytes addr (pages (unat fsz)) new_map n (sg_vaddr g - lowest) (sg_offset g) (last_length fsz g) m = Some m'"
      using f pages_ge [of "unat fsz"] by (simp add: copy_bytes_def accessible_def m'_def)
    note E = copy_effect [OF A f, of m, folded m'_def]
    have "m' (new_map + of_nat (unat (sg_vaddr g - lowest) + i)) = m (addr + of_nat (unat (sg_offset g) + i))"
      if "i < unat (last_length fsz g)" for i
      using E(2) that f by (simp del: of_nat_add)
    then have "image_done addr new_map lowest n fsz gs' m m'" if "gs' = [g]" for gs'
      using E f that by (simp add: image_done_def del: of_nat_add)
    moreover have "copy_segments addr new_map n lowest fsz (g # gs) m = Some m'"
      using Nil ok by (simp add: last_length_def)
    ultimately show ?thesis using Nil by blast
  next
    case (Cons g' gs')
    let ?p = "unat (sg_vaddr g - lowest)" and ?p' = "unat (sg_vaddr g' - lowest)"
    have ord: "lowest \<le> sg_vaddr g" "sg_vaddr g < sg_vaddr g'" "sg_vaddr g' - sg_vaddr g \<le> 0xFFFFF000"
      and f: "?p + unat (copy_length g g') \<le> n" "unat (sg_offset g) + unat (copy_length g g') \<le> unat fsz"
      and rest: "copies_fit lowest n fsz gs"
      using Cons.prems Cons by (simp_all add: copy_fits_def)
    have "?p' = ?p + unat (sg_vaddr g' - sg_vaddr g)"
      using ord(1,2) by (simp add: unat_sub_if_size word_less_nat_alt word_le_nat_alt)
    moreover have "0 < unat (sg_vaddr g' - sg_vaddr g)"
      using ord(2) by (simp add: unat_gt_0)
    ultimately have pp: "?p < ?p'" "?p' - ?p \<le> unat (copy_length g g')" "hd gs = g'"
      using copy_length_ge [OF ord(3)] Cons by simp_all
    define m1 where "m1 = snd (memcpy m (sg_vaddr g - lowest + new_map) (sg_offset g + addr) (copy_length g g'))"
    have "copy_bytes addr (pages (unat fsz)) new_map n (sg_vaddr g - lowest) (sg_offset g) (copy_length g g') m = Some m1"
      using f pages_ge [of "unat fsz"] by (simp add: copy_bytes_def accessible_def m1_def)
    then have ok: "copy_segment addr (pages (unat fsz)) new_map n lowest g g' m = Some m1"
      by (simp add: copy_segment_def copy_length_def Let_def)
    note E = copy_effect [OF A f, of m, folded m1_def]
    obtain m' where R: "copy_segments addr new_map n lowest fsz gs m1 = Some m'" "image_done addr new_map lowest n fsz gs m1 m'"
      using Cons.IH [OF rest] by blast
    have run: "copy_segments addr new_map n lowest fsz (g # gs) m = Some m'"
      using R(1) Cons ok by simp
    have source: "m' (addr + of_nat i) = m (addr + of_nat i)" if "i < unat fsz" for i
      using R(2) E(1) that by (simp add: image_done_def)
    have low: "m' (new_map + of_nat q) = m1 (new_map + of_nat q)" if "q < n" "q < ?p'" for q
      using R(2) that pp(3) by (simp add: image_done_def)
    have part: "m' (new_map + of_nat (?p + i)) = m (addr + of_nat (unat (sg_offset g) + i))" if "i < ?p' - ?p" for i
      using low [of "?p + i"] E(2) that pp f by (simp del: of_nat_add)
    have before: "m' (new_map + of_nat q) = m (new_map + of_nat q)" if "q < n" "q < ?p" for q
      using low [of q] E(2) that pp by simp
    have later: "p + k \<le> n \<and> off + k \<le> unat fsz \<and> (\<forall>i < k. m' (new_map + of_nat (p + i)) = m (addr + of_nat (off + i)))"
      if "(p, off, k) \<in> set (image_parts lowest fsz gs)" for p off k
    proof -
      have "p + k \<le> n" "off + k \<le> unat fsz" "\<forall>i < k. m' (new_map + of_nat (p + i)) = m1 (addr + of_nat (off + i))"
        using R(2) that unfolding image_done_def by blast+
      moreover have "m1 (addr + of_nat (off + i)) = m (addr + of_nat (off + i))" if "i < k" for i
        using E(1) [rule_format, of "off + i"] calculation(2) that by linarith
      ultimately show ?thesis by simp
    qed
    have parts: "image_parts lowest fsz (g # gs) = (?p, unat (sg_offset g), ?p' - ?p) # image_parts lowest fsz gs"
      using Cons by simp
    have "?p + (?p' - ?p) \<le> n" "unat (sg_offset g) + (?p' - ?p) \<le> unat fsz"
      using pp f by linarith+
    moreover have "\<forall>(p, off, k) \<in> set (image_parts lowest fsz gs). p + k \<le> n \<and> off + k \<le> unat fsz \<and>
        (\<forall>i < k. m' (new_map + of_nat (p + i)) = m (addr + of_nat (off + i)))"
      using later by blast
    ultimately have "image_done addr new_map lowest n fsz (g # gs) m m'"
      using source before part by (simp add: image_done_def parts del: of_nat_add)
    then show ?thesis using run by blast
  qed
qed simp

text \<open>The plan for ascending segments with gaps between their pages.\<close>

definition file_headers :: "u64 \<Rightarrow> bytemem \<Rightarrow> elf64_phdr list" where
  "file_headers addr m =
     (let ehdr = read_ehdr m addr in map (\<lambda>i. read_phdr m (addr + e_phoff ehdr + 56 * of_nat i)) [0..<unat (e_phnum ehdr)])"

lemma lowest_kept: "\<forall>g \<in> set gs. l \<le> sg_vaddr g \<Longrightarrow> fold (\<lambda>g l. if sg_vaddr g < l then sg_vaddr g else l) gs l = l"
  by (induction gs) auto

lemma gapped_lowest:
  assumes "gapped gs" "gs \<noteq> []"
  shows "fold (\<lambda>g l. if sg_vaddr g < l then sg_vaddr g else l) gs (- 1) = sg_vaddr (hd gs)"
proof -
  obtain g gs' where gs: "gs = g # gs'" using assms(2) by (cases gs) auto
  have "\<forall>g' \<in> set gs'. sg_vaddr g \<le> sg_vaddr g'"
    using assms(1) by (force simp: gapped_def gs)
  moreover have "(if sg_vaddr g < - 1 then sg_vaddr g else - 1) = sg_vaddr g"
    using word_n1_ge [of "sg_vaddr g"] by (auto simp: not_less intro: antisym)
  ultimately show ?thesis using lowest_kept by (simp add: gs)
qed

lemma gapped_highest:
  assumes "gapped gs" "gs \<noteq> []" "0 < sg_vaddr (last gs)"
  shows "highest_loop (gs @ [zero_segment]) 0 = sg_vaddr_end (last gs)"
proof -
  obtain g gs' where gs: "gs = g # gs'" using assms(2) by (cases gs) auto
  have "highest_loop gs 0 = sg_vaddr_end (last gs)"
  proof (cases "0 < sg_vaddr g")
    case True
    then show ?thesis using highest_loop_gapped [OF assms(1,2)] by (simp add: gs)
  next
    case False
    then have ne: "sg_vaddr g = 0" "gs' \<noteq> []" "gapped gs'"
      using assms(1,3) by (auto simp: gs gapped_def word_gt_0)
    then have "sg_vaddr_end g < sg_vaddr (hd gs')" using assms(1) by (simp add: gs gapped_def)
    then have "0 < sg_vaddr (hd gs')" by (rule order.strict_trans1 [OF word_zero_le])
    then show ?thesis using highest_loop_gapped [OF ne(3,2)] ne by (simp add: gs)
  qed
  then show ?thesis by (simp add: highest_loop_append zero_segment_def)
qed

lemma image_plan_gapped:
  assumes "loadable (file_headers addr m) = gs" "gapped gs" "gs \<noteq> []" "length gs < MAX_SEGMENTS" "0 < sg_vaddr (last gs)"
  shows "image_plan addr m = Some (gs, sg_vaddr (hd gs), sg_vaddr_end (last gs) - sg_vaddr (hd gs))"
proof -
  have "segment_loop (file_headers addr m) (replicate MAX_SEGMENTS zero_segment, 0, - 1) =
      Some (gs @ replicate (MAX_SEGMENTS - length gs) zero_segment, length gs, sg_vaddr (hd gs))"
    using segment_loop_spec [of "[]" "file_headers addr m" MAX_SEGMENTS "- 1"] assms gapped_lowest [OF assms(2,3)] by simp
  then have "image_segments addr m = Some (gs @ replicate (MAX_SEGMENTS - length gs) zero_segment, length gs, sg_vaddr (hd gs))"
    by (simp add: image_segments_def file_headers_def Let_def)
  moreover have "take (Suc (length gs)) (gs @ replicate (MAX_SEGMENTS - length gs) zero_segment) = gs @ [zero_segment]"
    using assms(4) by (simp add: take_replicate)
  ultimately show ?thesis
    using assms(4) gapped_highest [OF assms(2,3,5)] by (simp add: image_plan_def image_map_size_def)
qed

subsection \<open>The files in memory\<close>

lemma put_bytes_in:
  "length bs \<le> 18446744073709551616 \<Longrightarrow> i < length bs \<Longrightarrow> put_bytes m p bs (p + of_nat i) = bs ! i"
  by (simp add: put_bytes_def unat_of_nat_u64)

lemma put_bytes_apart:
  fixes p a :: u64
  assumes "maps_apart a k p (length bs)" "i < k"
  shows "put_bytes m p bs (a + of_nat i) = m (a + of_nat i)"
proof -
  have "\<not> unat (a + of_nat i - p) < length bs"
  proof
    define q where "q = unat (a + of_nat i - p)"
    assume "unat (a + of_nat i - p) < length bs"
    then have "a + of_nat i = p + of_nat q" "q < length bs" by (simp_all add: q_def)
    then show False using apart_neq [OF assms] by blast
  qed
  then show ?thesis by (simp add: put_bytes_def)
qed

lemma pages_pad: "length (bs @ replicate ((4096 - length bs mod 4096) mod 4096) (0 :: u8)) = pages (length bs)"
proof -
  have "n + (4096 - n mod 4096) mod 4096 = pages n" for n :: nat
  proof (cases "n mod 4096 = 0")
    case True
    then obtain d where "n = d * 4096" by (auto simp: mod_eq_0_iff_dvd)
    then show ?thesis by simp
  next
    case False
    define d where "d = n div 4096"
    have n: "n = d * 4096 + n mod 4096" by (simp add: d_def)
    then have "n + 4095 = (d + 1) * 4096 + (n mod 4096 - 1)" using False by simp
    moreover have "((d + 1) * 4096 + (n mod 4096 - 1)) div 4096 = d + 1"
      using mod_less_divisor [of 4096 n] by (intro div_nat_eqI) simp_all
    ultimately have "pages n = (d + 1) * 4096" by (simp only:)
    then show ?thesis using n False mod_less_divisor [of 4096 n] by simp
  qed
  then show ?thesis by simp
qed

lemma maps_apart_mono: "maps_apart a k b n \<Longrightarrow> k' \<le> k \<Longrightarrow> n' \<le> n \<Longrightarrow> maps_apart a k' b n'"
  by (auto simp: maps_apart_def)

lemma map_file_in:
  assumes "pages (length bs) \<le> 18446744073709551616" "i < length bs"
  shows "map_file a bs m (a + of_nat i) = bs ! i"
proof -
  let ?bs = "bs @ replicate ((4096 - length bs mod 4096) mod 4096) 0"
  have "i < length ?bs" "?bs ! i = bs ! i" using assms(2) by (simp_all add: nth_append)
  then show ?thesis using put_bytes_in [of ?bs i m a] assms(1) by (simp only: map_file_def pages_pad)
qed

lemma pages_mono: "k \<le> pages n \<Longrightarrow> pages k \<le> pages n" for k n :: nat
proof -
  assume "k \<le> pages n"
  then have "(k + 4095) div 4096 \<le> (pages n + 4095) div 4096" by (intro div_le_mono) simp
  also have "\<dots> = (n + 4095) div 4096" by simp
  finally show ?thesis by simp
qed

lemma map_file_apart:
  assumes "maps_apart a k b (pages n)" "i < k" "length bs \<le> pages n"
  shows "map_file b bs m (a + of_nat i) = m (a + of_nat i)"
proof -
  have "maps_apart a k b (pages (length bs))"
    using maps_apart_mono [OF assms(1) order_refl pages_mono [OF assms(3)]] .
  then show ?thesis using put_bytes_apart [of a k b _ i m] assms(2) by (simp only: map_file_def pages_pad)
qed

text \<open>The bytes of \<open>user_binary\<close> and the cleared first byte, on top of the copied segments.\<close>

definition overlaid :: "nat \<Rightarrow> u8 list \<Rightarrow> bool \<Rightarrow> nat \<Rightarrow> u8 \<Rightarrow> u8" where
  "overlaid ptr user b_flag q x =
     (if b_flag \<and> q = 0 then 0 else if ptr \<noteq> 0 \<and> ptr \<le> q \<and> q < ptr + length user then user ! (q - ptr) else x)"

lemma image_fill_bytes:
  assumes A: "maps_apart addr (unat fsz) new_map n" and C: "copies_fit lowest n fsz gs"
    and u: "ptr = 0 \<or> unat ptr + length user \<le> n" and b: "b_flag \<Longrightarrow> 0 < n"
    and src: "\<forall>i < unat fsz. m (addr + of_nat i) = bs ! i"
  shows "\<exists>m'. image_fill addr new_map n ptr gs lowest fsz user b_flag m = Some m' \<and>
     (\<forall>(p, off, k) \<in> set (image_parts lowest fsz gs). p + k \<le> n \<and>
        (\<forall>i < k. m' (new_map + of_nat (p + i)) = overlaid (unat ptr) user b_flag (p + i) (bs ! (off + i))))"
proof -
  have B: "unat new_map + n \<le> 18446744073709551616" using A by (simp add: maps_apart_def)
  obtain m1 where m1: "copy_segments addr new_map n lowest fsz gs m = Some m1" "image_done addr new_map lowest n fsz gs m m1"
    using copies_effect [OF A C] by blast
  define m2 where "m2 = (if ptr \<noteq> 0 then put_bytes m1 (ptr + new_map) user else m1)"
  define m' where "m' = (if b_flag then m2(new_map := 0) else m2)"
  have run: "image_fill addr new_map n ptr gs lowest fsz user b_flag m = Some m'"
    using u b by (auto simp: image_fill_def m1(1) m'_def m2_def accessible_def)
  have put: "m2 (new_map + of_nat q) = (if ptr \<noteq> 0 \<and> unat ptr \<le> q \<and> q < unat ptr + length user then user ! (q - unat ptr)
      else m1 (new_map + of_nat q))" if "q < n" for q
  proof (cases "ptr = 0")
    case False
    have pw: "ptr + new_map = new_map + of_nat (unat ptr)" by simp
    have "unat (new_map + of_nat q - (ptr + new_map)) < length user \<longleftrightarrow> unat ptr \<le> q \<and> q < unat ptr + length user"
      using in_offset [OF B that] u False by (simp only: pw) blast
    moreover have "unat (new_map + of_nat q - (ptr + new_map)) = q - unat ptr" if "unat ptr \<le> q"
    proof -
      have "new_map + of_nat q - (ptr + new_map) = of_nat (q - unat ptr)" using that by (simp add: of_nat_diff)
      then show ?thesis using B \<open>q < n\<close> by (simp only:) (intro unat_of_nat_u64, simp)
    qed
    ultimately show ?thesis using False by (simp add: m2_def put_bytes_def)
  qed (simp add: m2_def)
  have clear: "m' (new_map + of_nat q) = (if b_flag \<and> q = 0 then 0 else m2 (new_map + of_nat q))" if "q < n" for q
    using offset_eq_iff [OF B that, of 0] that by (auto simp: m'_def)
  have "p + k \<le> n \<and> (\<forall>i < k. m' (new_map + of_nat (p + i)) = overlaid (unat ptr) user b_flag (p + i) (bs ! (off + i)))"
    if "(p, off, k) \<in> set (image_parts lowest fsz gs)" for p off k
  proof -
    have d: "p + k \<le> n" "off + k \<le> unat fsz" "\<forall>i < k. m1 (new_map + of_nat (p + i)) = m (addr + of_nat (off + i))"
      using m1(2) that unfolding image_done_def by blast+
    have "m' (new_map + of_nat (p + i)) = overlaid (unat ptr) user b_flag (p + i) (bs ! (off + i))" if "i < k" for i
    proof -
      have "p + i < n" "off + i < unat fsz" using d that by simp_all
      then show ?thesis
        using clear put d(3) that src by (simp add: overlaid_def unat_eq_0 del: of_nat_add)
    qed
    then show ?thesis using d(1) by blast
  qed
  then show ?thesis using run by blast
qed

lemma length_zero_pages: "length (zero_pages n old) = max (n * 4096) (length old)"
  by (auto simp: zero_pages_def)

lemma length_write_back: "length (write_back m new_map n c) = length c"
  by (simp add: write_back_def)

lemma nth_write_back: "q < n \<Longrightarrow> q < length c \<Longrightarrow> write_back m new_map n c ! q = m (new_map + of_nat q)"
  by (simp add: write_back_def nth_append)

text \<open>The output file, from the segments on.\<close>

lemma gen_output_bytes:
  fixes old :: "u8 list" and map_size :: u64
  defines "sz \<equiv> max (unat map_size div 4096 * 4096) (length old)"
  defines "out_len \<equiv> min (pages (unat map_size)) (pages sz)"
  assumes host: "gh_lseek h" "gh_new_map h \<noteq> -1" and fsz: "length bs < 18446744073709551616"
    and C: "copies_fit lowest out_len (of_nat (length bs)) gs"
    and A: "maps_apart (gh_addr h) (pages (length bs)) (gh_new_map h) (pages (unat map_size))"
    and u: "ptr = 0 \<or> unat ptr + length (user_bytes h) \<le> out_len" and b: "b_flag \<Longrightarrow> 0 < out_len"
  shows "\<exists>img. gen_output h ptr gs lowest map_size (of_nat (length bs)) b_flag old (map_file (gh_addr h) bs m) = Some (0, Some img) \<and>
     length img = sz \<and>
     (\<forall>(p, off, k) \<in> set (image_parts lowest (of_nat (length bs)) gs). p + k \<le> out_len \<and>
        (\<forall>i < k. p + i < sz \<longrightarrow> img ! (p + i) = overlaid (unat ptr) (user_bytes h) b_flag (p + i) (bs ! (off + i))))"
proof -
  let ?n = "unat map_size" and ?l = "length bs"
  define c where "c = zero_pages (unat (map_size div 0x1000)) old"
  have lc: "length c = sz"
    by (simp add: c_def length_zero_pages unat_div sz_def)
  have l: "unat (of_nat ?l :: u64) = ?l" using fsz by (rule unat_of_nat_u64)
  have A1: "maps_apart (gh_addr h) ?l (gh_new_map h) (pages ?n)" and A2: "maps_apart (gh_addr h) (unat (of_nat ?l :: u64)) (gh_new_map h) out_len"
    using maps_apart_mono [OF A] pages_ge by (simp_all add: l out_len_def)
  have pl: "pages ?l \<le> 18446744073709551616" using A by (simp add: maps_apart_def)
  let ?m = "map_file (gh_new_map h) (take (pages ?n) c) (map_file (gh_addr h) bs m)"
  have "?m (gh_addr h + of_nat i) = bs ! i" if "i < unat (of_nat ?l :: u64)" for i
    using map_file_apart [OF A1, of i "take (pages ?n) c"] map_file_in [OF pl] that by (simp add: l)
  then obtain m' where F: "image_fill (gh_addr h) (gh_new_map h) out_len ptr gs lowest (of_nat ?l) (user_bytes h) b_flag ?m = Some m'"
      "\<forall>(p, off, k) \<in> set (image_parts lowest (of_nat ?l) gs). p + k \<le> out_len \<and>
        (\<forall>i < k. m' (gh_new_map h + of_nat (p + i)) = overlaid (unat ptr) (user_bytes h) b_flag (p + i) (bs ! (off + i)))"
    using image_fill_bytes [where m = ?m and bs = bs and b_flag = b_flag, OF A2 C u b] by blast
  define img where "img = write_back m' (gh_new_map h) (pages ?n) c"
  have run: "gen_output h ptr gs lowest map_size (of_nat ?l) b_flag old (map_file (gh_addr h) bs m) = Some (0, Some img)"
    using host F(1) by (simp add: gen_output_def c_def [symmetric] img_def lc out_len_def Let_def)
  have "p + k \<le> out_len \<and> (\<forall>i < k. p + i < sz \<longrightarrow>
      img ! (p + i) = overlaid (unat ptr) (user_bytes h) b_flag (p + i) (bs ! (off + i)))"
    if "(p, off, k) \<in> set (image_parts lowest (of_nat ?l) gs)" for p off k
  proof -
    have d: "p + k \<le> out_len" "\<forall>i < k. m' (gh_new_map h + of_nat (p + i)) = overlaid (unat ptr) (user_bytes h) b_flag (p + i) (bs ! (off + i))"
      using F(2) that by blast+
    have "img ! (p + i) = m' (gh_new_map h + of_nat (p + i))" if "i < k" "p + i < sz" for i
      using that d(1) lc by (simp add: img_def out_len_def nth_write_back del: of_nat_add)
    then show ?thesis using d by simp
  qed
  moreover have "length img = sz" by (simp add: img_def length_write_back lc)
  ultimately show ?thesis using run by blast
qed

text \<open>C8. The image generator, from the command line to the output file. Let the input file have ascending segments whose
  pages do not touch, and let \<open>n\<close> be the distance from the start of the first to the page end of the last. The
  output file gets the whole pages in \<open>n\<close>, so \<open>n\<close> rounded down, or keeps its old size when that is larger. If all copies stay
  within the pages that the file has, the tool ends with exit code 0 and this file. Each byte of it from the start of a
  segment up to the start of the next one, and of the last segment up to its end, is then the byte of the input file
  at the same distance from the offset of the segment, except that the contents of \<open>test.elf\<close> are at the symbol
  \<open>user_binary\<close>, and that the first byte is 0 with the option \<open>-b\<close>.\<close>

theorem image_written:
  fixes h :: gen_host and m :: bytemem and bs old :: "u8 list" and n :: nat
  defines "addr \<equiv> gh_addr h" and "fsz \<equiv> of_nat (length bs) :: u64" and "sz \<equiv> max (n div 4096 * 4096) (length old)"
  defines "out_len \<equiv> min (pages n) (pages sz)"
  assumes argv: "argv = prog # (if b then [''-b''] else []) @ [inp, out]" "take 1 inp \<noteq> ''-''"
    and host: "gh_input h inp = Some bs" "gh_fstat h" "addr \<noteq> -1" "gh_output h out = Some old" "gh_lseek h" "gh_new_map h \<noteq> -1"
    and gs: "loadable (file_headers addr (map_file addr bs m)) = gs" "gapped gs" "gs \<noteq> []" "length gs < MAX_SEGMENTS" "0 < sg_vaddr (last gs)"
    and n: "n = unat (sg_vaddr_end (last gs) - sg_vaddr (hd gs))" "length bs < 18446744073709551616"
    and fit: "copies_fit (sg_vaddr (hd gs)) out_len fsz gs" "maps_apart addr (pages (length bs)) (gh_new_map h) (pages n)" "b \<Longrightarrow> 0 < out_len"
    and sym: "get_symbol_address addr name (map_file addr bs m) = Some ptr" "ptr = 0 \<or> unat ptr + length (user_bytes h) \<le> out_len"
  shows "\<exists>img. gen_main h argv name m = Some (0, Some img) \<and> length img = sz \<and>
     (\<forall>(p, off, k) \<in> set (image_parts (sg_vaddr (hd gs)) fsz gs). p + k \<le> out_len \<and>
        (\<forall>i < k. p + i < sz \<longrightarrow> img ! (p + i) = overlaid (unat ptr) (user_bytes h) b (p + i) (bs ! (off + i))))"
proof -
  have plan: "image_plan addr (map_file addr bs m) = Some (gs, sg_vaddr (hd gs), sg_vaddr_end (last gs) - sg_vaddr (hd gs))"
    by (rule image_plan_gapped [OF gs])
  have "gen_main h argv name m = gen_output h ptr gs (sg_vaddr (hd gs)) (sg_vaddr_end (last gs) - sg_vaddr (hd gs)) fsz b old
      (map_file addr bs m)"
    using argv host sym(1) plan by (cases b) (simp_all add: gen_main_def Let_def addr_def fsz_def)
  then show ?thesis
    using gen_output_bytes [OF host(5,6) n(2), of "sg_vaddr (hd gs)" "sg_vaddr_end (last gs) - sg_vaddr (hd gs)" old gs ptr b m]
      fit sym(2) by (simp add: n(1) addr_def fsz_def sz_def out_len_def)
qed

text \<open>An instance: a file of 4120 bytes with two segments, the first at the start of a page.\<close>

definition ex_elf_byte :: "nat \<Rightarrow> u8" where
  "ex_elf_byte = (\<lambda>_. 0)(16 := 2, 32 := 64, 56 := 2, 64 := 1, 81 := 0x10, 96 := 8, 104 := 8,
     120 := 1, 128 := 0x10, 129 := 0x10, 136 := 0x10, 137 := 0x20, 152 := 8, 160 := 8, 4112 := 0x61, 4113 := 0x62)"

definition ex_elf :: "u8 list" where "ex_elf = map ex_elf_byte [0..<4120]"

definition ex_host :: gen_host where
  "ex_host = \<lparr>gh_input = \<lambda>_. Some ex_elf, gh_fstat = True, gh_addr = 0x10000, gh_output = \<lambda>_. Some [], gh_lseek = True,
     gh_new_map = 0x20000, gh_test_elf = None, gh_user_buffer = []\<rparr>"

lemma ex_elf_mem: "unat (x - 0x10000) < 4120 \<Longrightarrow> map_file 0x10000 ex_elf m x = ex_elf_byte (unat (x - 0x10000))"
  by (simp add: map_file_def put_bytes_def ex_elf_def nth_append)

definition ex_segment1 :: segment where
  "ex_segment1 = \<lparr>sg_offset = 0, sg_vaddr = 0x1000, sg_filesz = 8, sg_memsz = 8, sg_align = 0, sg_vaddr_end = 0x2000\<rparr>"

definition ex_segment2 :: segment where
  "ex_segment2 = \<lparr>sg_offset = 4112, sg_vaddr = 0x2010, sg_filesz = 8, sg_memsz = 8, sg_align = 0, sg_vaddr_end = 0x3000\<rparr>"

lemma ex_elf_headers:
  fixes m :: bytemem
  defines "w \<equiv> map_file 0x10000 ex_elf m"
  shows "e_phoff (read_ehdr w 0x10000) = 64" "e_phnum (read_ehdr w 0x10000) = 2" "e_shnum (read_ehdr w 0x10000) = 0"
    "p_type (read_phdr w 0x10040) = PT_LOAD" "segment_of (read_phdr w 0x10040) = ex_segment1"
    "p_type (read_phdr w 0x10078) = PT_LOAD" "segment_of (read_phdr w 0x10078) = ex_segment2"
  by (simp_all add: w_def read_ehdr_def read_phdr_def field_at_def layouts load_le_def upt_rec ex_elf_mem ex_elf_byte_def
      PT_LOAD_def segment_of_def ex_segment1_def ex_segment2_def PAGEUP_def)

lemma ex_elf_segments: "loadable (file_headers 0x10000 (map_file 0x10000 ex_elf m)) = [ex_segment1, ex_segment2]"
  by (simp add: file_headers_def loadable_def ex_elf_headers upt_rec)

theorem image_written_witness:
  "\<exists>img. gen_main ex_host [''gen'', ''kernel.elf'', ''image''] 0x100 (\<lambda>_. 0) = Some (0, Some img) \<and> length img = 8192 \<and>
     img ! 16 = 2 \<and> img ! 4112 = 0x61 \<and> img ! 4113 = 0x62"
proof -
  have sym: "get_symbol_address 0x10000 0x100 (map_file 0x10000 ex_elf (\<lambda>_. 0)) = Some 0"
  proof -
    have "map_file 0x10000 ex_elf (\<lambda>_. 0) 0x100 = 0" by (simp add: map_file_def put_bytes_def ex_elf_def)
    then have "strlen (map_file 0x10000 ex_elf (\<lambda>_. 0)) 0x100 = Some 0" by (simp add: strlen_def strlen_loop.simps)
    then show ?thesis by (simp add: get_symbol_address_def ex_elf_headers)
  qed
  have seg: "sg_vaddr ex_segment1 = 0x1000" "sg_vaddr ex_segment2 = 0x2010" "sg_vaddr_end ex_segment1 = 0x2000"
    "sg_vaddr_end ex_segment2 = 0x3000" "sg_offset ex_segment1 = 0" "sg_offset ex_segment2 = 4112" "sg_filesz ex_segment1 = 8"
    "sg_memsz ex_segment1 = 8" "sg_memsz ex_segment2 = 8"
    by (simp_all add: ex_segment1_def ex_segment2_def)
  have len: "length ex_elf = 4120" by (simp add: ex_elf_def)
  have lst: "last_length 4120 ex_segment2 = 8" by (simp add: seg last_length_def)
  have host: "gh_input ex_host f = Some ex_elf" "gh_fstat ex_host" "gh_addr ex_host = 0x10000" "gh_output ex_host f = Some []"
    "gh_lseek ex_host" "gh_new_map ex_host = 0x20000" "user_bytes ex_host = []" for f
    by (simp_all add: ex_host_def user_bytes_def)
  obtain img where I: "gen_main ex_host [''gen'', ''kernel.elf'', ''image''] 0x100 (\<lambda>_. 0) = Some (0, Some img)" "length img = 8192"
      "\<forall>(p, off, k) \<in> set [(0, 0, 4112), (4112, 4112, 8)]. p + k \<le> 8192 \<and>
        (\<forall>i < k. p + i < 8192 \<longrightarrow> img ! (p + i) = overlaid 0 [] False (p + i) (ex_elf ! (off + i)))"
    using image_written [where h = ex_host and m = "\<lambda>_. 0" and bs = ex_elf and argv = "[''gen'', ''kernel.elf'', ''image'']" and
      prog = "''gen''" and b = False and inp = "''kernel.elf''" and out = "''image''" and old = "[]" and name = "0x100" and ptr = 0 and
      gs = "[ex_segment1, ex_segment2]" and n = 8192, unfolded host len] sym
    by (simp add: host ex_elf_segments gapped_def seg MAX_SEGMENTS_def copy_fits_def copy_length_def lst maps_apart_def) blast
  have J: "\<forall>i < 4112. img ! i = ex_elf ! i" "\<forall>i < 8. img ! (4112 + i) = ex_elf ! (4112 + i)"
    using I(3) by (simp_all add: overlaid_def)
  have "img ! 16 = ex_elf ! 16" "img ! 4112 = ex_elf ! 4112" "img ! 4113 = ex_elf ! 4113"
    using J(1) J(2) [rule_format, of 0] J(2) [rule_format, of 1] by simp_all
  then show ?thesis using I(1,2) by (simp add: ex_elf_def ex_elf_byte_def)
qed

subsection \<open>An image that is too short\<close>

lemma copy_segments_killed:
  assumes "out_len < unat (sg_vaddr (last gs) - lowest) + unat (last_length fsz (last gs))" "last_length fsz (last gs) \<noteq> 0"
  shows "copy_segments addr new_map out_len lowest fsz gs m = None"
  using assms
proof (induction addr new_map out_len lowest fsz gs m rule: copy_segments.induct)
  case (2 addr new_map out_len lowest fsz g m)
  then have "\<not> accessible out_len (sg_vaddr g - lowest) (unat (last_length fsz g))"
    by (simp add: accessible_def unat_gt_0)
  then show ?case by (simp add: copy_bytes_def last_length_def)
qed (simp_all split: bind_splits)

text \<open>C40. Only whole pages are written to the output file, so when the lowest address is not the start of a page the image can
  be up to a page longer than its file. If the copy of the last segment ends behind the last page of the file, the tool
  is killed while it fills the mapping.\<close>

theorem image_too_short:
  fixes h :: gen_host and m :: bytemem and bs old :: "u8 list" and n :: nat
  defines "addr \<equiv> gh_addr h" and "fsz \<equiv> of_nat (length bs) :: u64"
  assumes argv: "argv = prog # (if b then [''-b''] else []) @ [inp, out]" "take 1 inp \<noteq> ''-''"
    and host: "gh_input h inp = Some bs" "gh_fstat h" "addr \<noteq> -1" "gh_output h out = Some old" "gh_lseek h" "gh_new_map h \<noteq> -1"
    and gs: "loadable (file_headers addr (map_file addr bs m)) = gs" "gapped gs" "gs \<noteq> []" "length gs < MAX_SEGMENTS" "0 < sg_vaddr (last gs)"
    and n: "n = unat (sg_vaddr_end (last gs) - sg_vaddr (hd gs))" "length old \<le> n div 4096 * 4096"
    and short: "n div 4096 * 4096 < unat (sg_vaddr (last gs) - sg_vaddr (hd gs)) + unat (last_length fsz (last gs))"
      "last_length fsz (last gs) \<noteq> 0"
    and sym: "get_symbol_address addr name (map_file addr bs m) = Some ptr"
  shows "gen_main h argv name m = None"
proof -
  have plan: "image_plan addr (map_file addr bs m) = Some (gs, sg_vaddr (hd gs), sg_vaddr_end (last gs) - sg_vaddr (hd gs))"
    by (rule image_plan_gapped [OF gs])
  define size' where "size' = n div 4096 * 4096"
  have c: "length (zero_pages (unat ((sg_vaddr_end (last gs) - sg_vaddr (hd gs)) div 0x1000)) old) = size'"
    using n by (simp add: length_zero_pages unat_div size'_def)
  have "min (pages n) (pages size') \<le> size'" by (simp add: size'_def)
  then have "copy_segments addr (gh_new_map h) (min (pages n) (pages size')) (sg_vaddr (hd gs)) fsz gs m' = None" for m'
    using short by (intro copy_segments_killed) (simp_all add: size'_def)
  then have "gen_output h ptr gs (sg_vaddr (hd gs)) (sg_vaddr_end (last gs) - sg_vaddr (hd gs)) fsz b old m' = None" for m'
    using host(5,6) c n(1) by (simp add: gen_output_def image_fill_def Let_def addr_def)
  then show ?thesis
    using argv host sym(1) plan by (cases b) (simp_all add: gen_main_def Let_def addr_def fsz_def)
qed

text \<open>A file whose only segment starts in the middle of a page.\<close>

definition ex_small :: "u8 list" where
  "ex_small = map ((\<lambda>_. 0)(16 := 2, 32 := 64, 56 := 1, 64 := 1, 81 := 0x11, 96 := 8, 104 := 8)) [0..<120]"

lemma ex_small_mem:
  "unat (x - 0x10000) < 120 \<Longrightarrow> map_file 0x10000 ex_small m x =
     ((\<lambda>_. 0)(16 := 2, 32 := 64, 56 := 1, 64 := 1, 81 := 0x11, 96 := 8, 104 := 8)) (unat (x - 0x10000))"
  by (simp add: map_file_def put_bytes_def ex_small_def nth_append)

lemma ex_small_headers:
  fixes m :: bytemem
  defines "w \<equiv> map_file 0x10000 ex_small m"
  shows "e_phoff (read_ehdr w 0x10000) = 64" "e_phnum (read_ehdr w 0x10000) = 1" "e_shnum (read_ehdr w 0x10000) = 0"
    "p_type (read_phdr w 0x10040) = PT_LOAD"
    "segment_of (read_phdr w 0x10040) = \<lparr>sg_offset = 0, sg_vaddr = 0x1100, sg_filesz = 8, sg_memsz = 8, sg_align = 0, sg_vaddr_end = 0x2000\<rparr>"
  by (simp_all add: w_def read_ehdr_def read_phdr_def field_at_def layouts load_le_def upt_rec ex_small_mem
      PT_LOAD_def segment_of_def PAGEUP_def)

theorem image_too_short_witness:
  "gen_main (ex_host\<lparr>gh_input := \<lambda>_. Some ex_small\<rparr>) [''gen'', ''-b'', ''kernel.elf'', ''image''] 0x100 (\<lambda>_. 0) = None"
proof -
  let ?h = "ex_host\<lparr>gh_input := \<lambda>_. Some ex_small\<rparr>"
  let ?g = "\<lparr>sg_offset = 0, sg_vaddr = 0x1100, sg_filesz = 8, sg_memsz = 8, sg_align = 0, sg_vaddr_end = 0x2000 :: u64\<rparr>"
  have sym: "get_symbol_address 0x10000 0x100 (map_file 0x10000 ex_small (\<lambda>_. 0)) = Some 0"
  proof -
    have "map_file 0x10000 ex_small (\<lambda>_. 0) 0x100 = 0" by (simp add: map_file_def put_bytes_def ex_small_def)
    then have "strlen (map_file 0x10000 ex_small (\<lambda>_. 0)) 0x100 = Some 0" by (simp add: strlen_def strlen_loop.simps)
    then show ?thesis by (simp add: get_symbol_address_def ex_small_headers)
  qed
  have host: "gh_input ?h f = Some ex_small" "gh_fstat ?h" "gh_addr ?h = 0x10000" "gh_output ?h f = Some []"
    "gh_lseek ?h" "gh_new_map ?h = 0x20000" for f
    by (simp_all add: ex_host_def)
  have gs: "loadable (file_headers 0x10000 (map_file 0x10000 ex_small (\<lambda>_. 0))) = [?g]"
    by (simp add: file_headers_def loadable_def ex_small_headers upt_rec)
  have len: "length ex_small = 120" by (simp add: ex_small_def)
  have lst: "last_length 120 ?g = 8" by (simp add: last_length_def)
  show ?thesis
    using image_too_short [where h = ?h and m = "\<lambda>_. 0" and bs = ex_small and argv = "[''gen'', ''-b'', ''kernel.elf'', ''image'']" and
      prog = "''gen''" and b = True and inp = "''kernel.elf''" and out = "''image''" and old = "[]" and name = "0x100" and ptr = 0 and
      gs = "[?g]" and n = 3840, unfolded host len] sym
    by (simp add: host gs gapped_def MAX_SEGMENTS_def lst)
qed

end
